(* ===== verification/Prelude.thy ===== *)
theory Prelude
  imports Main "HOL-Library.Word" "HOL-Library.Char_ord" "HOL-Library.List_Lexorder"
    "HOL-Library.Sublist"
begin

unbundle bit_operations_syntax

text \<open>
  What every component shares: the fixed-width integers and characters of the code, C memory
  blocks with checked access, faults as values, the string operations of the C and C++ standard
  libraries and of Boost.StringAlgo that the code calls, and the two state-machine interfaces.

  A C++ \<open>char\<close> is HOL's 8-bit \<open>char\<close>, so a \<open>std::string\<close> and a block of \<open>char\<close> memory are
  both \<open>string\<close>. The unsigned integer types are words of their width; \<open>int\<close> is an unbounded
  \<open>int\<close> (every size in the modelled code stays far below \<open>2 ^ 31\<close>).
\<close>

section \<open>Integers and characters\<close>

type_synonym uint8 = "8 word"
type_synonym uint16 = "16 word"
type_synonym uint32 = "32 word"

abbreviation NUL :: char where
  "NUL \<equiv> CHR 0x00"

definition u8_of_char :: "char \<Rightarrow> uint8" where
  "u8_of_char c = word_of_nat (of_char c)"

definition char_of_u8 :: "uint8 \<Rightarrow> char" where
  "char_of_u8 w = char_of (unat w)"

text \<open>A plain \<open>char\<close> promoted to \<open>int\<close>: signed, as on the x86 builds of the daemon.\<close>

definition int_of_char :: "char \<Rightarrow> int" where
  "int_of_char c = sint (u8_of_char c)"

definition char_of_int :: "int \<Rightarrow> char" where
  "char_of_int i = char_of (nat (i mod 256))"

lemma unat_u8_of_char [simp]: "unat (u8_of_char c) = of_char c"
  by (simp add: u8_of_char_def unat_of_nat take_bit_nat_eq_self_iff)

lemma of_char_char_of_u8 [simp]: "of_char (char_of_u8 w) = unat w"
proof -
  have "unat w < 256" using unsigned_less [of w, where ?'a = nat] by simp
  then show ?thesis by (simp add: char_of_u8_def)
qed

lemma u8_of_char_of_u8 [simp]: "u8_of_char (char_of_u8 w) = w"
  by (simp add: word_unat_eq_iff)

lemma char_of_u8_of_char [simp]: "char_of_u8 (u8_of_char c) = c"
  by (simp add: char_of_u8_def)

lemma u8_of_char_eq_iff [simp]: "u8_of_char c = u8_of_char d \<longleftrightarrow> c = d"
  by (metis char_of_u8_of_char)

lemma char_of_u8_eq_iff [simp]: "char_of_u8 v = char_of_u8 w \<longleftrightarrow> v = w"
  by (metis u8_of_char_of_u8)

lemma u8_of_char_NUL [simp]: "u8_of_char NUL = 0"
  by (simp add: u8_of_char_def)

lemma char_of_u8_0 [simp]: "char_of_u8 0 = NUL"
  by (metis char_of_u8_of_char u8_of_char_NUL)

section \<open>Packing octets into words\<close>

lemma concat_bytes: "push_bit 8 (ucast a) OR ucast b = (ucast a * 256 + ucast b :: uint16)"
  for a b :: uint8
proof -
  have "push_bit 8 (ucast a) AND (ucast b :: uint16) = 0"
    by (rule bit_word_eqI) (auto simp: bit_and_iff bit_push_bit_iff bit_ucast_iff dest: bit_imp_le_length)
  then have "push_bit 8 (ucast a) + ucast b = push_bit 8 (ucast a) OR (ucast b :: uint16)"
    by (rule disjunctive_add_eq_or)
  then show ?thesis by (simp add: push_bit_eq_mult)
qed

lemma concat_halves: "push_bit 16 (ucast a) OR ucast b = (ucast a * 65536 + ucast b :: uint32)"
  for a b :: uint16
proof -
  have "push_bit 16 (ucast a) AND (ucast b :: uint32) = 0"
    by (rule bit_word_eqI) (auto simp: bit_and_iff bit_push_bit_iff bit_ucast_iff dest: bit_imp_le_length)
  then have "push_bit 16 (ucast a) + ucast b = push_bit 16 (ucast a) OR (ucast b :: uint32)"
    by (rule disjunctive_add_eq_or)
  then show ?thesis by (simp add: push_bit_eq_mult)
qed

lemma ucast_of_nat_less:
  "k < 2 ^ LENGTH('a) \<Longrightarrow> ucast (word_of_nat k :: 'a::len word) = (word_of_nat k :: 'b::len word)"
  by (simp add: unsigned_of_nat take_bit_nat_eq_self)

lemma pack16:
  "a < 256 \<Longrightarrow> b < 256 \<Longrightarrow>
   push_bit 8 (ucast (word_of_nat a :: uint8)) OR ucast (word_of_nat b :: uint8) = (word_of_nat (a * 256 + b) :: uint16)"
  by (simp only: concat_bytes) (simp add: ucast_of_nat_less)

lemma pack32:
  "a < 65536 \<Longrightarrow> b < 65536 \<Longrightarrow>
   push_bit 16 (ucast (word_of_nat a :: uint16)) OR ucast (word_of_nat b :: uint16) = (word_of_nat (a * 65536 + b) :: uint32)"
  by (simp only: concat_halves) (simp add: ucast_of_nat_less)

lemma unat_u8_bound: "unat w < 256" for w :: uint8
  using unsigned_less [of w, where ?'a = nat] by simp

lemma pointer_bits: "w AND 0xC0 = 0xC0 \<longleftrightarrow> 0xC0 \<le> unat w" for w :: uint8
proof -
  have m: "(0xC0 :: uint8) = NOT (mask 6)" by (simp add: mask_eq_exp_minus_1)
  have "w AND 0xC0 = push_bit 6 (drop_bit 6 w)"
    unfolding m by (rule bit_word_eqI) (auto simp: bit_simps)
  moreover have "unat (push_bit 6 (drop_bit 6 w)) = unat w div 64 * 64"
    using unat_u8_bound [of w] by (simp only: unsigned_push_bit_eq unsigned_drop_bit_eq)
      (simp add: push_bit_eq_mult drop_bit_eq_div take_bit_eq_mod)
  ultimately have "unat (w AND 0xC0) = unat w div 64 * 64" by simp
  then have "w AND 0xC0 = 0xC0 \<longleftrightarrow> unat w div 64 * 64 = 192" by (simp add: word_unat_eq_iff)
  then show ?thesis using unat_u8_bound [of w] by auto
qed

lemma pointer_mask: "(w AND 0x3FFF :: uint16) = word_of_nat (unat w mod 0x4000)"
proof -
  have "unat (take_bit 14 w) = unat w mod 0x4000" by (simp only: unsigned_take_bit_eq) (simp add: take_bit_eq_mod)
  moreover have "(w AND 0x3FFF :: uint16) = take_bit 14 w" by (simp only: take_bit_eq_mask mask_eq_exp_minus_1) simp
  ultimately show ?thesis by (simp add: word_unat_eq_iff unat_of_nat take_bit_eq_mod)
qed

lemma pointer_or: "w < 0x4000 \<Longrightarrow> w OR 0xC000 = (w + 0xC000 :: uint16)"
proof -
  assume "w < 0x4000"
  then have "unat (take_bit 14 w) = unat w" by (simp only: unsigned_take_bit_eq) (simp add: take_bit_eq_mod word_less_nat_alt)
  then have "w AND 0xC000 = take_bit 14 w AND 0xC000" by (metis word_unat_eq_iff)
  also have "\<dots> = 0"  by (simp only: take_bit_eq_mask mask_eq_exp_minus_1 and.assoc) simp
  finally show ?thesis by (rule disjunctive_add_eq_or [symmetric])
qed

section \<open>Faults\<close>

text \<open>
  What ends a run of the program outside its own control flow: the undefined behaviours of C++
  the modelled code can reach and the assertion failures of the JSON library. \<open>Uninitialised\<close> is
  a decision on a variable that was never written.
\<close>

datatype fault =
    NullDeref
  | OutOfBounds
  | UseAfterFree
  | WildPointer
  | SignedOverflow
  | DivByZero
  | BadVarArg
  | BadJson
  | Uninitialised

definition deref :: "'a option \<Rightarrow> fault + 'a" where
  "deref p = (case p of None \<Rightarrow> Inl NullDeref | Some x \<Rightarrow> Inr x)"

lemma deref_simps [simp]: "deref None = Inl NullDeref" "deref (Some x) = Inr x"
  by (simp_all add: deref_def)

definition bindE :: "'e + 'a \<Rightarrow> ('a \<Rightarrow> 'e + 'b) \<Rightarrow> 'e + 'b" where
  "bindE m f = (case m of Inl e \<Rightarrow> Inl e | Inr x \<Rightarrow> f x)"

lemma bindE_simps [simp]:
  "bindE (Inl e) f = Inl e"
  "bindE (Inr x) f = f x"
  by (simp_all add: bindE_def)

lemma bindE_eq_Inr: "bindE m f = Inr y \<longleftrightarrow> (\<exists>x. m = Inr x \<and> f x = Inr y)"
  by (cases m) auto

lemma bindE_eq_InrE [elim!]:
  assumes "bindE m f = Inr y"
  obtains x where "m = Inr x" and "f x = Inr y"
  using assms by (auto simp: bindE_eq_Inr)

lemma bindE_cong [fundef_cong]:
  "m = m' \<Longrightarrow> (\<And>x. m' = Inr x \<Longrightarrow> f x = f' x) \<Longrightarrow> bindE m f = bindE m' f'"
  by (cases m') auto

lemma bindE_assoc: "bindE (bindE m f) g = bindE m (\<lambda>x. bindE (f x) g)"
  by (cases m) auto

lemma bindE_Inr [simp]: "bindE m Inr = m"
  by (cases m) auto

text \<open>The same for code that may also not return: \<open>None\<close> is a run that never ends.\<close>

definition bindO :: "('e + 'a) option \<Rightarrow> ('a \<Rightarrow> ('e + 'b) option) \<Rightarrow> ('e + 'b) option" where
  "bindO m f =
     (case m of
        None \<Rightarrow> None
      | Some r \<Rightarrow> (case r of Inl e \<Rightarrow> Some (Inl e) | Inr x \<Rightarrow> f x))"

lemma bindO_simps [simp]:
  "bindO None f = None"
  "bindO (Some (Inl e)) f = Some (Inl e)"
  "bindO (Some (Inr x)) f = f x"
  by (simp_all add: bindO_def)

text \<open>A loop over a list whose body can fault.\<close>

fun foldE :: "('s \<Rightarrow> 'a \<Rightarrow> 'e + 's) \<Rightarrow> 's \<Rightarrow> 'a list \<Rightarrow> 'e + 's" where
  "foldE f s [] = Inr s"
| "foldE f s (x # xs) = bindE (f s x) (\<lambda>s'. foldE f s' xs)"

lemma foldE_append: "foldE f s (xs @ ys) = bindE (foldE f s xs) (\<lambda>s'. foldE f s' ys)"
  by (induction xs arbitrary: s) (auto simp: bindE_assoc)

text \<open>
  A \<open>while (true)\<close> loop: its body goes round again with a new state, leaves the loop with a
  result, or faults. A run that never leaves the loop is \<open>None\<close>.
\<close>

datatype ('s, 'r) loop_next = Again 's | Leave 'r

partial_function (option) iterate ::
  "('s \<Rightarrow> 'e + ('s, 'r) loop_next) \<Rightarrow> 's \<Rightarrow> ('e + 'r) option"
where
  "iterate body s =
     (case body s of
        Inl e \<Rightarrow> Some (Inl e)
      | Inr nxt \<Rightarrow> (case nxt of Again s' \<Rightarrow> iterate body s' | Leave r \<Rightarrow> Some (Inr r)))"

lemma iterate_unfold:
  "body s = Inl e \<Longrightarrow> iterate body s = Some (Inl e)"
  "body s = Inr (Leave r) \<Longrightarrow> iterate body s = Some (Inr r)"
  "body s = Inr (Again s') \<Longrightarrow> iterate body s = iterate body s'"
  by (simp_all add: iterate.simps)

text \<open>A set of states that the body never leaves is a set of states the loop never returns from.\<close>

lemma iterate_diverges:
  assumes "P s" and "\<And>t. P t \<Longrightarrow> \<exists>t'. body t = Inr (Again t') \<and> P t'"
  shows "iterate body s = None"
proof (rule ccontr)
  assume "iterate body s \<noteq> None"
  then obtain r where r: "iterate body s = Some r" by auto
  have "\<And>body' t r. iterate body' t = Some r \<Longrightarrow> body' = body \<longrightarrow> \<not> P t"
  proof (erule iterate.raw_induct [rotated], intro impI, goal_cases)
    case (1 body' t r it body'' t' y)
    then show ?case
      using assms(2) [of t'] by (fastforce split: sum.splits loop_next.splits)
  qed
  with r assms(1) show False by blast
qed

section \<open>Blocks of memory\<close>

text \<open>
  A block is the list of its bytes. Access outside it is a fault, never a junk value:
  \<open>mem_get\<close> and \<open>mem_set\<close> are \<open>p[i]\<close>, \<open>mem_slice\<close> and \<open>mem_blit\<close> the source and the
  destination of a \<open>memcpy\<close> or \<open>memmove\<close>.
\<close>

definition mem_get :: "string \<Rightarrow> int \<Rightarrow> fault + char" where
  "mem_get m i = (if 0 \<le> i \<and> i < int (length m) then Inr (m ! nat i) else Inl OutOfBounds)"

definition mem_set :: "string \<Rightarrow> int \<Rightarrow> char \<Rightarrow> fault + string" where
  "mem_set m i c = (if 0 \<le> i \<and> i < int (length m) then Inr (m[nat i := c]) else Inl OutOfBounds)"

definition mem_slice :: "string \<Rightarrow> int \<Rightarrow> int \<Rightarrow> fault + string" where
  "mem_slice m i n = (if 0 \<le> i \<and> 0 \<le> n \<and> i + n \<le> int (length m)
     then Inr (take (nat n) (drop (nat i) m)) else Inl OutOfBounds)"

definition mem_blit :: "string \<Rightarrow> int \<Rightarrow> string \<Rightarrow> fault + string" where
  "mem_blit m i xs = (if 0 \<le> i \<and> i + int (length xs) \<le> int (length m)
     then Inr (take (nat i) m @ xs @ drop (nat i + length xs) m) else Inl OutOfBounds)"

lemma mem_get_nat [simp]: "k < length m \<Longrightarrow> mem_get m (int k) = Inr (m ! k)"
  by (simp add: mem_get_def)

lemma mem_set_nat [simp]: "k < length m \<Longrightarrow> mem_set m (int k) c = Inr (m[k := c])"
  by (simp add: mem_set_def)

lemma mem_slice_nat [simp]:
  "k + n \<le> length m \<Longrightarrow> mem_slice m (int k) (int n) = Inr (take n (drop k m))"
  by (simp add: mem_slice_def flip: of_nat_add)

lemma mem_blit_nat [simp]:
  "k + length xs \<le> length m \<Longrightarrow>
   mem_blit m (int k) xs = Inr (take k m @ xs @ drop (k + length xs) m)"
  by (simp add: mem_blit_def flip: of_nat_add)

lemma mem_set_length: "mem_set m i c = Inr m' \<Longrightarrow> length m' = length m"
  by (auto simp: mem_set_def split: if_splits)

lemma mem_blit_length: "mem_blit m i xs = Inr m' \<Longrightarrow> length m' = length m"
  by (auto simp: mem_blit_def split: if_splits)

text \<open>The C string at the start of a block, \<open>strlen\<close> and a \<open>std::string\<close>'s \<open>c_str()\<close>.\<close>

definition cstr :: "string \<Rightarrow> string" where
  "cstr s = takeWhile (\<lambda>c. c \<noteq> NUL) s"

definition c_str :: "string \<Rightarrow> string" where
  "c_str s = s @ [NUL]"

definition strlen :: "string \<Rightarrow> fault + int" where
  "strlen m = (if NUL \<in> set m then Inr (int (length (cstr m))) else Inl OutOfBounds)"

lemma cstr_id: "NUL \<notin> set s \<Longrightarrow> cstr s = s"
  unfolding cstr_def by (induction s) auto

lemma cstr_append_NUL [simp]: "cstr (s @ NUL # t) = cstr s"
  unfolding cstr_def by (induction s) auto

lemma NUL_notin_cstr [simp]: "NUL \<notin> set (cstr s)"
  by (auto simp: cstr_def dest: set_takeWhileD)

lemma strlen_c_str [simp]: "strlen (c_str s) = Inr (int (length (cstr s)))"
  by (simp add: strlen_def c_str_def)

lemma length_cstr_le: "length (cstr s) \<le> length s"
  by (simp add: cstr_def length_takeWhile_le)

lemma take_length_cstr: "take (length (cstr s)) s = cstr s"
  by (simp add: cstr_def takeWhile_eq_take [symmetric])

section \<open>Strings\<close>

text \<open>\<open>isspace\<close>, \<open>toupper\<close> and \<open>tolower\<close> of the C locale.\<close>

definition isspace :: "char \<Rightarrow> bool" where
  "isspace c \<longleftrightarrow> c = CHR '' '' \<or> (9 \<le> (of_char c :: nat) \<and> (of_char c :: nat) \<le> 13)"

definition isdigit :: "char \<Rightarrow> bool" where
  "isdigit c \<longleftrightarrow> 48 \<le> (of_char c :: nat) \<and> (of_char c :: nat) \<le> 57"

definition toupper :: "char \<Rightarrow> char" where
  "toupper c = (if 97 \<le> (of_char c :: nat) \<and> (of_char c :: nat) \<le> 122
     then char_of ((of_char c :: nat) - 32) else c)"

definition tolower :: "char \<Rightarrow> char" where
  "tolower c = (if 65 \<le> (of_char c :: nat) \<and> (of_char c :: nat) \<le> 90
     then char_of ((of_char c :: nat) + 32) else c)"

text \<open>\<open>boost::iequals\<close>, \<open>boost::starts_with\<close> and \<open>boost::istarts_with\<close>.\<close>

definition iequals :: "string \<Rightarrow> string \<Rightarrow> bool" where
  "iequals a b \<longleftrightarrow> map toupper a = map toupper b"

definition starts_with :: "string \<Rightarrow> string \<Rightarrow> bool" where
  "starts_with s p \<longleftrightarrow> prefix p s"

definition istarts_with :: "string \<Rightarrow> string \<Rightarrow> bool" where
  "istarts_with s p \<longleftrightarrow> prefix (map toupper p) (map toupper s)"

lemma iequals_refl [simp]: "iequals a a"
  by (simp add: iequals_def)

lemma iequals_sym: "iequals a b \<longleftrightarrow> iequals b a"
  by (auto simp: iequals_def)

lemma iequals_trans [trans]: "iequals a b \<Longrightarrow> iequals b c \<Longrightarrow> iequals a c"
  by (simp add: iequals_def)

lemma iequals_Nil [simp]: "iequals a [] \<longleftrightarrow> a = []" "iequals [] a \<longleftrightarrow> a = []"
  by (auto simp: iequals_def)

text \<open>\<open>boost::split\<close> at one character, without token compression, and \<open>boost::join\<close>.\<close>

fun split_on :: "char \<Rightarrow> string \<Rightarrow> string list" where
  "split_on d [] = [[]]"
| "split_on d (c # cs) =
     (if c = d then [] # split_on d cs
      else (case split_on d cs of [] \<Rightarrow> [[c]] | w # ws \<Rightarrow> (c # w) # ws))"

fun join_on :: "string \<Rightarrow> string list \<Rightarrow> string" where
  "join_on sep [] = []"
| "join_on sep [w] = w"
| "join_on sep (w # v # ws) = w @ sep @ join_on sep (v # ws)"

lemma split_on_not_Nil [simp]: "split_on d s \<noteq> []"
  by (induction s) (auto split: list.splits)

lemma join_on_Cons: "ws \<noteq> [] \<Longrightarrow> join_on sep (w # ws) = w @ sep @ join_on sep ws"
  by (cases ws) auto

lemma join_split [simp]: "join_on [d] (split_on d s) = s"
proof (induction s)
  case (Cons c cs)
  obtain w ws where ws: "split_on d cs = w # ws"
    by (cases "split_on d cs") auto
  with Cons show ?case by (cases ws) auto
qed simp

lemma split_on_free: "d \<notin> set w \<Longrightarrow> split_on d w = [w]"
  by (induction w) auto

lemma split_on_append: "d \<notin> set w \<Longrightarrow> split_on d (w @ d # s) = w # split_on d s"
  by (induction w) auto

lemma split_join:
  "ws \<noteq> [] \<Longrightarrow> \<forall>w \<in> set ws. d \<notin> set w \<Longrightarrow> split_on d (join_on [d] ws) = ws"
proof (induction ws rule: induct_list012)
  case (3 w v ws)
  then show ?case by (simp add: split_on_append)
qed (auto simp: split_on_free)

lemma split_on_parts: "w \<in> set (split_on d s) \<Longrightarrow> d \<notin> set w \<and> set w \<subseteq> set s"
proof (induction s arbitrary: w)
  case (Cons c cs)
  obtain v vs where v: "split_on d cs = v # vs"
    by (cases "split_on d cs") auto
  with Cons show ?case by (fastforce split: if_splits)
qed simp

lemma length_join_on:
  "ws \<noteq> [] \<Longrightarrow> length (join_on [d] ws) + 1 = sum_list (map (\<lambda>w. length w + 1) ws)"
  by (induction "[d]" ws rule: join_on.induct) auto

text \<open>Decimal numerals, as \<open>operator<<\<close> and \<open>%d\<close> print them.\<close>

definition digit_char :: "nat \<Rightarrow> char" where
  "digit_char d = (if d < 10 then char_of (48 + d) else char_of (55 + d))"

fun digits_of :: "nat \<Rightarrow> nat \<Rightarrow> string" where
  "digits_of base n =
     (if base < 2 \<or> n < base then [digit_char n]
      else digits_of base (n div base) @ [digit_char (n mod base)])"

declare digits_of.simps [simp del]

definition show_nat :: "nat \<Rightarrow> string" where
  "show_nat n = digits_of 10 n"

definition show_int :: "int \<Rightarrow> string" where
  "show_int i = (if i < 0 then ''-'' else []) @ show_nat (nat \<bar>i\<bar>)"

lemma digits_of_not_Nil [simp]: "digits_of b n \<noteq> []"
  by (subst digits_of.simps) simp

lemma digits_of_isdigit: "c \<in> set (digits_of 10 n) \<Longrightarrow> isdigit c"
proof (induction n rule: less_induct)
  case (less n)
  show ?case
  proof (cases "n < 10")
    case True
    with less.prems show ?thesis
      by (auto simp: digits_of.simps [of 10 n] isdigit_def digit_char_def)
  next
    case False
    then have "n div 10 < n" and "isdigit (digit_char (n mod 10))"
      by (auto simp: isdigit_def digit_char_def)
    with False less.prems less.IH [of "n div 10"] show ?thesis
      by (auto simp: digits_of.simps [of 10 n])
  qed
qed

lemma isdigit_show_nat: "c \<in> set (show_nat n) \<Longrightarrow> isdigit c"
  by (simp add: show_nat_def digits_of_isdigit)

lemma show_nat_not_Nil [simp]: "show_nat n \<noteq> []"
  by (simp add: show_nat_def)

text \<open>The value of a string of digits, read from the left.\<close>

fun digits_value :: "nat \<Rightarrow> string \<Rightarrow> nat" where
  "digits_value acc [] = acc"
| "digits_value acc (c # cs) = digits_value (acc * 10 + (of_char c - 48)) cs"

lemma digits_value_append: "digits_value acc (xs @ ys) = digits_value (digits_value acc xs) ys"
  by (induction xs arbitrary: acc) auto

lemma of_char_digit [simp]: "d < 10 \<Longrightarrow> of_char (digit_char d) = 48 + d"
  by (simp add: digit_char_def)

lemma digits_value_digits: "digits_value 0 (digits_of 10 n) = n"
proof (induction n rule: less_induct)
  case (less n)
  show ?case
  proof (cases "n < 10")
    case True
    then show ?thesis by (simp add: digits_of.simps [of 10 n])
  next
    case False
    with less [of "n div 10"] show ?thesis
      by (simp add: digits_of.simps [of 10 n] digits_value_append)
  qed
qed

lemma digits_value_show_nat [simp]: "digits_value 0 (show_nat n) = n"
  by (simp add: show_nat_def digits_value_digits)

section \<open>State machines\<close>

text \<open>
  The contract of a component that is driven by events and can fault: a step keeps the
  component's invariant whenever it returns. What a whole run then keeps is proved once here.
\<close>

locale fallible_machine =
  fixes step :: "'s \<Rightarrow> 'e \<Rightarrow> fault + 's"
    and inv :: "'s \<Rightarrow> bool"
  assumes step_inv: "inv s \<Longrightarrow> step s e = Inr s' \<Longrightarrow> inv s'"
begin

lemma run_inv: "inv s \<Longrightarrow> foldE step s es = Inr s' \<Longrightarrow> inv s'"
proof (induction es arbitrary: s)
  case (Cons e es)
  then obtain t where "step s e = Inr t" and "foldE step t es = Inr s'" by auto
  with Cons show ?case by (blast intro: step_inv)
qed simp

lemma run_prefix:
  assumes "inv s" and "foldE step s (es @ fs) = Inr s'"
  obtains t where "foldE step s es = Inr t" and "inv t" and "foldE step t fs = Inr s'"
  using assms by (auto simp: foldE_append intro: run_inv)

end

text \<open>A component none of whose steps can fault while its invariant holds.\<close>

locale safe_machine = fallible_machine +
  assumes step_safe: "inv s \<Longrightarrow> \<exists>s'. step s e = Inr s'"
begin

lemma run_safe: "inv s \<Longrightarrow> \<exists>s'. foldE step s es = Inr s' \<and> inv s'"
proof (induction es arbitrary: s)
  case (Cons e es)
  obtain t where t: "step s e = Inr t" using step_safe [OF Cons.prems] by blast
  with Cons.prems have "inv t" by (blast intro: step_inv)
  then show ?case using Cons.IH [of t] t by simp
qed simp

end

end
