(* ===== verification/Buffer.thy ===== *)
theory Buffer
  imports Prelude
begin

text \<open>
  \<open>vos::Buffer\<close> (flint/src/discovery/mdns/Buffer.hpp and Buffer.cpp): the growable byte buffer
  every mDNS packet is read from and composed in. \<open>bindex\<close>, \<open>blength\<close> and \<open>bdata\<close> are the
  fields \<open>_index\<close>, \<open>_length\<close> and \<open>_data_ptr\<close>; \<open>bdata\<close> is the allocated block, \<open>None\<close> for
  \<open>NULL\<close>. A method returns its C result together with the new buffer, or the fault it runs into.

  A pointer parameter \<open>const char *\<close> is a \<open>string option\<close>: the memory from the pointer to the end
  of its block. A buffer is never passed to its own methods, as in all of the code.

  The allocator is a parameter: which request sizes \<open>realloc\<close> grants, and what the fresh bytes of
  a grown block hold.
\<close>

record allocator =
  al_grants :: "nat \<Rightarrow> bool"
  al_fill :: "nat \<Rightarrow> char"

definition ample :: "allocator \<Rightarrow> bool" where
  "ample A \<longleftrightarrow> (\<forall>n. al_grants A n)"

definition realloc :: "allocator \<Rightarrow> string option \<Rightarrow> int \<Rightarrow> string option" where
  "realloc A p n =
     (let old = (case p of None \<Rightarrow> [] | Some m \<Rightarrow> m)
      in if 0 < n \<and> al_grants A (nat n)
         then Some (take (nat n) old @ map (al_fill A) [length old..<nat n]) else None)"

section \<open>State\<close>

record buffer =
  bindex :: int
  blength :: int
  bdata :: "string option"

definition DFLT_SIZE :: int where
  "DFLT_SIZE = 15"

definition CHAR_SIZE :: int where
  "CHAR_SIZE = 1"

section \<open>Operations\<close>

definition resize :: "allocator \<Rightarrow> buffer \<Rightarrow> int \<Rightarrow> fault + int \<times> buffer" where
  "resize A b sz =
     (if blength b < sz then
        (case realloc A (bdata b) (sz + CHAR_SIZE) of
           None \<Rightarrow> Inr (-1, b)
         | Some newv \<Rightarrow>
             bindE (mem_set newv (bindex b) NUL) (\<lambda>m.
             Inr (0, b\<lparr>bdata := Some m, blength := sz\<rparr>)))
      else Inr (0, b))"

definition new_Buffer :: "allocator \<Rightarrow> int \<Rightarrow> fault + buffer" where
  "new_Buffer A bfr_size =
     bindE (resize A \<lparr>bindex = 0, blength = 0, bdata = None\<rparr> bfr_size) (\<lambda>(_, b). Inr b)"

definition reset :: "buffer \<Rightarrow> int \<Rightarrow> fault + buffer" where
  "reset b c =
     (if bindex b \<noteq> 0 then
        bindE (deref (bdata b)) (\<lambda>m.
        bindE (mem_blit m 0 (replicate (nat (blength b)) (char_of_int c))) (\<lambda>m'.
        Inr (b\<lparr>bindex := 0, bdata := Some m'\<rparr>)))
      else Inr b)"

text \<open>
  \<open>trim\<close> and the static \<open>TRIM\<close> run the same two loops over an array: the first walks the end
  back over white space, the second the start forward.
\<close>

function trim_end :: "string \<Rightarrow> int \<Rightarrow> fault + int" where
  "trim_end m i =
     (if i - 1 \<ge> 0 then
        bindE (mem_get m (i - 1)) (\<lambda>c. if isspace c then trim_end m (i - 1) else Inr (i - 1))
      else Inr (i - 1))"
  by pat_completeness auto
termination
  by (relation "measure (\<lambda>(m, i). nat i)") auto

function trim_start :: "string \<Rightarrow> int \<Rightarrow> int \<Rightarrow> fault + int" where
  "trim_start m x i =
     (if x < i then
        bindE (mem_get m x) (\<lambda>c. if isspace c then trim_start m (x + 1) i else Inr x)
      else Inr x)"
  by pat_completeness auto
termination
  by (relation "measure (\<lambda>(m, x, i). nat (i - x))") auto

declare trim_end.simps [simp del] trim_start.simps [simp del]

definition trim_array :: "string \<Rightarrow> int \<Rightarrow> fault + int \<times> string" where
  "trim_array m len =
     bindE (trim_end m len) (\<lambda>i.
     bindE (trim_start m 0 i) (\<lambda>x.
     bindE (if 0 < x \<and> x \<le> i
            then bindE (mem_slice m x (i - x + CHAR_SIZE)) (\<lambda>xs.
                 bindE (mem_blit m 0 xs) (\<lambda>m'. Inr (i - x + CHAR_SIZE, m')))
            else Inr (i + 1, m)) (\<lambda>(i', m').
     bindE (mem_set m' i' NUL) (\<lambda>m''. Inr (i', m'')))))"

definition trim :: "buffer \<Rightarrow> fault + buffer" where
  "trim b =
     bindE (deref (bdata b)) (\<lambda>m.
     bindE (trim_array m (bindex b)) (\<lambda>(i, m'). Inr (b\<lparr>bindex := i, bdata := Some m'\<rparr>)))"

definition TRIM :: "string option \<Rightarrow> int \<Rightarrow> fault + int \<times> string option" where
  "TRIM bfr len =
     (case bfr of None \<Rightarrow> Inr (0, None)
      | Some m \<Rightarrow>
          bindE (if len = 0 then strlen m else Inr len) (\<lambda>len'.
          if len = 0 \<and> len' = 0 then Inr (0, bfr)
          else bindE (trim_array m len') (\<lambda>(n, m'). Inr (n, Some m'))))"

text \<open>The parameter \<open>len\<close> of the raw methods: zero or less asks for \<open>strlen\<close>.\<close>

definition raw_length :: "string \<Rightarrow> int \<Rightarrow> fault + int" where
  "raw_length bfr len = (if len \<le> 0 then strlen bfr else Inr len)"

definition copy_raw :: "allocator \<Rightarrow> buffer \<Rightarrow> string option \<Rightarrow> int \<Rightarrow> fault + int \<times> buffer" where
  "copy_raw A b bfr len =
     (case bfr of
        None \<Rightarrow> if 0 < len then resize A b len else Inr (0, b)
      | Some src \<Rightarrow>
          bindE (raw_length src len) (\<lambda>n.
          if n = 0 then Inr (0, b)
          else bindE (resize A b n) (\<lambda>(s, b1).
            if s < 0 then Inr (-1, b1)
            else
              bindE (deref (bdata b1)) (\<lambda>m.
              bindE (mem_slice src 0 n) (\<lambda>xs.
              bindE (mem_blit m 0 xs) (\<lambda>m1.
              bindE (mem_set m1 n NUL) (\<lambda>m2.
              Inr (0, b1\<lparr>bdata := Some m2, bindex := n\<rparr>))))))))"

definition copy :: "allocator \<Rightarrow> buffer \<Rightarrow> buffer option \<Rightarrow> fault + int \<times> buffer" where
  "copy A b bfr =
     (case bfr of None \<Rightarrow> Inr (0, b) | Some o' \<Rightarrow> copy_raw A b (bdata o') (bindex o'))"

definition set_buffer ::
  "allocator \<Rightarrow> buffer \<Rightarrow> buffer option \<Rightarrow> buffer option \<Rightarrow> fault + int \<times> buffer" where
  "set_buffer A b bfr dflt =
     (case bfr of
        Some o' \<Rightarrow> copy_raw A b (bdata o') (bindex o')
      | None \<Rightarrow>
          (case dflt of
             Some d \<Rightarrow> copy_raw A b (bdata d) (bindex d)
           | None \<Rightarrow> Inr (0, b)))"

definition set_raw ::
  "allocator \<Rightarrow> buffer \<Rightarrow> string option \<Rightarrow> string option \<Rightarrow> fault + int \<times> buffer" where
  "set_raw A b bfr dflt = (if bfr \<noteq> None then copy_raw A b bfr 0 else copy_raw A b dflt 0)"

text \<open>\<open>move_to\<close> returns the two buffers, the emptied one first.\<close>

definition move_to :: "buffer \<Rightarrow> int \<times> buffer \<times> buffer" where
  "move_to b =
     (0, \<lparr>bindex = 0, blength = 0, bdata = None\<rparr>,
      \<lparr>bindex = bindex b, blength = blength b, bdata = bdata b\<rparr>)"

definition mem_fill :: "string \<Rightarrow> int \<Rightarrow> char \<Rightarrow> fault + string" where
  "mem_fill m n c = (if n < 0 then Inl OutOfBounds else mem_blit m 0 (replicate (nat n) c))"

definition shiftr :: "allocator \<Rightarrow> buffer \<Rightarrow> int \<Rightarrow> int \<Rightarrow> fault + int \<times> buffer" where
  "shiftr A b nbyte c =
     (let grow = bindex b + nbyte > blength b;
          b1 = (if grow then b\<lparr>blength := blength b + nbyte\<rparr> else b);
          newv = (if grow then realloc A (bdata b) (blength b1 + CHAR_SIZE) else bdata b)
      in if grow \<and> newv = None then Inr (-1, b1)
         else
           bindE (deref newv) (\<lambda>m.
           bindE (mem_slice m 0 (bindex b)) (\<lambda>xs.
           bindE (mem_blit m nbyte xs) (\<lambda>m1.
           bindE (mem_fill m1 nbyte (char_of_int c)) (\<lambda>m2.
           bindE (mem_set m2 (bindex b + nbyte) NUL) (\<lambda>m3.
           Inr (0, b1\<lparr>bdata := Some m3, bindex := bindex b + nbyte\<rparr>)))))))"

text \<open>
  The common body of \<open>appendc\<close> and \<open>appenduc\<close>. The length is raised before the request is made,
  and stays raised when the request fails.
\<close>

definition append_byte :: "allocator \<Rightarrow> buffer \<Rightarrow> char \<Rightarrow> fault + int \<times> buffer" where
  "append_byte A b c =
     (let grow = bindex b + CHAR_SIZE > blength b;
          b1 = (if grow then b\<lparr>blength := blength b + DFLT_SIZE\<rparr> else b);
          newv = (if grow then realloc A (bdata b) (blength b1 + CHAR_SIZE) else bdata b)
      in if grow \<and> newv = None then Inr (-1, b1)
         else
           bindE (deref newv) (\<lambda>m.
           bindE (mem_set m (bindex b) c) (\<lambda>m1.
           bindE (mem_set m1 (bindex b + 1) NUL) (\<lambda>m2.
           Inr (0, b1\<lparr>bdata := Some m2, bindex := bindex b + 1\<rparr>)))))"

definition appendc :: "allocator \<Rightarrow> buffer \<Rightarrow> char \<Rightarrow> fault + int \<times> buffer" where
  "appendc A b c = (if int_of_char c < 0 then Inr (0, b) else append_byte A b c)"

definition appenduc :: "allocator \<Rightarrow> buffer \<Rightarrow> uint8 \<Rightarrow> fault + int \<times> buffer" where
  "appenduc A b c = append_byte A b (char_of_u8 c)"

definition append_raw ::
  "allocator \<Rightarrow> buffer \<Rightarrow> string option \<Rightarrow> int \<Rightarrow> fault + int \<times> buffer" where
  "append_raw A b bfr len =
     (case bfr of
        None \<Rightarrow> if 0 < len then resize A b len else Inr (0, b)
      | Some src \<Rightarrow>
          bindE (raw_length src len) (\<lambda>n.
          if n = 0 then Inr (0, b)
          else bindE (resize A b (bindex b + n)) (\<lambda>(s, b1).
            if s < 0 then Inr (-1, b1)
            else
              bindE (deref (bdata b1)) (\<lambda>m.
              bindE (mem_slice src 0 n) (\<lambda>xs.
              bindE (mem_blit m (bindex b1) xs) (\<lambda>m1.
              bindE (mem_set m1 (bindex b1 + n) NUL) (\<lambda>m2.
              Inr (n, b1\<lparr>bdata := Some m2, bindex := bindex b1 + n\<rparr>))))))))"

definition append_buffer :: "allocator \<Rightarrow> buffer \<Rightarrow> buffer option \<Rightarrow> fault + int \<times> buffer" where
  "append_buffer A b bfr =
     (case bfr of None \<Rightarrow> Inr (0, b) | Some o' \<Rightarrow> append_raw A b (bdata o') (bindex o'))"

definition append_bin ::
  "allocator \<Rightarrow> buffer \<Rightarrow> string option \<Rightarrow> int \<Rightarrow> fault + int \<times> buffer" where
  "append_bin A b bin len =
     (if bin = None \<or> len \<le> 0 then Inr (0, b) else append_raw A b bin len)"

definition delete_end :: "buffer \<Rightarrow> fault + int \<times> buffer" where
  "delete_end b =
     bindE (deref (bdata b)) (\<lambda>m.
     bindE (mem_set m (bindex b - 1) NUL) (\<lambda>m'.
     Inr (0, b\<lparr>bindex := bindex b - 1, bdata := Some m'\<rparr>)))"

definition replace :: "buffer \<Rightarrow> int \<Rightarrow> char \<Rightarrow> fault + buffer" where
  "replace b i c =
     bindE (deref (bdata b)) (\<lambda>m.
     bindE (mem_set m i c) (\<lambda>m'. Inr (b\<lparr>bdata := Some m'\<rparr>)))"

text \<open>\<open>concat\<close>: the arguments up to the closing \<open>NULL\<close>, the first one apart.\<close>

fun concat_args :: "allocator \<Rightarrow> buffer \<Rightarrow> string list \<Rightarrow> fault + int \<times> buffer" where
  "concat_args A b [] = Inr (0, b)"
| "concat_args A b (p # ps) =
     bindE (append_raw A b (Some p) 0) (\<lambda>(s, b1).
     if s < 0 then Inr (-1, b1) else concat_args A b1 ps)"

definition concat_raw ::
  "allocator \<Rightarrow> buffer \<Rightarrow> string option \<Rightarrow> string list \<Rightarrow> fault + int \<times> buffer" where
  "concat_raw A b bfr ps =
     (case bfr of
        None \<Rightarrow> Inr (0, b)
      | Some p \<Rightarrow>
          bindE (concat_args A b (p # ps)) (\<lambda>(s, b1).
          if s < 0 then Inr (-1, b1)
          else
            bindE (deref (bdata b1)) (\<lambda>m.
            bindE (mem_set m (bindex b1) NUL) (\<lambda>m'.
            Inr (0, b1\<lparr>bdata := Some m'\<rparr>)))))"

definition prepend_raw ::
  "allocator \<Rightarrow> buffer \<Rightarrow> string option \<Rightarrow> int \<Rightarrow> fault + int \<times> buffer" where
  "prepend_raw A b bfr len =
     (case bfr of
        None \<Rightarrow> if 0 < len then resize A b len else Inr (0, b)
      | Some src \<Rightarrow>
          bindE (raw_length src len) (\<lambda>n.
          if n = 0 then Inr (0, b)
          else bindE (shiftr A b n 0) (\<lambda>(s, b1).
            if s < 0 then Inr (-1, b1)
            else
              bindE (deref (bdata b1)) (\<lambda>m.
              bindE (mem_slice src 0 n) (\<lambda>xs.
              bindE (mem_blit m 0 xs) (\<lambda>m'.
              Inr (n, b1\<lparr>bdata := Some m'\<rparr>)))))))"

definition prepend_buffer :: "allocator \<Rightarrow> buffer \<Rightarrow> buffer option \<Rightarrow> fault + int \<times> buffer" where
  "prepend_buffer A b bfr =
     (case bfr of None \<Rightarrow> Inr (0, b) | Some o' \<Rightarrow> prepend_raw A b (bdata o') (bindex o'))"

fun subc_loop :: "string \<Rightarrow> int \<Rightarrow> int \<Rightarrow> int \<times> string" where
  "subc_loop [] from to = (0, [])"
| "subc_loop (c # cs) from to =
     (let (n, cs') = subc_loop cs from to
      in if int_of_char c = from then (n + 1, char_of_int to # cs') else (n, c # cs'))"

definition subc :: "buffer \<Rightarrow> int \<Rightarrow> int \<Rightarrow> fault + int \<times> buffer" where
  "subc b from to =
     (if bindex b \<le> 0 then Inr (0, b)
      else
        bindE (deref (bdata b)) (\<lambda>m.
        bindE (mem_slice m 0 (bindex b)) (\<lambda>xs.
        let (n, xs') = subc_loop xs from to
        in bindE (mem_blit m 0 xs') (\<lambda>m'. Inr (n, b\<lparr>bdata := Some m'\<rparr>)))))"

section \<open>Invariant and contents\<close>

text \<open>
  \<open>buf_inv\<close>: either nothing is allocated, or the block holds \<open>_length + 1\<close> bytes, the index
  stays within \<open>_length\<close>, and the byte at the index is the terminating zero. \<open>content\<close> is what a
  buffer stands for: the bytes before its index.
\<close>

definition buf_inv :: "buffer \<Rightarrow> bool" where
  "buf_inv b \<longleftrightarrow>
     (case bdata b of
        None \<Rightarrow> bindex b = 0 \<and> blength b = 0
      | Some m \<Rightarrow> int (length m) = blength b + 1 \<and> 0 \<le> bindex b \<and> bindex b \<le> blength b \<and>
          m ! nat (bindex b) = NUL)"

definition content :: "buffer \<Rightarrow> string" where
  "content b = (case bdata b of None \<Rightarrow> [] | Some m \<Rightarrow> take (nat (bindex b)) m)"

definition block :: "buffer \<Rightarrow> string" where
  "block b = (case bdata b of None \<Rightarrow> [] | Some m \<Rightarrow> m)"

lemma buf_inv_block:
  assumes "buf_inv b" and "bdata b = Some m"
  obtains i l where "b = \<lparr>bindex = int i, blength = int l, bdata = Some m\<rparr>"
    and "length m = Suc l" and "i \<le> l" and "m ! i = NUL"
proof -
  from assms have "b = \<lparr>bindex = int (nat (bindex b)), blength = int (nat (blength b)), bdata = Some m\<rparr>"
    and "length m = Suc (nat (blength b))" and "nat (bindex b) \<le> nat (blength b)"
    and "m ! nat (bindex b) = NUL"
    by (auto simp: buf_inv_def)
  then show thesis by (rule that)
qed

lemma buf_inv_None: "buf_inv b \<Longrightarrow> bdata b = None \<Longrightarrow> b = \<lparr>bindex = 0, blength = 0, bdata = None\<rparr>"
  by (cases b) (auto simp: buf_inv_def)

lemma buf_inv_empty [simp]: "buf_inv \<lparr>bindex = 0, blength = 0, bdata = None\<rparr>"
  by (simp add: buf_inv_def)

lemma content_empty [simp]: "content \<lparr>bindex = i, blength = l, bdata = None\<rparr> = []"
  by (simp add: content_def)

lemma bindex_content: "buf_inv b \<Longrightarrow> bindex b = int (length (content b))"
  by (auto simp: buf_inv_def content_def split: option.splits)

lemma bindex_nonneg: "buf_inv b \<Longrightarrow> 0 \<le> bindex b"
  by (simp add: bindex_content)

lemma block_content:
  "buf_inv b \<Longrightarrow> bdata b = Some m \<Longrightarrow> \<exists>r. m = content b @ NUL # r"
proof (elim buf_inv_block)
  fix i l assume b: "b = \<lparr>bindex = int i, blength = int l, bdata = Some m\<rparr>"
    and m: "length m = Suc l" "i \<le> l" "m ! i = NUL"
  then have "m = take i m @ NUL # drop (Suc i) m" by (metis id_take_nth_drop less_Suc_eq_le)
  with b show ?thesis by (auto simp: content_def)
qed

lemma realloc_Some:
  assumes "realloc A p n = Some q"
  shows "0 < n" and "int (length q) = n"
    and "p = Some m \<Longrightarrow> int (length m) \<le> n \<Longrightarrow> take (length m) q = m"
  using assms by (auto simp: realloc_def split: if_splits option.splits)

lemma realloc_ample: "ample A \<Longrightarrow> 0 < n \<Longrightarrow> \<exists>q. realloc A p n = Some q"
  by (simp add: realloc_def ample_def Let_def)

text \<open>
  The contract of the appending operations: \<open>appended b b' xs\<close> says that \<open>b'\<close> is a sound buffer
  holding what \<open>b\<close> held followed by \<open>xs\<close>.
\<close>

definition appended :: "buffer \<Rightarrow> buffer \<Rightarrow> string \<Rightarrow> bool" where
  "appended b b' xs \<longleftrightarrow> buf_inv b' \<and> content b' = content b @ xs"

lemma appendedD [dest]:
  "appended b b' xs \<Longrightarrow> buf_inv b'"
  "appended b b' xs \<Longrightarrow> content b' = content b @ xs"
  by (auto simp: appended_def)

lemma appended_refl [simp]: "appended b b [] \<longleftrightarrow> buf_inv b"
  by (simp add: appended_def)

lemma appended_trans [trans]:
  "appended b b1 xs \<Longrightarrow> appended b1 b2 ys \<Longrightarrow> appended b b2 (xs @ ys)"
  by (auto simp: appended_def)

lemma bindex_appended:
  "buf_inv b \<Longrightarrow> appended b b' xs \<Longrightarrow> bindex b' = bindex b + int (length xs)"
  by (auto simp: appended_def bindex_content)

section \<open>Every operation keeps the invariant, and what it does to the contents\<close>

lemma resize_spec:
  assumes "buf_inv b" and "0 \<le> sz"
  obtains (grown) m' where "resize A b sz = Inr (0, b\<lparr>bdata := Some m', blength := sz\<rparr>)"
      and "buf_inv (b\<lparr>bdata := Some m', blength := sz\<rparr>)"
      and "content (b\<lparr>bdata := Some m', blength := sz\<rparr>) = content b" and "blength b < sz"
    | (enough) "resize A b sz = Inr (0, b)" and "sz \<le> blength b"
    | (failed) "resize A b sz = Inr (-1, b)" and "\<not> ample A" and "blength b < sz"
proof (cases "blength b < sz")
  case False
  then show thesis by (intro enough) (auto simp: resize_def)
next
  case True
  show thesis
  proof (cases "realloc A (bdata b) (sz + CHAR_SIZE)")
    case None
    with True assms realloc_ample [of A "sz + CHAR_SIZE" "bdata b"] show thesis
      by (intro failed) (auto simp: resize_def CHAR_SIZE_def)
  next
    case (Some q)
    note q = realloc_Some [OF this]
    have len: "int (length q) = sz + 1" using q(2) by (simp add: CHAR_SIZE_def)
    have i: "0 \<le> bindex b" "bindex b < sz + 1"
      using assms True by (auto simp: buf_inv_def split: option.splits)
    have pre: "take (nat (bindex b)) q = content b"
    proof (cases "bdata b")
      case None
      with assms show ?thesis by (auto simp: buf_inv_def content_def)
    next
      case (Some m)
      with assms True have l: "int (length m) \<le> sz + CHAR_SIZE" "nat (bindex b) \<le> length m"
        by (auto simp: buf_inv_def CHAR_SIZE_def)
      with q(3) [OF Some l(1)] show ?thesis
        by (auto simp: content_def Some take_take min_def dest: arg_cong [where f = "take (nat (bindex b))"])
    qed
    let ?m = "q[nat (bindex b) := NUL]"
    show thesis
    proof (rule grown [of ?m])
      show "resize A b sz = Inr (0, b\<lparr>bdata := Some ?m, blength := sz\<rparr>)"
        using True Some i len by (simp add: resize_def mem_set_def)
      show "buf_inv (b\<lparr>bdata := Some ?m, blength := sz\<rparr>)"
        using i len by (auto simp: buf_inv_def nat_less_iff)
      show "content (b\<lparr>bdata := Some ?m, blength := sz\<rparr>) = content b"
        using pre by (simp add: content_def)
    qed (fact True)
  qed
qed

lemma resize_inv:
  assumes "buf_inv b" and "0 \<le> sz"
  shows "\<exists>s b'. resize A b sz = Inr (s, b') \<and> appended b b' []
     \<and> (if s < 0 then b' = b \<and> \<not> ample A
        else s = 0 \<and> sz \<le> blength b' \<and> bindex b' = bindex b \<and> (0 < sz \<longrightarrow> bdata b' \<noteq> None))"
proof (rule resize_spec [OF assms, of A], goal_cases)
  case (1 m')
  then show ?thesis by (auto simp: appended_def)
next
  case 2
  with assms show ?thesis by (auto simp: buf_inv_def split: option.splits)
next
  case 3
  with assms show ?thesis by auto
qed

lemma raw_length_nonneg: "raw_length src len = Inr n \<Longrightarrow> 0 \<le> n"
  by (auto simp: raw_length_def strlen_def split: if_splits)

lemma raw_length_pos [simp]: "0 < len \<Longrightarrow> raw_length src len = Inr len"
  by (simp add: raw_length_def)

lemma raw_length_c_str [simp]: "raw_length (c_str s) 0 = Inr (int (length (cstr s)))"
  by (simp add: raw_length_def)

lemma nat_Suc_int [simp]: "nat (1 + int i) = Suc i" "nat (int i + 1) = Suc i"
  by (simp_all add: nat_add_distrib)

text \<open>Writing \<open>xs\<close> and a zero behind the first \<open>k\<close> bytes of a block that has room for them.\<close>

lemma blit_terminated:
  assumes "k + length xs < length m"
  obtains m1 m2 where "mem_blit m (int k) xs = Inr m1"
    and "mem_set m1 (int k + int (length xs)) NUL = Inr m2"
    and "length m2 = length m" and "take (k + length xs) m2 = take k m @ xs"
    and "m2 ! (k + length xs) = NUL"
proof -
  let ?m1 = "take k m @ xs @ drop (k + length xs) m"
  from assms have 1: "mem_blit m (int k) xs = Inr ?m1" and l: "length ?m1 = length m" by auto
  have 2: "mem_set ?m1 (int k + int (length xs)) NUL = Inr (?m1[k + length xs := NUL])"
    using assms by (simp add: mem_set_def nat_add_distrib)
  show thesis
    using that [OF 1 2] assms l by simp
qed

lemma append_raw_spec:
  assumes inv: "buf_inv b" and n: "raw_length src len = Inr n" "n \<le> int (length src)"
  shows "\<exists>s b'. append_raw A b (Some src) len = Inr (s, b')
     \<and> (if s < 0 then b' = b \<and> \<not> ample A else s = n \<and> appended b b' (take (nat n) src))"
proof (cases "n = 0")
  case True
  with inv n show ?thesis by (simp add: append_raw_def)
next
  case False
  with n raw_length_nonneg obtain k where k: "n = int k" "0 < k" "k \<le> length src"
    by (metis nat_0_le nat_eq_iff2 nat_le_iff of_nat_0_less_iff order_le_less zero_less_nat_eq)
  have sz: "0 \<le> bindex b + n" "0 < bindex b + n"
    using bindex_nonneg [OF inv] k by auto
  obtain s b1 where r: "resize A b (bindex b + n) = Inr (s, b1)" and a: "appended b b1 []"
    and st: "if s < 0 then b1 = b \<and> \<not> ample A
       else s = 0 \<and> bindex b + n \<le> blength b1 \<and> bindex b1 = bindex b
         \<and> (0 < bindex b + n \<longrightarrow> bdata b1 \<noteq> None)"
    using resize_inv [OF inv sz(1), of A] by blast
  show ?thesis
  proof (cases "s < 0")
    case True
    with r st n False show ?thesis by (simp add: append_raw_def)
  next
    case ok: False
    with st sz obtain m where m: "bdata b1 = Some m" by auto
    from a have "buf_inv b1" by auto
    then obtain i l where b1: "b1 = \<lparr>bindex = int i, blength = int l, bdata = Some m\<rparr>"
      and l: "length m = Suc l" and "i \<le> l"
      using m by (rule buf_inv_block)
    have room: "i + length (take k src) < length m"
      using st ok b1 l k by auto
    from blit_terminated [OF this] obtain m1 m2 where
      w: "mem_blit m (int i) (take k src) = Inr m1"
      "mem_set m1 (int i + int (length (take k src))) NUL = Inr m2"
      and m2: "length m2 = length m" "take (i + length (take k src)) m2 = take i m @ take k src"
      "m2 ! (i + length (take k src)) = NUL"
      by blast
    let ?b' = "b1\<lparr>bdata := Some m2, bindex := bindex b1 + n\<rparr>"
    have sl: "mem_slice src 0 (int k) = Inr (take k src)"
      using mem_slice_nat [of 0 k src] k by simp
    have "append_raw A b (Some src) len = Inr (n, ?b')"
      using n(1) False r ok m w sl k b1 by (simp add: append_raw_def)
    moreover have "appended b1 ?b' (take k src)"
      using b1 m2 room l k by (auto simp: appended_def buf_inv_def content_def nat_add_distrib)
    ultimately show ?thesis
      using k a by (auto simp: appended_def)
  qed
qed

lemma append_byte_spec:
  assumes inv: "buf_inv b"
  shows "\<exists>s b'. append_byte A b c = Inr (s, b')
     \<and> (if s < 0 then \<not> ample A \<and> b' = b\<lparr>blength := blength b + DFLT_SIZE\<rparr>
        else s = 0 \<and> appended b b' [c])"
proof -
  define grow where "grow \<longleftrightarrow> bindex b + CHAR_SIZE > blength b"
  define b1 where "b1 = (if grow then b\<lparr>blength := blength b + DFLT_SIZE\<rparr> else b)"
  define newv where "newv = (if grow then realloc A (bdata b) (blength b1 + CHAR_SIZE) else bdata b)"
  have def: "append_byte A b c = (if grow \<and> newv = None then Inr (-1, b1)
         else bindE (deref newv) (\<lambda>m. bindE (mem_set m (bindex b) c) (\<lambda>m1.
           bindE (mem_set m1 (bindex b + 1) NUL) (\<lambda>m2.
           Inr (0, b1\<lparr>bdata := Some m2, bindex := bindex b + 1\<rparr>)))))"
    by (simp add: append_byte_def grow_def b1_def newv_def Let_def)
  have pos: "0 < blength b1 + CHAR_SIZE"
    using inv by (auto simp: b1_def buf_inv_def DFLT_SIZE_def CHAR_SIZE_def split: option.splits)
  show ?thesis
  proof (cases newv)
    case None
    have grow
    proof (rule ccontr)
      assume "\<not> grow"
      with None inv show False
        by (auto simp: newv_def grow_def buf_inv_def CHAR_SIZE_def)
    qed
    with None realloc_ample [OF _ pos, of A "bdata b"] show ?thesis
      by (auto simp: def newv_def b1_def)
  next
    case (Some m)
    obtain i where i: "bindex b = int i" using bindex_nonneg [OF inv] nonneg_int_cases by blast
    have len: "int (length m) = blength b1 + 1" and room: "i + 1 < length m"
      and pre: "take i m = content b"
    proof -
      have "int (length m) = blength b1 + 1 \<and> i + 1 < length m \<and> take i m = content b"
      proof (cases grow)
        case True
        with Some have "realloc A (bdata b) (blength b1 + CHAR_SIZE) = Some m"
          by (simp add: newv_def)
        note q = realloc_Some [OF this]
        show ?thesis
        proof (cases "bdata b")
          case None
          with inv q(2) True i show ?thesis
            by (auto simp: buf_inv_def content_def b1_def DFLT_SIZE_def CHAR_SIZE_def)
        next
          case d: (Some old)
          with inv q(2) True i have l: "int (length m) = blength b1 + 1" "i + 1 < length m"
            "int (length old) \<le> blength b1 + CHAR_SIZE" "i \<le> length old"
            by (auto simp: buf_inv_def b1_def DFLT_SIZE_def CHAR_SIZE_def)
          from q(3) [OF d l(3)] have "take i (take (length old) m) = take i old" by simp
          with l i d show ?thesis by (simp add: content_def min_def)
        qed
      next
        case False
        with Some inv i show ?thesis
          by (auto simp: newv_def b1_def buf_inv_def content_def grow_def CHAR_SIZE_def)
      qed
      then show "int (length m) = blength b1 + 1" and "i + 1 < length m" and "take i m = content b"
        by auto
    qed
    let ?m2 = "m[i := c, Suc i := NUL]"
    have "append_byte A b c = Inr (0, b1\<lparr>bdata := Some ?m2, bindex := int (Suc i)\<rparr>)"
      using room i mem_set_nat [of "Suc i" "m[i := c]" NUL] by (simp add: def Some add.commute)
    moreover have "appended b (b1\<lparr>bdata := Some ?m2, bindex := int (Suc i)\<rparr>) [c]"
      using len room pre
      by (auto simp: appended_def buf_inv_def content_def take_Suc_conv_app_nth nat_Suc_int)
    ultimately show ?thesis by auto
  qed
qed

lemma appenduc_spec:
  "buf_inv b \<Longrightarrow> \<exists>s b'. appenduc A b w = Inr (s, b')
     \<and> (if s < 0 then \<not> ample A \<and> b' = b\<lparr>blength := blength b + DFLT_SIZE\<rparr>
        else s = 0 \<and> appended b b' [char_of_u8 w])"
  by (simp add: appenduc_def append_byte_spec)

lemma appendc_spec:
  "buf_inv b \<Longrightarrow> \<exists>s b'. appendc A b c = Inr (s, b')
     \<and> (if s < 0 then \<not> ample A \<and> b' = b\<lparr>blength := blength b + DFLT_SIZE\<rparr>
        else s = 0 \<and> appended b b' (if int_of_char c < 0 then [] else [c]))"
  using append_byte_spec [of b A c] by (simp add: appendc_def)

lemma new_Buffer_spec:
  assumes "0 \<le> n"
  shows "\<exists>b. new_Buffer A n = Inr b \<and> buf_inv b \<and> content b = [] \<and> bindex b = 0
    \<and> (ample A \<longrightarrow> 0 < n \<longrightarrow> bdata b \<noteq> None)"
proof -
  obtain s b' where "resize A \<lparr>bindex = 0, blength = 0, bdata = None\<rparr> n = Inr (s, b')"
    and "appended \<lparr>bindex = 0, blength = 0, bdata = None\<rparr> b' []"
    and "if s < 0 then b' = \<lparr>bindex = 0, blength = 0, bdata = None\<rparr> \<and> \<not> ample A
      else s = 0 \<and> n \<le> blength b' \<and> bindex b' = 0 \<and> (0 < n \<longrightarrow> bdata b' \<noteq> None)"
    using resize_inv [OF buf_inv_empty assms, of A] by auto
  then show ?thesis by (auto simp: new_Buffer_def appended_def bindex_content split: if_splits)
qed

lemma append_buffer_spec:
  assumes "buf_inv b" and inv: "buf_inv d"
  shows "\<exists>s b'. append_buffer A b (Some d) = Inr (s, b')
     \<and> (if s < 0 then b' = b \<and> \<not> ample A else s = bindex d \<and> appended b b' (content d))"
proof (cases "bdata d")
  case None
  with assms show ?thesis
    by (auto simp: append_buffer_def append_raw_def buf_inv_def content_def)
next
  case (Some m)
  from block_content [OF inv Some] obtain r where m: "m = content d @ NUL # r" by blast
  have n: "raw_length m (bindex d) = Inr (bindex d)"
  proof (cases "bindex d = 0")
    case True
    with m inv show ?thesis by (simp add: raw_length_def strlen_def cstr_def bindex_content)
  next
    case False
    with bindex_nonneg [OF inv] show ?thesis by simp
  qed
  have le: "bindex d \<le> int (length m)" using m by (simp add: bindex_content [OF inv])
  have t: "take (nat (bindex d)) m = content d"
    using m by (simp add: bindex_content [OF inv])
  show ?thesis
    using append_raw_spec [OF assms(1) n le, of A] unfolding t
    by (simp add: append_buffer_def Some split del: if_split)
qed

lemma append_bin_spec:
  assumes "buf_inv b" and "0 < n" and "n \<le> length src"
  shows "\<exists>s b'. append_bin A b (Some src) (int n) = Inr (s, b')
     \<and> (if s < 0 then b' = b \<and> \<not> ample A else s = int n \<and> appended b b' (take n src))"
  using append_raw_spec [of b src "int n" "int n" A, unfolded nat_int] assms
  by (simp add: append_bin_def split del: if_split)

lemma copy_raw_spec:
  assumes inv: "buf_inv b" and n: "raw_length src len = Inr n" "n \<le> int (length src)"
  shows "\<exists>s b'. copy_raw A b (Some src) len = Inr (s, b')
     \<and> (if s < 0 then b' = b \<and> \<not> ample A
        else s = 0 \<and> buf_inv b' \<and> content b' = (if n = 0 then content b else take (nat n) src))"
proof (cases "n = 0")
  case True
  with inv n show ?thesis by (simp add: copy_raw_def)
next
  case False
  with n raw_length_nonneg have "0 < n" by fastforce
  then obtain k where k: "n = int k" "0 < k" "k \<le> length src"
    using n by (metis of_nat_0_less_iff of_nat_le_iff zero_less_imp_eq_int)
  obtain s b1 where r: "resize A b n = Inr (s, b1)" and a: "appended b b1 []"
    and st: "if s < 0 then b1 = b \<and> \<not> ample A
       else s = 0 \<and> n \<le> blength b1 \<and> bindex b1 = bindex b \<and> (0 < n \<longrightarrow> bdata b1 \<noteq> None)"
    using resize_inv [OF inv, of n A] k by auto
  show ?thesis
  proof (cases "s < 0")
    case True
    with r st n False show ?thesis by (simp add: copy_raw_def)
  next
    case ok: False
    with st k obtain m where m: "bdata b1 = Some m" by auto
    from a have "buf_inv b1" by auto
    with m have room: "0 + length (take k src) < length m"
      using st ok k by (auto simp: buf_inv_def)
    from blit_terminated [OF this] obtain m1 m2 where
      w: "mem_blit m (int 0) (take k src) = Inr m1"
      "mem_set m1 (int 0 + int (length (take k src))) NUL = Inr m2"
      and m2: "length m2 = length m" "take (0 + length (take k src)) m2 = take 0 m @ take k src"
      "m2 ! (0 + length (take k src)) = NUL"
      by blast
    have sl: "mem_slice src 0 (int k) = Inr (take k src)"
      using mem_slice_nat [of 0 k src] k by simp
    have "copy_raw A b (Some src) len = Inr (0, b1\<lparr>bdata := Some m2, bindex := n\<rparr>)"
      using n(1) False r ok m w sl k by (simp add: copy_raw_def)
    moreover have "buf_inv (b1\<lparr>bdata := Some m2, bindex := n\<rparr>)"
      and "content (b1\<lparr>bdata := Some m2, bindex := n\<rparr>) = take k src"
      using \<open>buf_inv b1\<close> m m2 room k by (auto simp: buf_inv_def content_def)
    ultimately show ?thesis using k by auto
  qed
qed

lemma delete_end_spec:
  assumes "buf_inv b"
  shows "content b = [] \<Longrightarrow> bdata b \<noteq> None \<Longrightarrow> delete_end b = Inl OutOfBounds"
    and "content b \<noteq> [] \<Longrightarrow>
      \<exists>b'. delete_end b = Inr (0, b') \<and> buf_inv b' \<and> content b' = butlast (content b)"
proof -
  assume "content b = []" and "bdata b \<noteq> None"
  with assms show "delete_end b = Inl OutOfBounds"
    using bindex_content [OF assms] by (auto simp: delete_end_def mem_set_def)
next
  assume ne: "content b \<noteq> []"
  then obtain m where m: "bdata b = Some m" by (auto simp: content_def split: option.splits)
  with assms obtain i l where b: "b = \<lparr>bindex = int i, blength = int l, bdata = Some m\<rparr>"
    and l: "length m = Suc l" "i \<le> l" by (rule buf_inv_block)
  with ne obtain j where j: "i = Suc j" by (cases i) (auto simp: content_def)
  with b l have "delete_end b = Inr (0, \<lparr>bindex = int j, blength = int l, bdata = Some (m[j := NUL])\<rparr>)"
    by (simp add: delete_end_def)
  moreover have "butlast (content b) = take j m"
    using b l j by (simp add: content_def butlast_take)
  ultimately show "\<exists>b'. delete_end b = Inr (0, b') \<and> buf_inv b' \<and> content b' = butlast (content b)"
    using l j by (simp add: buf_inv_def content_def)
qed

lemma replace_spec:
  assumes "buf_inv b" and "k < length (content b)"
  shows "\<exists>b'. replace b (int k) c = Inr b' \<and> buf_inv b' \<and> content b' = (content b)[k := c]"
proof -
  from assms(2) obtain m where m: "bdata b = Some m" by (auto simp: content_def split: option.splits)
  with assms(1) obtain i l where b: "b = \<lparr>bindex = int i, blength = int l, bdata = Some m\<rparr>"
    and l: "length m = Suc l" "i \<le> l" "m ! i = NUL" by (rule buf_inv_block)
  moreover from this have "k < i" using assms(2) by (simp add: content_def)
  ultimately show ?thesis
    by (simp add: replace_def buf_inv_def content_def take_update_swap)
qed

lemma reset_spec:
  assumes "buf_inv b"
  shows "\<exists>b'. reset b 0 = Inr b' \<and> buf_inv b' \<and> content b' = [] \<and> bindex b' = 0
    \<and> (bdata b' = None \<longleftrightarrow> bdata b = None) \<and> blength b' = blength b"
proof (cases "bindex b = 0")
  case True
  with assms show ?thesis by (auto simp: reset_def bindex_content)
next
  case False
  with assms obtain m where m: "bdata b = Some m" by (auto simp: buf_inv_def split: option.splits)
  with assms obtain i l where b: "b = \<lparr>bindex = int i, blength = int l, bdata = Some m\<rparr>"
    and l: "length m = Suc l" "i \<le> l" by (rule buf_inv_block)
  have "mem_blit m 0 (replicate l (char_of_int 0)) = Inr (replicate l NUL @ drop l m)"
    using mem_blit_nat [of 0 "replicate l NUL" m] l by (simp add: char_of_int_def char_of_def)
  with False b l show ?thesis
    by (auto simp: reset_def buf_inv_def content_def nth_append)
qed

end
