(* ===== verification/BufferOps.thy ===== *)
theory BufferOps
  imports Buffer
begin

text \<open>
  The operations of \<open>vos::Buffer\<close> that move, replace or trim what the buffer already holds, and
  the safety of whole sequences of operations. Comparison, DNS labels and numbers follow.
\<close>

section \<open>Shifting and prepending\<close>

lemma mem_slice_0 [simp]: "n \<le> length m \<Longrightarrow> mem_slice m 0 (int n) = Inr (take n m)"
  using mem_slice_nat [of 0 n m] by simp

lemma mem_blit_0 [simp]:
  "length xs \<le> length m \<Longrightarrow> mem_blit m 0 xs = Inr (xs @ drop (length xs) m)"
  using mem_blit_nat [of 0 xs m] by simp

text \<open>The tail of \<open>shiftr\<close> on a block that has room: gap, old contents, zero.\<close>

lemma shift_block:
  assumes "n + i < length m"
  obtains m1 m2 m3 where "mem_blit m (int n) (take i m) = Inr m1"
    and "mem_fill m1 (int n) c = Inr m2" and "mem_set m2 (int i + int n) NUL = Inr m3"
    and "length m3 = length m" and "take (n + i) m3 = replicate n c @ take i m"
    and "m3 ! (n + i) = NUL"
proof -
  let ?m1 = "take n m @ take i m @ drop (n + i) m"
  let ?m2 = "replicate n c @ take i m @ drop (n + i) m"
  have 1: "mem_blit m (int n) (take i m) = Inr ?m1"
    using mem_blit_nat [of n "take i m" m] assms by (simp add: min_def)
  have 2: "mem_fill ?m1 (int n) c = Inr ?m2"
    using assms by (simp add: mem_fill_def)
  have 3: "mem_set ?m2 (int i + int n) NUL = Inr (?m2[n + i := NUL])"
    using assms mem_set_nat [of "n + i" ?m2 NUL] by (simp add: add.commute)
  show thesis
    using that [OF 1 2 3] assms by simp
qed

lemma shiftr_spec:
  assumes inv: "buf_inv b" and ne: "0 < n \<or> bdata b \<noteq> None"
  shows "\<exists>s b'. shiftr A b (int n) c = Inr (s, b')
     \<and> (if s < 0 then \<not> ample A
        else s = 0 \<and> buf_inv b' \<and> content b' = replicate n (char_of_int c) @ content b)"
proof -
  define grow where "grow \<longleftrightarrow> bindex b + int n > blength b"
  define b1 where "b1 = (if grow then b\<lparr>blength := blength b + int n\<rparr> else b)"
  define newv where "newv = (if grow then realloc A (bdata b) (blength b1 + CHAR_SIZE) else bdata b)"
  have def: "shiftr A b (int n) c = (if grow \<and> newv = None then Inr (-1, b1)
         else bindE (deref newv) (\<lambda>m. bindE (mem_slice m 0 (bindex b)) (\<lambda>xs.
           bindE (mem_blit m (int n) xs) (\<lambda>m1.
           bindE (mem_fill m1 (int n) (char_of_int c)) (\<lambda>m2.
           bindE (mem_set m2 (bindex b + int n) NUL) (\<lambda>m3.
           Inr (0, b1\<lparr>bdata := Some m3, bindex := bindex b + int n\<rparr>)))))))"
    by (simp add: shiftr_def grow_def b1_def newv_def Let_def)
  obtain i where i: "bindex b = int i" using bindex_nonneg [OF inv] nonneg_int_cases by blast
  have pos: "0 < blength b1 + CHAR_SIZE"
    using inv by (auto simp: b1_def buf_inv_def CHAR_SIZE_def split: option.splits)
  show ?thesis
  proof (cases newv)
    case None
    have grow
    proof (rule ccontr)
      assume "\<not> grow"
      with None ne inv show False by (auto simp: newv_def grow_def buf_inv_def)
    qed
    with None realloc_ample [OF _ pos, of A "bdata b"] show ?thesis
      by (auto simp: def newv_def)
  next
    case (Some m)
    have "int (length m) = blength b1 + 1 \<and> n + i < length m \<and> take i m = content b"
    proof (cases grow)
      case True
      with Some have "realloc A (bdata b) (blength b1 + CHAR_SIZE) = Some m"
        by (simp add: newv_def)
      note q = realloc_Some [OF this]
      show ?thesis
      proof (cases "bdata b")
        case None
        with inv q(2) True i show ?thesis
          by (auto simp: buf_inv_def content_def b1_def CHAR_SIZE_def)
      next
        case d: (Some old)
        with inv q(2) True i have l: "int (length m) = blength b1 + 1" "n + i < length m"
          "int (length old) \<le> blength b1 + CHAR_SIZE" "i \<le> length old"
          by (auto simp: buf_inv_def b1_def CHAR_SIZE_def)
        from q(3) [OF d l(3)] have "take i (take (length old) m) = take i old" by simp
        with l i d show ?thesis by (simp add: content_def min_def)
      qed
    next
      case False
      with Some inv i show ?thesis
        by (auto simp: newv_def b1_def buf_inv_def content_def grow_def)
    qed
    then have len: "int (length m) = blength b1 + 1" and room: "n + i < length m"
      and pre: "take i m = content b" by auto
    from room obtain m1 m2 m3 where w: "mem_blit m (int n) (take i m) = Inr m1"
      "mem_fill m1 (int n) (char_of_int c) = Inr m2" "mem_set m2 (int i + int n) NUL = Inr m3"
      and m3: "length m3 = length m" "take (n + i) m3 = replicate n (char_of_int c) @ take i m"
        "m3 ! (n + i) = NUL"
      by (rule shift_block)
    let ?b' = "b1\<lparr>bdata := Some m3, bindex := int i + int n\<rparr>"
    have "shiftr A b (int n) c = Inr (0, ?b')"
      using w room by (simp add: def Some i)
    moreover have "buf_inv ?b' \<and> content ?b' = replicate n (char_of_int c) @ content b"
      using len room pre m3
      by (auto simp: buf_inv_def content_def nat_add_distrib add.commute)
    ultimately show ?thesis by auto
  qed
qed

lemma prepend_raw_spec:
  assumes inv: "buf_inv b" and n: "raw_length src len = Inr n" "n \<le> int (length src)"
  shows "\<exists>s b'. prepend_raw A b (Some src) len = Inr (s, b')
     \<and> (if s < 0 then \<not> ample A
        else s = n \<and> buf_inv b' \<and> content b' = take (nat n) src @ content b)"
proof (cases "n = 0")
  case True
  with inv n show ?thesis by (simp add: prepend_raw_def)
next
  case False
  with n raw_length_nonneg have "0 < n" by fastforce
  then obtain k where k: "n = int k" "0 < k" "k \<le> length src"
    using n by (metis of_nat_0_less_iff of_nat_le_iff zero_less_imp_eq_int)
  obtain s b1 where r: "shiftr A b n 0 = Inr (s, b1)" and
    st: "if s < 0 then \<not> ample A
       else s = 0 \<and> buf_inv b1 \<and> content b1 = replicate k (char_of_int 0) @ content b"
    using shiftr_spec [OF inv, of k A 0] k by auto
  show ?thesis
  proof (cases "s < 0")
    case True
    with r st n False show ?thesis by (simp add: prepend_raw_def)
  next
    case ok: False
    with st have inv1: "buf_inv b1" and c1: "content b1 = replicate k (char_of_int 0) @ content b"
      by auto
    then obtain m where m: "bdata b1 = Some m" using k
      by (cases "bdata b1") (auto simp: content_def)
    with inv1 obtain i l where b1: "b1 = \<lparr>bindex = int i, blength = int l, bdata = Some m\<rparr>"
      and l: "length m = Suc l" "i \<le> l" "m ! i = NUL" by (rule buf_inv_block)
    have ki: "k \<le> i" using c1 b1 l k by (simp add: content_def) (metis le_add1 length_append length_replicate length_take min.bounded_iff)
    let ?m = "take k src @ drop k m"
    have "prepend_raw A b (Some src) len = Inr (n, b1\<lparr>bdata := Some ?m\<rparr>)"
      using n(1) False r ok m k ki l by (simp add: prepend_raw_def)
    moreover have "take i ?m = take k src @ drop k (take i m)"
      using k ki by (simp add: drop_take)
    ultimately show ?thesis
      using b1 l k ki c1 by (auto simp: buf_inv_def content_def nth_append)
  qed
qed

section \<open>Replacing characters\<close>

lemma subc_loop_eq:
  "subc_loop xs p q =
     (int (length (filter (\<lambda>c. int_of_char c = p) xs)),
      map (\<lambda>c. if int_of_char c = p then char_of_int q else c) xs)"
  by (induction xs) (auto simp: Let_def)

lemma subc_spec:
  assumes inv: "buf_inv b"
  shows "\<exists>b'. subc b p q = Inr (int (length (filter (\<lambda>c. int_of_char c = p) (content b))), b')
    \<and> buf_inv b' \<and> content b' = map (\<lambda>c. if int_of_char c = p then char_of_int q else c) (content b)"
proof (cases "bindex b \<le> 0")
  case True
  with inv have "content b = []" using bindex_content [OF inv] by simp
  with True inv show ?thesis by (simp add: subc_def)
next
  case False
  with inv obtain m where m: "bdata b = Some m" by (auto simp: buf_inv_def split: option.splits)
  with inv obtain i l where b: "b = \<lparr>bindex = int i, blength = int l, bdata = Some m\<rparr>"
    and l: "length m = Suc l" "i \<le> l" "m ! i = NUL" by (rule buf_inv_block)
  with False show ?thesis
    by (simp add: subc_def subc_loop_eq buf_inv_def content_def nth_append)
qed

section \<open>Trimming\<close>

text \<open>What trimming means: no white space at either end.\<close>

definition strip_right :: "string \<Rightarrow> string" where
  "strip_right s = rev (dropWhile isspace (rev s))"

definition strip :: "string \<Rightarrow> string" where
  "strip s = dropWhile isspace (strip_right s)"

lemma strip_right_snoc: "strip_right (s @ [c]) = (if isspace c then strip_right s else s @ [c])"
  by (simp add: strip_right_def)

lemma strip_right_Nil [simp]: "strip_right [] = []"
  by (simp add: strip_right_def)

lemma strip_right_prefix: "\<exists>r. s = strip_right s @ r"
  by (metis append_take_drop_id rev_append rev_rev_ident strip_right_def takeWhile_dropWhile_id)

lemma length_strip_right: "length (strip_right s) \<le> length s"
  by (metis length_dropWhile_le length_rev strip_right_def)

lemma strip_right_take: "strip_right s = take (length (strip_right s)) s"
  by (metis append_eq_conv_conj strip_right_prefix)

lemma strip_right_last: "strip_right s \<noteq> [] \<Longrightarrow> \<not> isspace (last (strip_right s))"
  by (metis hd_dropWhile last_rev rev_is_Nil_conv strip_right_def)

lemma isspace_NUL [simp]: "\<not> isspace NUL"
  by (simp add: isspace_def)

lemma trim_end_eq:
  "k \<le> length m \<Longrightarrow> trim_end m (int k) = Inr (int (length (strip_right (take k m))) - 1)"
proof (induction k)
  case 0
  then show ?case by (simp add: trim_end.simps [of m 0])
next
  case (Suc k)
  then have "take (Suc k) m = take k m @ [m ! k]" by (simp add: take_Suc_conv_app_nth)
  with Suc show ?case
    by (auto simp: trim_end.simps [of m "1 + int k"] strip_right_snoc)
qed

lemma trim_start_eq:
  "k \<le> e \<Longrightarrow> e \<le> length m \<Longrightarrow>
   trim_start m (int k) (int e) = Inr (int (k + length (takeWhile isspace (drop k (take e m)))))"
proof (induction "e - k" arbitrary: k)
  case 0
  then show ?case by (simp add: trim_start.simps [of m "int k" "int k"])
next
  case (Suc d)
  then have k: "k < e" "k < length m" by auto
  then have "drop k (take e m) = m ! k # drop (Suc k) (take e m)"
    by (metis Cons_nth_drop_Suc length_take min_less_iff_conj nth_take)
  with Suc.hyps(1) [of "Suc k"] Suc.hyps(2) Suc.prems k show ?case
    by (auto simp: trim_start.simps [of m "int k" "int e"] add.commute)
qed

lemma takeWhile_butlast:
  "ys \<noteq> [] \<Longrightarrow> \<not> P (last ys) \<Longrightarrow> takeWhile P (butlast ys) = takeWhile P ys"
  by (metis append_butlast_last_id takeWhile_tail)

lemma trim_array_spec:
  assumes "k < length m"
  shows "\<exists>m'. trim_array m (int k) = Inr (int (length (strip (take k m))), m')
    \<and> length m' = length m \<and> take (length (strip (take k m))) m' = strip (take k m)
    \<and> m' ! length (strip (take k m)) = NUL"
proof -
  define ys where "ys = strip_right (take k m)"
  have te: "trim_end m (int k) = Inr (int (length ys) - 1)"
    using assms by (simp add: trim_end_eq ys_def)
  have lk: "length ys \<le> k" using length_strip_right [of "take k m"] assms by (simp add: ys_def)
  have yt: "ys = take (length ys) m"
    using strip_right_take [of "take k m"] lk by (simp add: ys_def min_def)
  have st: "strip (take k m) = dropWhile isspace ys" by (simp add: strip_def ys_def)
  show ?thesis
  proof (cases "ys = []")
    case True
    with te assms show ?thesis
      by (auto simp: trim_array_def trim_start.simps [of m 0 "-1"] st mem_set_def)
  next
    case False
    then obtain e where e: "length ys = Suc e" by (cases "length ys") auto
    have "take e m = butlast ys" using yt e lk assms by (metis Suc_le_lessD butlast_take diff_Suc_1 less_imp_le_nat order_le_less_trans)
    moreover have "\<not> isspace (last ys)" using False strip_right_last by (simp add: ys_def)
    ultimately have tw: "takeWhile isspace (take e m) = takeWhile isspace ys"
      using False by (simp add: takeWhile_butlast)
    define x where "x = length (takeWhile isspace ys)"
    have ts: "trim_start m 0 (int e) = Inr (int x)"
      using trim_start_eq [of 0 e m] e lk assms tw by (simp add: x_def)
    have xe: "x \<le> e"
      using tw e by (metis length_take length_takeWhile_le min.bounded_iff x_def)
    have dw: "dropWhile isspace ys = drop x ys" by (simp add: x_def dropWhile_eq_drop)
    have ld: "length (drop x ys) = Suc e - x" using e by simp
    show ?thesis
    proof (cases "x = 0")
      case True
      moreover have "take (Suc e) m = ys" using yt e by simp
      ultimately show ?thesis
        using te ts e assms lk by (simp add: trim_array_def st dw mem_set_def)
    next
      case False
      have sl: "mem_slice m (int x) (int (Suc e - x)) = Inr (drop x ys)"
        using mem_slice_nat [of x "Suc e - x" m] xe e lk assms yt
        by (metis add_diff_inverse_nat drop_take le_Suc_eq not_less_eq_eq order.strict_implies_order order_le_less_trans)
      let ?m' = "drop x ys @ drop (Suc e - x) m"
      have "trim_array m (int k) = Inr (int (Suc e - x), ?m'[Suc e - x := NUL])"
        using te ts e False xe sl ld lk assms mem_set_nat [of "Suc e - x" ?m' NUL]
        by (simp add: trim_array_def CHAR_SIZE_def of_nat_diff algebra_simps)
      with ld lk e assms show ?thesis by (simp add: st dw)
    qed
  qed
qed

lemma trim_spec:
  assumes inv: "buf_inv b" and d: "bdata b \<noteq> None"
  shows "\<exists>b'. trim b = Inr b' \<and> buf_inv b' \<and> content b' = strip (content b)"
proof -
  from d obtain m where m: "bdata b = Some m" by auto
  with inv obtain i l where b: "b = \<lparr>bindex = int i, blength = int l, bdata = Some m\<rparr>"
    and l: "length m = Suc l" "i \<le> l" "m ! i = NUL" by (rule buf_inv_block)
  let ?t = "strip (take i m)"
  from l obtain m' where "trim_array m (int i) = Inr (int (length ?t), m')"
    and m': "length m' = length m" "take (length ?t) m' = ?t" "m' ! length ?t = NUL"
    using trim_array_spec [of i m] by auto
  with b have "trim b = Inr \<lparr>bindex = int (length ?t), blength = int l, bdata = Some m'\<rparr>"
    by (simp add: trim_def)
  moreover have "length ?t \<le> l"
    using l by (metis le_trans length_dropWhile_le length_strip_right length_take min.bounded_iff strip_def)
  ultimately show ?thesis
    using b l m' by (simp add: buf_inv_def content_def)
qed

section \<open>Operations when the allocator never refuses\<close>

lemma appenduc_ok:
  assumes "ample A" and "buf_inv b"
  obtains b' where "appenduc A b w = Inr (0, b')" and "appended b b' [char_of_u8 w]"
  using appenduc_spec [of b A w] assms by (auto split: if_splits)

lemma appendc_ok:
  assumes "ample A" and "buf_inv b"
  obtains b' where "appendc A b c = Inr (0, b')"
    and "appended b b' (if int_of_char c < 0 then [] else [c])"
  using appendc_spec [of b A c] assms by (auto split: if_splits)

lemma append_raw_ok:
  assumes "ample A" and "buf_inv b" and "0 < n" and "n \<le> length src"
  obtains b' where "append_raw A b (Some src) (int n) = Inr (int n, b')"
    and "appended b b' (take n src)"
  using append_raw_spec [of b src "int n" "int n" A] assms by (auto split: if_splits)

lemma append_raw_str_ok:
  assumes "ample A" and "buf_inv b"
  obtains b' where "append_raw A b (Some (c_str s)) 0 = Inr (int (length (cstr s)), b')"
    and "appended b b' (cstr s)"
proof -
  have le: "length (cstr s) \<le> length (c_str s)" using length_cstr_le [of s] by (simp add: c_str_def)
  have "take (length (cstr s)) (c_str s) = cstr s"
    using take_length_cstr [of s] length_cstr_le [of s] by (simp add: c_str_def)
  with append_raw_spec [of b "c_str s" 0 "int (length (cstr s))" A] le assms that show thesis
    by (auto split: if_splits)
qed

section \<open>Sequences of operations\<close>

text \<open>
  A client of the buffer is a sequence of calls. Each call comes with what the C++ leaves to the
  caller: \<open>trim\<close> needs an allocated block, \<open>delete_end\<close> a character to delete and \<open>replace\<close> an
  index inside the contents. \<open>buffer_step\<close> runs one call, \<open>content_step\<close> is what the call means
  for the contents alone.
\<close>

datatype buffer_op =
    OpResize nat
  | OpAppendRaw string
  | OpAppendStr string
  | OpAppendUc uint8
  | OpAppendC char
  | OpAppendBuf string
  | OpCopyStr string
  | OpPrepend string
  | OpTrim
  | OpReset
  | OpDeleteEnd
  | OpReplace nat char
  | OpSubc int int

fun buffer_call :: "allocator \<Rightarrow> buffer \<Rightarrow> buffer_op \<Rightarrow> fault + buffer" where
  "buffer_call A b (OpResize n) = bindE (resize A b (int n)) (\<lambda>(_, b'). Inr b')"
| "buffer_call A b (OpAppendRaw xs) =
     bindE (append_bin A b (Some xs) (int (length xs))) (\<lambda>(_, b'). Inr b')"
| "buffer_call A b (OpAppendStr s) = bindE (append_raw A b (Some (c_str s)) 0) (\<lambda>(_, b'). Inr b')"
| "buffer_call A b (OpAppendUc w) = bindE (appenduc A b w) (\<lambda>(_, b'). Inr b')"
| "buffer_call A b (OpAppendC c) = bindE (appendc A b c) (\<lambda>(_, b'). Inr b')"
| "buffer_call A b (OpAppendBuf s) =
     bindE (append_raw A \<lparr>bindex = 0, blength = 0, bdata = None\<rparr> (Some (c_str s)) 0) (\<lambda>(_, o').
     bindE (append_buffer A b (Some o')) (\<lambda>(_, b'). Inr b'))"
| "buffer_call A b (OpCopyStr s) = bindE (copy_raw A b (Some (c_str s)) 0) (\<lambda>(_, b'). Inr b')"
| "buffer_call A b (OpPrepend s) = bindE (prepend_raw A b (Some (c_str s)) 0) (\<lambda>(_, b'). Inr b')"
| "buffer_call A b OpTrim = trim b"
| "buffer_call A b OpReset = reset b 0"
| "buffer_call A b OpDeleteEnd = bindE (delete_end b) (\<lambda>(_, b'). Inr b')"
| "buffer_call A b (OpReplace k c) = replace b (int k) c"
| "buffer_call A b (OpSubc p q) = bindE (subc b p q) (\<lambda>(_, b'). Inr b')"

definition buffer_pre :: "buffer \<Rightarrow> buffer_op \<Rightarrow> bool" where
  "buffer_pre b opn \<longleftrightarrow>
     (case opn of
        OpTrim \<Rightarrow> bdata b \<noteq> None
      | OpDeleteEnd \<Rightarrow> 0 < bindex b
      | OpReplace k c \<Rightarrow> int k < bindex b
      | _ \<Rightarrow> True)"

definition buffer_step :: "allocator \<Rightarrow> buffer \<Rightarrow> buffer_op \<Rightarrow> fault + buffer" where
  "buffer_step A b opn = (if buffer_pre b opn then buffer_call A b opn else Inr b)"

fun content_step :: "string \<Rightarrow> buffer_op \<Rightarrow> string" where
  "content_step t (OpResize n) = t"
| "content_step t (OpAppendRaw xs) = t @ xs"
| "content_step t (OpAppendStr s) = t @ cstr s"
| "content_step t (OpAppendUc w) = t @ [char_of_u8 w]"
| "content_step t (OpAppendC c) = t @ (if int_of_char c < 0 then [] else [c])"
| "content_step t (OpAppendBuf s) = t @ cstr s"
| "content_step t (OpCopyStr s) = (if cstr s = [] then t else cstr s)"
| "content_step t (OpPrepend s) = cstr s @ t"
| "content_step t OpTrim = strip t"
| "content_step t OpReset = []"
| "content_step t OpDeleteEnd = butlast t"
| "content_step t (OpReplace k c) = (if k < length t then t[k := c] else t)"
| "content_step t (OpSubc p q) = map (\<lambda>c. if int_of_char c = p then char_of_int q else c) t"

lemma take_cstr_c_str [simp]: "take (length (cstr s)) (c_str s) = cstr s"
  using take_length_cstr [of s] length_cstr_le [of s] by (simp add: c_str_def)

lemma cstr_le_c_str [simp]: "length (cstr s) \<le> length (c_str s)"
  using length_cstr_le [of s] by (simp add: c_str_def)

lemma strip_Nil [simp]: "strip [] = []"
  by (simp add: strip_def)

lemma buffer_call_ok:
  assumes A: "ample A" and inv: "buf_inv b" and pre: "buffer_pre b opn"
  shows "\<exists>b'. buffer_call A b opn = Inr b' \<and> buf_inv b' \<and> content b' = content_step (content b) opn"
proof (cases opn)
  case (OpResize n)
  with resize_inv [OF inv, of "int n" A] A show ?thesis by (auto simp: appended_def)
next
  case (OpAppendRaw xs)
  with append_bin_spec [OF inv, of "length xs" xs A] A inv show ?thesis
    by (cases "xs = []") (auto simp: append_bin_def appended_def split: if_splits)
next
  case (OpAppendStr s)
  then show ?thesis by (auto intro: append_raw_str_ok [OF A inv, of s] simp: appended_def)
next
  case (OpAppendUc w)
  then show ?thesis by (auto intro: appenduc_ok [OF A inv, of w] simp: appended_def)
next
  case (OpAppendC c)
  then show ?thesis by (auto intro: appendc_ok [OF A inv, of c] simp: appended_def)
next
  case (OpAppendBuf s)
  obtain d where d: "append_raw A \<lparr>bindex = 0, blength = 0, bdata = None\<rparr> (Some (c_str s)) 0
      = Inr (int (length (cstr s)), d)" "buf_inv d" "content d = cstr s"
    using append_raw_str_ok [OF A buf_inv_empty, of s] by (auto simp: appended_def)
  with OpAppendBuf append_buffer_spec [OF inv d(2), of A] A show ?thesis
    by (auto simp: appended_def split: if_splits)
next
  case (OpCopyStr s)
  with copy_raw_spec [OF inv, of "c_str s" 0 "int (length (cstr s))" A] A show ?thesis
    by (auto split: if_splits)
next
  case (OpPrepend s)
  with prepend_raw_spec [OF inv, of "c_str s" 0 "int (length (cstr s))" A] A show ?thesis
    by (auto split: if_splits)
next
  case OpTrim
  with trim_spec [OF inv] pre show ?thesis by (auto simp: buffer_pre_def)
next
  case OpReset
  with reset_spec [OF inv] show ?thesis by auto
next
  case OpDeleteEnd
  with delete_end_spec(2) [OF inv] pre bindex_content [OF inv] show ?thesis
    by (auto simp: buffer_pre_def)
next
  case (OpReplace k c)
  with replace_spec [OF inv, of k c] pre bindex_content [OF inv] show ?thesis
    by (auto simp: buffer_pre_def)
next
  case (OpSubc p q)
  with subc_spec [OF inv, of p q] show ?thesis by auto
qed

definition content_machine :: "allocator \<Rightarrow> buffer \<Rightarrow> bool" where
  "content_machine A b \<longleftrightarrow> ample A \<and> buf_inv b"

interpretation buf: safe_machine "buffer_step A" "content_machine A" for A
  by unfold_locales
    (use buffer_call_ok in \<open>fastforce simp: content_machine_def buffer_step_def split: if_splits\<close>)+

lemma buffer_step_content:
  assumes "content_machine A b" and "buffer_step A b opn = Inr b'"
  shows "content b' = content_step (content b) opn"
proof (cases "buffer_pre b opn")
  case True
  with assms buffer_call_ok [of A b opn] show ?thesis
    by (auto simp: content_machine_def buffer_step_def)
next
  case False
  with assms have b: "b' = b" and inv: "buf_inv b" by (auto simp: content_machine_def buffer_step_def)
  from False inv bindex_content [OF inv] show ?thesis
    by (cases opn) (auto simp: buffer_pre_def b content_def)
qed

lemma buffer_run_content:
  "content_machine A b \<Longrightarrow> foldE (buffer_step A) b ops = Inr b' \<Longrightarrow>
   content b' = foldl content_step (content b) ops"
proof (induction ops arbitrary: b)
  case (Cons opn ops)
  then obtain t where t: "buffer_step A b opn = Inr t" "foldE (buffer_step A) t ops = Inr b'"
    by auto
  with Cons show ?case
    using buffer_step_content [OF Cons.prems(1) t(1)] buf.step_inv [OF Cons.prems(1) t(1)]
    by simp
qed simp



section \<open>A refused request\<close>

text \<open>
  Out of memory: when the buffer is full and the allocator refuses the larger block,
  \<open>appendc\<close>/\<open>appenduc\<close> report failure but have already raised the recorded length, so the next
  byte appended is written past the end of the block.
\<close>

theorem refused_append_corrupts:
  assumes "buf_inv b" and "bdata b \<noteq> None" and "bindex b = blength b"
    and "\<not> al_grants A (nat (blength b + DFLT_SIZE + CHAR_SIZE))"
  shows "\<exists>b'. appenduc A b v = Inr (-1, b') \<and> appenduc A b' w = Inl OutOfBounds"
proof -
  from assms(2) obtain m where m: "bdata b = Some m" by auto
  with assms(1) obtain i l where b: "b = \<lparr>bindex = int i, blength = int l, bdata = Some m\<rparr>"
    and l: "length m = Suc l" by (rule buf_inv_block)
  have "realloc A (Some m) (int l + DFLT_SIZE + CHAR_SIZE) = None"
    using assms(4) b by (simp add: realloc_def)
  with assms(3) b l show ?thesis
    by (auto simp: appenduc_def append_byte_def CHAR_SIZE_def DFLT_SIZE_def mem_set_def)
qed

theorem refused_append_corrupts_witness:
  "\<exists>b'. appenduc \<lparr>al_grants = \<lambda>n. n < 4, al_fill = \<lambda>n. NUL\<rparr>
      \<lparr>bindex = 2, blength = 2, bdata = Some [CHR ''a'', CHR ''b'', NUL]\<rparr> 7 = Inr (-1, b')
    \<and> appenduc \<lparr>al_grants = \<lambda>n. n < 4, al_fill = \<lambda>n. NUL\<rparr> b' 8 = Inl OutOfBounds"
  by (rule refused_append_corrupts) (simp_all add: buf_inv_def DFLT_SIZE_def CHAR_SIZE_def)

end
