(* ===== verification/Reader.thy ===== *)
theory Reader
  imports BufferOps
begin

text \<open>
  \<open>Reader\<close> (flint/src/discovery/mdns/Reader.cpp): big-endian reads from a received packet and the
  decompression of domain names. \<open>getLabel\<close> follows compression pointers without counting them,
  so its loop is \<open>iterate\<close> and a run that never ends is \<open>None\<close>.

  \<open>name_at\<close> states what a name at an offset of a packet is (RFC 1035, 4.1.4), independently of the
  code; the theorems compare \<open>getLabel\<close> with it and say what happens outside it.
\<close>

section \<open>Integers\<close>

definition get8 :: "buffer \<Rightarrow> uint16 \<Rightarrow> uint16 \<Rightarrow> fault + uint8" where
  "get8 buf data_len index =
     (if uint index + 1 > uint data_len then Inr (- 1)
      else
        bindE (deref (bdata buf)) (\<lambda>m.
        bindE (mem_get m (uint index)) (\<lambda>c. Inr (u8_of_char c))))"

definition get16 :: "buffer \<Rightarrow> uint16 \<Rightarrow> uint16 \<Rightarrow> fault + uint16" where
  "get16 buf data_len index =
     (if uint index + 2 > uint data_len then Inr (- 1)
      else
        bindE (get8 buf data_len index) (\<lambda>hi.
        bindE (get8 buf data_len (index + 1)) (\<lambda>lo.
        Inr (push_bit 8 (ucast hi) OR ucast lo))))"

definition get32 :: "buffer \<Rightarrow> uint16 \<Rightarrow> uint16 \<Rightarrow> fault + uint32" where
  "get32 buf data_len index =
     (if uint index + 4 > uint data_len then Inr (- 1)
      else
        bindE (get16 buf data_len index) (\<lambda>hi.
        bindE (get16 buf data_len (index + 2)) (\<lambda>lo.
        Inr (push_bit 16 (ucast hi) OR ucast lo))))"

section \<open>Names\<close>

record label_state =
  ls_index :: uint16
  ls_jump :: bool
  ls_ret :: int
  ls_out :: buffer

text \<open>The inner loop copies one label; the octet \<open>get8\<close> returns is not looked at.\<close>

fun label_bytes ::
  "allocator \<Rightarrow> buffer \<Rightarrow> uint16 \<Rightarrow> nat \<Rightarrow> label_state \<Rightarrow> fault + label_state" where
  "label_bytes A buf data_len 0 s = Inr s"
| "label_bytes A buf data_len (Suc tmp_len) s =
     bindE (get8 buf data_len (ls_index s)) (\<lambda>c.
     bindE (append_raw A (ls_out s) (map_option (drop (unat (ls_index s))) (bdata buf)) 1) (\<lambda>(_, out).
     label_bytes A buf data_len tmp_len
       (s\<lparr>ls_out := out, ls_ret := ls_ret s + (if ls_jump s then 0 else 1),
          ls_index := ls_index s + 1\<rparr>)))"

text \<open>One round of the outer loop. \<open>Leave None\<close> is \<open>return -1\<close>, \<open>Leave (Some n)\<close> the \<open>break\<close>.\<close>

definition label_body ::
  "allocator \<Rightarrow> buffer \<Rightarrow> uint16 \<Rightarrow> label_state
    \<Rightarrow> fault + (label_state, int option \<times> buffer) loop_next" where
  "label_body A buf data_len s =
     bindE (get8 buf data_len (ls_index s)) (\<lambda>tmp.
     if tmp = 0 then
       Inr (Leave (Some (ls_ret s + (if ls_jump s then 0 else 1)), ls_out s))
     else if tmp AND 0xC0 = 0xC0 then
       bindE (get16 buf data_len (ls_index s)) (\<lambda>w.
       let pointer = w AND 0x3FFF;
           s1 = (if ls_jump s then s else s\<lparr>ls_ret := ls_ret s + 2, ls_jump := True\<rparr>)
       in if data_len < pointer then Inr (Leave (None, ls_out s))
          else Inr (Again (s1\<lparr>ls_index := pointer\<rparr>)))
     else
       bindE (label_bytes A buf data_len (unat tmp)
           (s\<lparr>ls_ret := ls_ret s + (if ls_jump s then 0 else 1), ls_index := ls_index s + 1\<rparr>)) (\<lambda>s1.
       bindE (appendc A (ls_out s1) CHR ''.'') (\<lambda>(_, out).
       Inr (Again (s1\<lparr>ls_out := out\<rparr>)))))"

definition getLabel ::
  "allocator \<Rightarrow> buffer \<Rightarrow> uint16 \<Rightarrow> uint16 \<Rightarrow> buffer \<Rightarrow> (fault + uint32 \<times> buffer) option" where
  "getLabel A buf data_len index buffer_out =
     (if data_len < index then Some (Inr (- 1, buffer_out))
      else
        map_option (\<lambda>r. bindE r (\<lambda>(ret, out).
            (case ret of
               None \<Rightarrow> Inr (- 1, out)
             | Some ret_len \<Rightarrow> bindE (delete_end out) (\<lambda>(_, out'). Inr (word_of_int ret_len, out')))))
          (iterate (label_body A buf data_len)
            \<lparr>ls_index = index, ls_jump = False, ls_ret = 0, ls_out = buffer_out\<rparr>))"

section \<open>Packets\<close>

text \<open>\<open>packet buf n pkt\<close>: the first \<open>n\<close> bytes the buffer holds are \<open>pkt\<close>.\<close>

definition packet :: "buffer \<Rightarrow> uint16 \<Rightarrow> string \<Rightarrow> bool" where
  "packet buf n pkt \<longleftrightarrow> length pkt = unat n \<and> (\<exists>m. bdata buf = Some m \<and> prefix pkt m)"

lemma packet_length: "packet buf n pkt \<Longrightarrow> length pkt < 65536"
  using unsigned_less [of n, where ?'a = nat] by (simp add: packet_def)

lemma unat_word_of_nat_packet:
  "packet buf n pkt \<Longrightarrow> k \<le> length pkt \<Longrightarrow> unat (word_of_nat k :: uint16) = k"
  using packet_length [of buf n pkt] by (simp add: unat_of_nat take_bit_nat_eq_self_iff)

lemma uint_word_of_nat_packet:
  "packet buf n pkt \<Longrightarrow> k \<le> length pkt \<Longrightarrow> uint (word_of_nat k :: uint16) = int k"
  using unat_word_of_nat_packet [of buf n pkt k] by (metis uint_nat)

lemma uint_data_len: "packet buf n pkt \<Longrightarrow> uint n = int (length pkt)"
  unfolding packet_def uint_nat by simp

definition byte_at :: "string \<Rightarrow> nat \<Rightarrow> nat" where
  "byte_at pkt i = of_char (pkt ! i)"

lemma byte_at_less [simp]: "byte_at pkt i < 256"
  by (simp add: byte_at_def)

lemma get8_in:
  assumes p: "packet buf n pkt" and i: "i < length pkt"
  shows "get8 buf n (word_of_nat i) = Inr (word_of_nat (byte_at pkt i))"
proof -
  from p obtain m where m: "bdata buf = Some m" and "prefix pkt m"
    unfolding packet_def by blast
  then obtain r where r: "m = pkt @ r" by (elim prefixE)
  have "mem_get m (int i) = Inr (pkt ! i)" unfolding r using i by (simp add: nth_append)
  moreover have "uint (word_of_nat i :: uint16) = int i"
    using i by (simp add: uint_word_of_nat_packet [OF p])
  ultimately show ?thesis
    using i m unfolding get8_def uint_data_len [OF p] by (simp add: u8_of_char_def byte_at_def)
qed

lemma get8_out: "unat n \<le> unat i \<Longrightarrow> get8 buf n i = Inr (- 1)"
  by (drule zle_int [THEN iffD2]) (simp add: get8_def)

lemma word_of_nat_Suc: "word_of_nat i + 1 = (word_of_nat (Suc i) :: 'a::len word)"
  by (simp add: add.commute)

lemma get16_in:
  assumes p: "packet buf n pkt" and i: "Suc i < length pkt"
  shows "get16 buf n (word_of_nat i) = Inr (word_of_nat (byte_at pkt i * 256 + byte_at pkt (Suc i)))"
proof -
  have n: "\<not> uint n < uint (word_of_nat i :: uint16) + 2"
    using i by (simp add: uint_word_of_nat_packet [OF p] uint_data_len [OF p])
  have g: "get8 buf n (word_of_nat i) = Inr (word_of_nat (byte_at pkt i))"
    "get8 buf n (word_of_nat i + 1) = Inr (word_of_nat (byte_at pkt (Suc i)))"
    using i unfolding word_of_nat_Suc by (simp_all add: get8_in [OF p] del: of_nat_Suc)
  show ?thesis
    unfolding get16_def g using n pack16 [OF byte_at_less byte_at_less, of pkt i pkt "Suc i"] by simp
qed

lemma get16_out: "unat n < unat i + 2 \<Longrightarrow> get16 buf n i = Inr (- 1)"
  by (drule of_nat_less_iff [where ?'a = int, THEN iffD2]) (simp add: get16_def)

definition word_at :: "string \<Rightarrow> nat \<Rightarrow> nat" where
  "word_at pkt i = byte_at pkt i * 256 + byte_at pkt (Suc i)"

lemma word_at_less [simp]: "word_at pkt i < 65536"
  using byte_at_less [of pkt i] byte_at_less [of pkt "Suc i"] unfolding word_at_def by linarith

lemma get32_in:
  assumes p: "packet buf n pkt" and i: "i + 3 < length pkt"
  shows "get32 buf n (word_of_nat i) = Inr (word_of_nat (word_at pkt i * 65536 + word_at pkt (i + 2)))"
proof -
  have n: "\<not> uint n < uint (word_of_nat i :: uint16) + 4"
    using i by (simp add: uint_word_of_nat_packet [OF p] uint_data_len [OF p])
  have g: "get16 buf n (word_of_nat i) = Inr (word_of_nat (word_at pkt i))"
    using i get16_in [OF p, of i] by (simp add: word_at_def del: of_nat_add of_nat_mult)
  have "get16 buf n (word_of_nat (i + 2)) = Inr (word_of_nat (word_at pkt (i + 2)))"
    using i get16_in [OF p, of "i + 2"] by (simp add: word_at_def del: of_nat_add of_nat_mult)
  then have h: "get16 buf n (word_of_nat i + 2) = Inr (word_of_nat (word_at pkt (i + 2)))"
    by (simp only: of_nat_add of_nat_numeral)
  show ?thesis
    unfolding get32_def g h using n pack32 [OF word_at_less word_at_less, of pkt i pkt "i + 2"] by simp
qed

section \<open>What a name is\<close>

text \<open>
  \<open>name_at pkt i ls k\<close>: at offset \<open>i\<close> stands a name with the labels \<open>ls\<close>, occupying \<open>k\<close> octets in
  place. As in the code, an octet of 192 or more starts a pointer and any other non-zero octet is
  the length of a label (the RFC reserves 64 to 191).
\<close>

inductive name_at :: "string \<Rightarrow> nat \<Rightarrow> string list \<Rightarrow> nat \<Rightarrow> bool" for pkt where
  root: "i < length pkt \<Longrightarrow> byte_at pkt i = 0 \<Longrightarrow> name_at pkt i [] 1"
| pointer: "Suc i < length pkt \<Longrightarrow> 0xC0 \<le> byte_at pkt i \<Longrightarrow>
    name_at pkt (word_at pkt i mod 0x4000) ls k \<Longrightarrow> name_at pkt i ls 2"
| label: "i < length pkt \<Longrightarrow> l = byte_at pkt i \<Longrightarrow> 0 < l \<Longrightarrow> l < 0xC0 \<Longrightarrow>
    i + l < length pkt \<Longrightarrow> name_at pkt (i + l + 1) ls k \<Longrightarrow>
    name_at pkt i (take l (drop (i + 1) pkt) # ls) (k + l + 1)"

definition dotted :: "string list \<Rightarrow> string" where
  "dotted ls = concat (map (\<lambda>l. l @ ''.'') ls)"

lemma dotted_simps [simp]: "dotted [] = []" "dotted (l # ls) = l @ ''.'' @ dotted ls"
  by (simp_all add: dotted_def)

lemma dotted_join: "ls \<noteq> [] \<Longrightarrow> dotted ls = join_on ''.'' ls @ ''.''"
  by (induction "''.''" ls rule: join_on.induct) auto

lemma name_at_inside: "name_at pkt i ls k \<Longrightarrow> i < length pkt"
  by (induction rule: name_at.induct) auto

text \<open>A name is determined by its offset: the first octet selects the rule.\<close>

lemma name_at_root:
  "name_at pkt i ls k \<Longrightarrow> byte_at pkt i = 0 \<Longrightarrow> ls = [] \<and> k = 1"
  by (erule name_at.cases) simp_all

lemma name_at_pointer:
  assumes "name_at pkt i ls k" and "0xC0 \<le> byte_at pkt i"
  obtains k' where "k = 2" and "name_at pkt (word_at pkt i mod 0x4000) ls k'"
  using assms by (cases rule: name_at.cases) simp_all

lemma name_at_label:
  assumes "name_at pkt i ls k" and "0 < byte_at pkt i" and "byte_at pkt i < 0xC0"
  obtains ls' k' where "ls = take (byte_at pkt i) (drop (i + 1) pkt) # ls'"
    and "k = k' + byte_at pkt i + 1" and "name_at pkt (i + byte_at pkt i + 1) ls' k'"
proof (rule name_at.cases [OF assms(1)], goal_cases)
  case (1 i')
  with assms(2) show ?thesis by simp
next
  case (2 i' ls'' k'')
  with assms(3) show ?thesis by simp
next
  case (3 i' l ls'' k'')
  then show ?thesis by (intro that [of ls'' k'']) simp_all
qed

lemma name_at_unique: "name_at pkt i ls k \<Longrightarrow> name_at pkt i ls' k' \<Longrightarrow> ls' = ls \<and> k' = k"
proof (induction arbitrary: ls' k' rule: name_at.induct)
  case (root i)
  then show ?case using name_at_root by blast
next
  case (pointer i ls k)
  show ?case
    by (rule name_at_pointer [OF pointer.prems pointer.hyps(2)]) (simp add: pointer.IH)
next
  case (label i l ls k)
  then have "0 < byte_at pkt i" "byte_at pkt i < 0xC0" by simp_all
  with label.prems show ?case
  proof (rule name_at_label)
    fix ls2 k2
    assume *: "ls' = take (byte_at pkt i) (drop (i + 1) pkt) # ls2" "k' = k2 + byte_at pkt i + 1"
      "name_at pkt (i + byte_at pkt i + 1) ls2 k2"
    then have "ls2 = ls \<and> k2 = k" using label.IH label.hyps(2) by simp
    with * label.hyps(2) show ?thesis by simp
  qed
qed

section \<open>The loop computes the name\<close>

lemma label_bytes_in:
  assumes p: "packet buf n pkt" and A: "ample A"
  shows "i + l < length pkt + 1 \<Longrightarrow> ls_index s = word_of_nat i \<Longrightarrow> buf_inv (ls_out s) \<Longrightarrow>
    \<exists>out. label_bytes A buf n l s = Inr (s\<lparr>ls_index := word_of_nat (i + l), ls_out := out,
        ls_ret := ls_ret s + (if ls_jump s then 0 else int l)\<rparr>)
      \<and> appended (ls_out s) out (take l (drop i pkt))"
proof (induction l arbitrary: i s)
  case 0
  then show ?case by (intro exI [of _ "ls_out s"]) simp
next
  case (Suc l)
  then have i: "i < length pkt" by simp
  from p obtain m where m: "bdata buf = Some m" and "prefix pkt m"
    unfolding packet_def by blast
  then obtain r where r: "m = pkt @ r" by (elim prefixE)
  have d: "drop i m = pkt ! i # drop (Suc i) m"
    using i Cons_nth_drop_Suc [of i m] unfolding r by (simp add: nth_append)
  have u: "unat (word_of_nat i :: uint16) = i"
    using i by (simp add: unat_word_of_nat_packet [OF p])
  obtain o1 where o1: "append_raw A (ls_out s) (Some (drop i m)) 1 = Inr (1, o1)"
    and a1: "appended (ls_out s) o1 [pkt ! i]"
    using append_raw_ok [OF A Suc.prems(3), of 1 "drop i m"] d by auto
  let ?s = "s\<lparr>ls_out := o1, ls_ret := ls_ret s + (if ls_jump s then 0 else 1),
      ls_index := word_of_nat (Suc i)\<rparr>"
  have "label_bytes A buf n (Suc l) s = label_bytes A buf n l ?s"
    using get8_in [OF p i] Suc.prems(2) o1 m u by (simp add: add.commute)
  moreover obtain out where "label_bytes A buf n l ?s = Inr (?s\<lparr>ls_index := word_of_nat (Suc i + l),
      ls_out := out, ls_ret := ls_ret ?s + (if ls_jump ?s then 0 else int l)\<rparr>)"
    and a2: "appended o1 out (take l (drop (Suc i) pkt))"
    using Suc.IH [of "Suc i" ?s] Suc.prems(1) a1 by auto
  moreover have "take (Suc l) (drop i pkt) = [pkt ! i] @ take l (drop (Suc i) pkt)"
    using i by (simp add: Cons_nth_drop_Suc [symmetric])
  ultimately show ?case
    using appended_trans [OF a1 a2] by (intro exI [of _ out]) (simp add: algebra_simps)
qed

lemma label_body_in:
  assumes p: "packet buf n pkt" and A: "ample A" and i: "i < length pkt"
    and s: "s = \<lparr>ls_index = word_of_nat i, ls_jump = j, ls_ret = r, ls_out = out\<rparr>"
    and out: "buf_inv out"
  shows "byte_at pkt i = 0 \<Longrightarrow> label_body A buf n s = Inr (Leave (Some (r + (if j then 0 else 1)), out))"
    and "0xC0 \<le> byte_at pkt i \<Longrightarrow> Suc i < length pkt \<Longrightarrow> word_at pkt i mod 0x4000 \<le> length pkt \<Longrightarrow>
      label_body A buf n s = Inr (Again \<lparr>ls_index = word_of_nat (word_at pkt i mod 0x4000),
        ls_jump = True, ls_ret = r + (if j then 0 else 2), ls_out = out\<rparr>)"
    and "0 < byte_at pkt i \<Longrightarrow> byte_at pkt i < 0xC0 \<Longrightarrow> i + byte_at pkt i < length pkt \<Longrightarrow>
      \<exists>out'. label_body A buf n s = Inr (Again \<lparr>ls_index = word_of_nat (i + byte_at pkt i + 1),
        ls_jump = j, ls_ret = r + (if j then 0 else 1 + int (byte_at pkt i)), ls_out = out'\<rparr>)
      \<and> appended out out' (take (byte_at pkt i) (drop (i + 1) pkt) @ ''.'')"
proof -
  let ?b = "byte_at pkt i"
  have u: "unat (word_of_nat ?b :: uint8) = ?b"
    by (simp add: unat_of_nat take_bit_nat_eq_self)
  have z: "(word_of_nat ?b :: uint8) = 0 \<longleftrightarrow> ?b = 0"
    using u by (metis unat_eq_zero)
  have c0: "(word_of_nat ?b :: uint8) AND 0xC0 = 0xC0 \<longleftrightarrow> 0xC0 \<le> ?b"
    by (simp add: pointer_bits u)
  note g = get8_in [OF p i]
  show "?b = 0 \<Longrightarrow> label_body A buf n s = Inr (Leave (Some (r + (if j then 0 else 1)), out))"
    using g by (simp add: label_body_def s)
  {
    assume b: "0xC0 \<le> ?b" and i2: "Suc i < length pkt"
      and t: "word_at pkt i mod 0x4000 \<le> length pkt"
    have w: "get16 buf n (word_of_nat i) = Inr (word_of_nat (word_at pkt i))"
      using get16_in [OF p i2] by (simp add: word_at_def del: of_nat_add of_nat_mult)
    have m: "(word_of_nat (word_at pkt i) AND 0x3FFF :: uint16) = word_of_nat (word_at pkt i mod 0x4000)"
      by (simp add: pointer_mask unat_of_nat take_bit_nat_eq_self)
    have "\<not> n < word_of_nat (word_at pkt i mod 0x4000)"
      using t p by (simp add: word_less_nat_alt unat_word_of_nat_packet [OF p] packet_def)
    then show "label_body A buf n s = Inr (Again \<lparr>ls_index = word_of_nat (word_at pkt i mod 0x4000),
        ls_jump = True, ls_ret = r + (if j then 0 else 2), ls_out = out\<rparr>)"
      using g w m b c0 z by (simp add: label_body_def s Let_def)
  }
  {
    assume b: "0 < ?b" "?b < 0xC0" "i + ?b < length pkt"
    let ?s = "\<lparr>ls_index = word_of_nat (i + 1), ls_jump = j, ls_ret = r + (if j then 0 else 1),
        ls_out = out\<rparr>"
    obtain o1 where o1: "label_bytes A buf n ?b ?s = Inr \<lparr>ls_index = word_of_nat (i + 1 + ?b),
        ls_jump = j, ls_ret = r + (if j then 0 else 1) + (if j then 0 else int ?b), ls_out = o1\<rparr>"
      and a1: "appended out o1 (take ?b (drop (i + 1) pkt))"
      using label_bytes_in [OF p A, of "i + 1" ?b ?s] b out by auto
    obtain o2 where o2: "appendc A o1 CHR ''.'' = Inr (0, o2)" and a2: "appended o1 o2 ''.''"
      using appendc_ok [OF A appendedD(1) [OF a1], of "CHR ''.''"]
      by (auto simp: int_of_char_def u8_of_char_def)
    have "label_body A buf n s = Inr (Again \<lparr>ls_index = word_of_nat (i + 1 + ?b), ls_jump = j,
        ls_ret = r + (if j then 0 else 1) + (if j then 0 else int ?b), ls_out = o2\<rparr>)"
      using g b c0 z u o1 o2 by (simp add: label_body_def s word_of_nat_Suc add.commute)
    with appended_trans [OF a1 a2]
    show "\<exists>out'. label_body A buf n s = Inr (Again \<lparr>ls_index = word_of_nat (i + ?b + 1),
        ls_jump = j, ls_ret = r + (if j then 0 else 1 + int ?b), ls_out = out'\<rparr>)
      \<and> appended out out' (take ?b (drop (i + 1) pkt) @ ''.'')"
      by (intro exI [of _ o2]) (simp add: algebra_simps)
  }
qed

lemma label_loop_name:
  assumes p: "packet buf n pkt" and A: "ample A"
  shows "name_at pkt i ls k \<Longrightarrow> buf_inv out \<Longrightarrow>
    \<exists>out'. iterate (label_body A buf n)
        \<lparr>ls_index = word_of_nat i, ls_jump = j, ls_ret = r, ls_out = out\<rparr>
      = Some (Inr (Some (r + (if j then 0 else int k)), out')) \<and> appended out out' (dotted ls)
      \<and> (ls = [] \<longrightarrow> out' = out)"
proof (induction arbitrary: j r out rule: name_at.induct)
  case (root i)
  note b = label_body_in(1) [OF p A root.hyps(1) refl root.prems root.hyps(2), of j r]
  with root.prems show ?case by (simp add: iterate_unfold(2) [where body = "label_body A buf n", OF b])
next
  case (pointer i ls k)
  have t: "word_at pkt i mod 0x4000 \<le> length pkt"
    using name_at_inside [OF pointer.hyps(3)] by simp
  have i: "i < length pkt" using pointer.hyps(1) by simp
  note b = label_body_in(2) [OF p A i refl pointer.prems pointer.hyps(2, 1) t, of j r]
  obtain out' where "iterate (label_body A buf n)
      \<lparr>ls_index = word_of_nat (word_at pkt i mod 0x4000), ls_jump = True,
       ls_ret = r + (if j then 0 else 2), ls_out = out\<rparr>
    = Some (Inr (Some (r + (if j then 0 else 2)), out'))" and "appended out out' (dotted ls)"
    and "ls = [] \<longrightarrow> out' = out"
    using pointer.IH [OF pointer.prems, of True "r + (if j then 0 else 2)"] by auto
  then show ?case
    unfolding iterate_unfold(3) [where body = "label_body A buf n", OF b] by (intro exI [of _ out']) simp
next
  case (label i l ls k)
  obtain o1 where b: "label_body A buf n \<lparr>ls_index = word_of_nat i, ls_jump = j, ls_ret = r, ls_out = out\<rparr>
      = Inr (Again \<lparr>ls_index = word_of_nat (i + l + 1), ls_jump = j,
          ls_ret = r + (if j then 0 else 1 + int l), ls_out = o1\<rparr>)"
    and a1: "appended out o1 (take l (drop (i + 1) pkt) @ ''.'')"
    using label_body_in(3) [OF p A label.hyps(1) refl label.prems, of j r] label.hyps(2-5) by auto
  obtain o2 where "iterate (label_body A buf n) \<lparr>ls_index = word_of_nat (i + l + 1), ls_jump = j,
          ls_ret = r + (if j then 0 else 1 + int l), ls_out = o1\<rparr>
      = Some (Inr (Some (r + (if j then 0 else 1 + int l) + (if j then 0 else int k)), o2))"
    and a2: "appended o1 o2 (dotted ls)"
    using label.IH [OF appendedD(1) [OF a1], of j "r + (if j then 0 else 1 + int l)"] by blast
  with appended_trans [OF a1 a2] show ?case
    unfolding iterate_unfold(3) [where body = "label_body A buf n", OF b] by (intro exI [of _ o2]) simp
qed

lemma index_not_greater:
  assumes p: "packet buf n pkt" and "i \<le> length pkt"
  shows "\<not> n < (word_of_nat i :: uint16)"
  using assms by (simp add: word_less_nat_alt unat_word_of_nat_packet [OF p] packet_def)

section \<open>Properties\<close>

text \<open>
  C7. Decompression is correct: where a packet holds a name with at least one label, however many
  compression pointers it goes through, \<open>getLabel\<close> returns, appends the labels joined by dots to
  its output buffer, and reports the number of octets the name occupies in place.
\<close>

theorem getLabel_denotes:
  assumes "packet buf n pkt" and "ample A" and "buf_inv out"
    and "name_at pkt i ls k" and "ls \<noteq> []"
  shows "\<exists>out'. getLabel A buf n (word_of_nat i) out = Some (Inr (word_of_nat k, out'))
    \<and> buf_inv out' \<and> content out' = content out @ join_on ''.'' ls"
proof -
  obtain o1 where loop: "iterate (label_body A buf n)
        \<lparr>ls_index = word_of_nat i, ls_jump = False, ls_ret = 0, ls_out = out\<rparr>
      = Some (Inr (Some (int k), o1))" and a: "appended out o1 (dotted ls)"
    using label_loop_name [OF assms(1, 2, 4, 3), of False 0] by auto
  have c: "content o1 = content out @ join_on ''.'' ls @ ''.''"
    using a dotted_join [OF assms(5)] by auto
  then obtain o2 where "delete_end o1 = Inr (0, o2)" and "buf_inv o2"
    and "content o2 = butlast (content o1)"
    using delete_end_spec(2) [of o1] a by auto
  with loop c index_not_greater [OF assms(1)] name_at_inside [OF assms(4)] show ?thesis
    by (simp add: getLabel_def butlast_append)
qed

theorem getLabel_denotes_witness:
  "\<exists>out'. getLabel \<lparr>al_grants = \<lambda>n. True, al_fill = \<lambda>n. NUL\<rparr>
      \<lparr>bindex = 7, blength = 7,
        bdata = Some [CHR 0x01, CHR ''b'', CHR 0x00, CHR 0x01, CHR ''a'', CHR 0xC0, CHR 0x00, NUL]\<rparr>
      7 (word_of_nat 3) \<lparr>bindex = 0, blength = 0, bdata = None\<rparr>
    = Some (Inr (word_of_nat 4, out')) \<and> buf_inv out' \<and> content out' = ''a.b''"
proof -
  let ?pkt = "[CHR 0x01, CHR ''b'', CHR 0x00, CHR 0x01, CHR ''a'', CHR 0xC0, CHR 0x00]"
  have b: "byte_at ?pkt 0 = 1" "byte_at ?pkt 2 = 0" "byte_at ?pkt 3 = 1" "byte_at ?pkt 5 = 192"
    "byte_at ?pkt 6 = 0"
    by (simp_all add: byte_at_def)
  have "name_at ?pkt 2 [] 1" by (rule name_at.root) (simp_all add: b)
  then have "name_at ?pkt 0 [''b''] 3"
    using name_at.label [of 0 ?pkt 1 "[]" 1] b by (simp add: numeral_eq_Suc)
  then have "name_at ?pkt 5 [''b''] 2"
    using name_at.pointer [of 5 ?pkt "[''b'']" 3] b by (simp add: word_at_def)
  then have "name_at ?pkt 3 [''a'', ''b''] 4"
    using name_at.label [of 3 ?pkt 1 "[''b'']" 2] b by simp
  then show ?thesis
    using getLabel_denotes [of "\<lparr>bindex = 7, blength = 7, bdata = Some (?pkt @ [NUL])\<rparr>" 7 ?pkt
        "\<lparr>al_grants = \<lambda>n. True, al_fill = \<lambda>n. NUL\<rparr>" "\<lparr>bindex = 0, blength = 0, bdata = None\<rparr>"
        3 "[''a'', ''b'']" 4]
    by (simp add: packet_def ample_def)
qed

text \<open>
  C10. A compression loop never ends: if every offset of a set holds a pointer to an offset of the
  set (the shortest is a pointer to itself), \<open>getLabel\<close> called at any of them does not return.
\<close>

theorem getLabel_pointer_loop:
  assumes p: "packet buf n pkt" and A: "ample A" and out: "buf_inv out" and i0: "i0 \<in> S"
    and loop: "\<forall>i\<in>S. Suc i < length pkt \<and> 0xC0 \<le> byte_at pkt i \<and> word_at pkt i mod 0x4000 \<in> S"
  shows "getLabel A buf n (word_of_nat i0) out = None"
proof -
  let ?P = "\<lambda>s :: label_state. ls_out s = out \<and> (\<exists>i\<in>S. ls_index s = word_of_nat i)"
  let ?s = "\<lparr>ls_index = word_of_nat i0, ls_jump = False, ls_ret = 0, ls_out = out\<rparr>"
  have "iterate (label_body A buf n) ?s = None"
  proof (rule iterate_diverges [where P = ?P])
    fix t assume "?P t"
    then obtain i where i: "i \<in> S" "ls_index t = word_of_nat i" "ls_out t = out" by auto
    then have *: "Suc i < length pkt" "0xC0 \<le> byte_at pkt i" "word_at pkt i mod 0x4000 \<in> S"
      using loop by blast+
    moreover from *(3) have "word_at pkt i mod 0x4000 \<le> length pkt"
      using loop by (meson Suc_lessD less_imp_le)
    moreover have "i < length pkt" using *(1) by simp
    moreover have "t = \<lparr>ls_index = word_of_nat i, ls_jump = ls_jump t, ls_ret = ls_ret t, ls_out = out\<rparr>"
      using i by simp
    ultimately have "label_body A buf n t = Inr (Again \<lparr>ls_index = word_of_nat (word_at pkt i mod 0x4000),
        ls_jump = True, ls_ret = ls_ret t + (if ls_jump t then 0 else 2), ls_out = out\<rparr>)"
      by (intro label_body_in(2) [OF p A _ _ out])
    with *(3) show "\<exists>t'. label_body A buf n t = Inr (Again t') \<and> ?P t'" by auto
  qed (use i0 in auto)
  moreover have "i0 \<le> length pkt" using i0 loop by fastforce
  ultimately show ?thesis
    using index_not_greater [OF p] by (simp add: getLabel_def)
qed

theorem getLabel_pointer_loop_witness:
  "getLabel \<lparr>al_grants = \<lambda>n. True, al_fill = \<lambda>n. NUL\<rparr>
     \<lparr>bindex = 2, blength = 2, bdata = Some [CHR 0xC0, CHR 0x00, NUL]\<rparr> 2 (word_of_nat 0)
     \<lparr>bindex = 0, blength = 0, bdata = None\<rparr> = None"
  by (rule getLabel_pointer_loop [where pkt = "[CHR 0xC0, CHR 0x00]" and S = "{0}"])
    (simp_all add: packet_def ample_def byte_at_def word_at_def)

lemma get8_returns:
  assumes "bdata buf = Some m" and "unat n \<le> length m"
  shows "\<exists>c. get8 buf n i = Inr c"
proof (cases "unat n \<le> unat i")
  case True
  then show ?thesis by (simp add: get8_out)
next
  case False
  with assms(2) have "int (unat i) < int (length m)" by linarith
  then have "uint i < int (length m)" unfolding uint_nat .
  with assms(1) show ?thesis by (simp add: get8_def mem_get_def)
qed

lemma append_raw_past_end:
  assumes A: "ample A" and b: "buf_inv b"
  shows "append_raw A b (Some []) 1 = Inl OutOfBounds"
proof -
  have "0 \<le> bindex b + 1" using bindex_nonneg [OF b] by simp
  from resize_inv [OF b this, of A] obtain s b' where "resize A b (bindex b + 1) = Inr (s, b')"
    and "0 \<le> s" and "bdata b' \<noteq> None"
    using A bindex_nonneg [OF b] by (auto split: if_splits)
  then show ?thesis by (auto simp: append_raw_def mem_slice_def)
qed

lemma label_bytes_overrun:
  assumes m: "bdata buf = Some m" "unat n \<le> length m" "length m < 65536" and A: "ample A"
  shows "i \<le> length m \<Longrightarrow> length m < i + l \<Longrightarrow> ls_index s = word_of_nat i \<Longrightarrow> buf_inv (ls_out s) \<Longrightarrow>
    label_bytes A buf n l s = Inl OutOfBounds"
proof (induction l arbitrary: i s)
  case (Suc l)
  have u: "unat (word_of_nat i :: uint16) = i"
    using Suc.prems(1) m(3) by (simp add: unat_of_nat take_bit_nat_eq_self)
  then obtain c where c: "get8 buf n (word_of_nat i) = Inr c"
    using get8_returns [OF m(1, 2)] by blast
  show ?case
  proof (cases "i = length m")
    case True
    with c m(1) u Suc.prems(3) append_raw_past_end [OF A Suc.prems(4)] show ?thesis by simp
  next
    case False
    with Suc.prems(1) have "1 \<le> length (drop i m)" by simp
    then obtain o1 where o1: "append_raw A (ls_out s) (Some (drop i m)) 1 = Inr (1, o1)"
      and "buf_inv o1"
      using append_raw_ok [OF A Suc.prems(4) zero_less_one, of "drop i m"]
      by (metis appendedD(1) of_nat_1)
    let ?s = "s\<lparr>ls_out := o1, ls_ret := ls_ret s + (if ls_jump s then 0 else 1),
        ls_index := word_of_nat (Suc i)\<rparr>"
    have "label_bytes A buf n (Suc l) s = label_bytes A buf n l ?s"
      using c m(1) u Suc.prems(3) o1 by (simp add: add.commute)
    moreover have "label_bytes A buf n l ?s = Inl OutOfBounds"
      using Suc.prems(1, 2) False \<open>buf_inv o1\<close> by (intro Suc.IH [of "Suc i"]) simp_all
    ultimately show ?thesis by simp
  qed
qed simp

lemma label_body_start:
  assumes p: "packet buf n pkt" and i: "i < length pkt"
    and b: "0 < byte_at pkt i" "byte_at pkt i < 0xC0"
  shows "label_body A buf n \<lparr>ls_index = word_of_nat i, ls_jump = j, ls_ret = r, ls_out = out\<rparr> =
    bindE (label_bytes A buf n (byte_at pkt i)
        \<lparr>ls_index = word_of_nat (Suc i), ls_jump = j, ls_ret = r + (if j then 0 else 1), ls_out = out\<rparr>)
      (\<lambda>s1. bindE (appendc A (ls_out s1) CHR ''.'') (\<lambda>(_, out). Inr (Again (s1\<lparr>ls_out := out\<rparr>))))"
proof -
  have u: "unat (word_of_nat (byte_at pkt i) :: uint8) = byte_at pkt i"
    by (simp add: unat_of_nat take_bit_nat_eq_self)
  then have "(word_of_nat (byte_at pkt i) :: uint8) \<noteq> 0" using b(1) by (metis less_irrefl unat_0)
  with u b(2) show ?thesis
    by (simp add: label_body_def get8_in [OF p i] pointer_bits word_of_nat_Suc del: of_nat_Suc)
qed

text \<open>
  A label whose length octet reaches past the received block makes \<open>getLabel\<close> read outside
  it: the out-of-range value of \<open>get8\<close> is discarded and the octets are copied all the same.
\<close>

theorem getLabel_overrun:
  assumes p: "packet buf n pkt" and m: "bdata buf = Some m" "length m < 65536"
    and A: "ample A" and out: "buf_inv out" and i: "i < length pkt"
    and b: "0 < byte_at pkt i" "byte_at pkt i < 0xC0" and over: "length m \<le> i + byte_at pkt i"
  shows "getLabel A buf n (word_of_nat i) out = Some (Inl OutOfBounds)"
proof -
  have le: "length pkt \<le> length m" and n: "unat n \<le> length m"
    using p m(1) by (auto simp: packet_def dest: prefix_length_le)
  have "label_bytes A buf n (byte_at pkt i)
      \<lparr>ls_index = word_of_nat (Suc i), ls_jump = False, ls_ret = 1, ls_out = out\<rparr> = Inl OutOfBounds"
    using label_bytes_overrun [OF m(1) n m(2) A, of "Suc i" "byte_at pkt i"] i le over out by simp
  then have *: "label_body A buf n
      \<lparr>ls_index = word_of_nat i, ls_jump = False, ls_ret = 0, ls_out = out\<rparr> = Inl OutOfBounds"
    by (simp add: label_body_start [OF p i b])
  show ?thesis
    using index_not_greater [OF p, of i] i
    by (simp add: getLabel_def iterate_unfold(1) [where body = "label_body A buf n", OF *])
qed

theorem getLabel_overrun_witness:
  "getLabel \<lparr>al_grants = \<lambda>n. True, al_fill = \<lambda>n. NUL\<rparr>
     \<lparr>bindex = 2, blength = 2, bdata = Some [CHR 0x05, CHR ''a'', NUL]\<rparr> 2 (word_of_nat 0)
     \<lparr>bindex = 0, blength = 0, bdata = None\<rparr> = Some (Inl OutOfBounds)"
  by (rule getLabel_overrun [where pkt = "[CHR 0x05, CHR ''a'']" and m = "[CHR 0x05, CHR ''a'', NUL]"])
    (simp_all add: packet_def ample_def byte_at_def)

text \<open>
  The root name: a name without labels decompresses to nothing, and \<open>getLabel\<close> then deletes
  the last character of an empty output buffer, a write in front of its block.
\<close>

theorem getLabel_root_underflow:
  assumes "packet buf n pkt" and "ample A" and "buf_inv out" and "name_at pkt i [] k"
    and "content out = []" and "bdata out \<noteq> None"
  shows "getLabel A buf n (word_of_nat i) out = Some (Inl OutOfBounds)"
proof -
  have loop: "iterate (label_body A buf n)
        \<lparr>ls_index = word_of_nat i, ls_jump = False, ls_ret = 0, ls_out = out\<rparr>
      = Some (Inr (Some (int k), out))"
    using label_loop_name [OF assms(1, 2, 4, 3), of False 0] by auto
  with delete_end_spec(1) [OF assms(3, 5, 6)] index_not_greater [OF assms(1)]
    name_at_inside [OF assms(4)] show ?thesis
    by (simp add: getLabel_def)
qed

text \<open>
  Rejection: an offset outside the packet and a pointer out of the packet make \<open>getLabel\<close>
  return \<open>-1\<close> (as an unsigned value) with nothing written to its output buffer.
\<close>

theorem getLabel_rejects:
  assumes p: "packet buf n pkt" and A: "ample A" and out: "buf_inv out"
    and bad: "n < i \<or> Suc (unat i) < length pkt \<and> 0xC0 \<le> byte_at pkt (unat i)
      \<and> length pkt < word_at pkt (unat i) mod 0x4000"
  shows "getLabel A buf n i out = Some (Inr (- 1, out))"
proof (cases "n < i")
  case False
  let ?s = "\<lparr>ls_index = i, ls_jump = False, ls_ret = 0, ls_out = out\<rparr>"
  let ?t = "word_at pkt (unat i) mod 0x4000"
  from False bad have *: "Suc (unat i) < length pkt" "0xC0 \<le> byte_at pkt (unat i)" "length pkt < ?t"
    by auto
  have i: "word_of_nat (unat i) = i" by simp
  have u: "unat (word_of_nat (byte_at pkt (unat i)) :: uint8) = byte_at pkt (unat i)"
    by (simp add: unat_of_nat take_bit_nat_eq_self)
  with *(2) have z: "(word_of_nat (byte_at pkt (unat i)) :: uint8) \<noteq> 0"
    by (metis le_zero_eq unat_0 zero_neq_numeral)
  have g8: "get8 buf n i = Inr (word_of_nat (byte_at pkt (unat i)))"
    using get8_in [OF p, of "unat i"] * i by simp
  have g16: "get16 buf n i = Inr (word_of_nat (word_at pkt (unat i)))"
    using get16_in [OF p *(1)] unfolding i word_at_def .
  have m: "(word_of_nat (word_at pkt (unat i)) AND 0x3FFF :: uint16) = word_of_nat ?t"
    by (simp add: pointer_mask unat_of_nat take_bit_nat_eq_self)
  have "unat (word_of_nat ?t :: uint16) = ?t"
    by (simp add: unat_of_nat take_bit_nat_eq_self)
  with *(3) p have "n < word_of_nat ?t" by (simp add: word_less_nat_alt packet_def)
  then have "label_body A buf n ?s = Inr (Leave (None, out))"
    using *(2) u z by (simp add: label_body_def g8 g16 m pointer_bits Let_def)
  then have "iterate (label_body A buf n) ?s = Some (Inr (None, out))"
    by (rule iterate_unfold(2) [where body = "label_body A buf n"])
  with False show ?thesis by (simp add: getLabel_def)
qed (simp add: getLabel_def)

theorem getLabel_rejects_witness:
  "getLabel \<lparr>al_grants = \<lambda>n. True, al_fill = \<lambda>n. NUL\<rparr>
     \<lparr>bindex = 2, blength = 2, bdata = Some [CHR 0xC0, CHR 0x09, NUL]\<rparr> 2 0
     \<lparr>bindex = 0, blength = 0, bdata = None\<rparr>
   = Some (Inr (- 1, \<lparr>bindex = 0, blength = 0, bdata = None\<rparr>))"
  by (rule getLabel_rejects [where pkt = "[CHR 0xC0, CHR 0x09]"])
    (simp_all add: packet_def ample_def byte_at_def word_at_def)

theorem getLabel_root_underflow_witness:
  "getLabel \<lparr>al_grants = \<lambda>n. True, al_fill = \<lambda>n. NUL\<rparr>
     \<lparr>bindex = 1, blength = 1, bdata = Some [NUL, NUL]\<rparr> 1 (word_of_nat 0)
     \<lparr>bindex = 0, blength = 1, bdata = Some [NUL, NUL]\<rparr> = Some (Inl OutOfBounds)"
  using name_at.root [of 0 "[NUL]"]
  by (intro getLabel_root_underflow [where pkt = "[NUL]" and k = 1])
    (simp_all add: packet_def ample_def byte_at_def buf_inv_def content_def)

end
