(* ===== verification/StdMap.thy ===== *)
theory StdMap
  imports Prelude
begin

text \<open>
  \<open>std::map\<close>: an association list in strictly ascending key order, which is also its iteration
  order. \<open>map_insert\<close> is \<open>std::map::insert\<close> (an existing entry stays), \<open>map_find\<close> is \<open>find\<close>,
  \<open>map_erase\<close> is \<open>erase\<close>. Strings compare as \<open>std::string\<close> does, byte by byte and unsigned.
\<close>

type_synonym ('k, 'v) std_map = "('k \<times> 'v) list"

fun map_find :: "('k, 'v) std_map \<Rightarrow> 'k \<Rightarrow> 'v option" where
  "map_find [] k = None"
| "map_find ((k', v) # m) k = (if k' = k then Some v else map_find m k)"

fun map_insert :: "'k::linorder \<Rightarrow> 'v \<Rightarrow> ('k, 'v) std_map \<Rightarrow> ('k, 'v) std_map" where
  "map_insert k v [] = [(k, v)]"
| "map_insert k v ((k', v') # m) =
     (if k < k' then (k, v) # (k', v') # m
      else if k = k' then (k', v') # m
      else (k', v') # map_insert k v m)"

fun map_erase :: "'k \<Rightarrow> ('k, 'v) std_map \<Rightarrow> ('k, 'v) std_map" where
  "map_erase k [] = []"
| "map_erase k ((k', v) # m) = (if k' = k then m else (k', v) # map_erase k m)"

text \<open>\<open>it->second = v\<close> through an iterator: only an existing entry changes.\<close>

fun map_set :: "'k \<Rightarrow> 'v \<Rightarrow> ('k, 'v) std_map \<Rightarrow> ('k, 'v) std_map" where
  "map_set k v [] = []"
| "map_set k v ((k', v') # m) = (if k' = k then (k', v) # m else (k', v') # map_set k v m)"

definition map_wf :: "('k::linorder, 'v) std_map \<Rightarrow> bool" where
  "map_wf m \<longleftrightarrow> sorted_wrt (<) (map fst m)"

lemma map_wf_simps [simp]:
  "map_wf []"
  "map_wf ((k, v) # m) \<longleftrightarrow> (\<forall>k' \<in> fst ` set m. k < k') \<and> map_wf m"
  by (auto simp: map_wf_def)

lemma map_find_iff: "map_wf m \<Longrightarrow> map_find m k = Some v \<longleftrightarrow> (k, v) \<in> set m"
proof (induction m)
  case (Cons e m)
  obtain a b where e: "e = (a, b)" by (cases e)
  with Cons.prems have "(a, x) \<notin> set m" for x by force
  with Cons e show ?case by auto
qed simp

lemma map_find_None: "map_find m k = None \<longleftrightarrow> k \<notin> fst ` set m"
  by (induction m k rule: map_find.induct) auto

lemma map_find_SomeD: "map_find m k = Some v \<Longrightarrow> (k, v) \<in> set m"
  by (induction m) (auto split: if_splits)

lemma keys_map_insert [simp]: "fst ` set (map_insert k v m) = insert k (fst ` set m)"
  by (induction k v m rule: map_insert.induct) auto

lemma keys_map_erase: "map_wf m \<Longrightarrow> fst ` set (map_erase k m) = fst ` set m - {k}"
  by (induction k m rule: map_erase.induct) force+

lemma keys_map_set [simp]: "fst ` set (map_set k v m) = fst ` set m"
  by (induction k v m rule: map_set.induct) auto

lemma map_wf_insert [simp]: "map_wf m \<Longrightarrow> map_wf (map_insert k v m)"
  by (induction k v m rule: map_insert.induct) auto

lemma map_wf_erase [simp]: "map_wf m \<Longrightarrow> map_wf (map_erase k m)"
  by (induction k m rule: map_erase.induct) (auto simp: keys_map_erase)

lemma map_wf_set [simp]: "map_wf m \<Longrightarrow> map_wf (map_set k v m)"
  by (induction k v m rule: map_set.induct) auto

lemma map_find_insert:
  "map_wf m \<Longrightarrow> map_find (map_insert k v m) k' =
     (if k' = k \<and> map_find m k = None then Some v else map_find m k')"
proof (induction k v m rule: map_insert.induct)
  case (2 k v k1 v1 m)
  have "k < k1 \<Longrightarrow> map_find m k = None"
    using "2.prems" by (force simp: map_find_None)
  with 2 show ?case by auto
qed auto

lemma map_find_erase:
  "map_wf m \<Longrightarrow> map_find (map_erase k m) k' = (if k' = k then None else map_find m k')"
proof (induction k m rule: map_erase.induct)
  case (2 k k1 v m)
  have "map_find m k1 = None"
    using "2.prems" by (force simp: map_find_None)
  with 2 show ?case by auto
qed auto

lemma map_find_set:
  "map_find (map_set k v m) k' =
     (if k' = k \<and> map_find m k \<noteq> None then Some v else map_find m k')"
  by (induction k v m rule: map_set.induct) auto

lemma map_erase_absent: "map_find m k = None \<Longrightarrow> map_erase k m = m"
  by (induction k m rule: map_erase.induct) (auto split: if_splits)

lemma map_insert_present: "map_wf m \<Longrightarrow> map_find m k \<noteq> None \<Longrightarrow> map_insert k v m = m"
proof (induction k v m rule: map_insert.induct)
  case (2 k v k1 v1 m)
  have "k < k1 \<Longrightarrow> map_find m k = None"
    using "2.prems" by (force simp: map_find_None)
  with 2 show ?case by (auto split: if_splits)
qed auto

lemma length_map_insert:
  "map_wf m \<Longrightarrow> length (map_insert k v m) = length m + (if map_find m k = None then 1 else 0)"
proof (induction k v m rule: map_insert.induct)
  case (2 k v k1 v1 m)
  have "k < k1 \<Longrightarrow> map_find m k = None"
    using "2.prems" by (force simp: map_find_None)
  with 2 show ?case by auto
qed auto

lemma length_map_set [simp]: "length (map_set k v m) = length m"
  by (induction k v m rule: map_set.induct) auto

lemma set_map_insert_subset: "set (map_insert k v m) \<subseteq> insert (k, v) (set m)"
  by (induction k v m rule: map_insert.induct) auto

lemma set_map_erase_subset: "set (map_erase k m) \<subseteq> set m"
  by (induction k m rule: map_erase.induct) auto

text \<open>The same as updates of the lookup function, for invariants stated over lookups.\<close>

lemma map_find_new: "map_wf m \<Longrightarrow> map_find m k = None \<Longrightarrow> map_find (map_insert k v m) = (map_find m)(k \<mapsto> v)"
  by (auto simp: fun_eq_iff map_find_insert)

lemma map_find_del: "map_wf m \<Longrightarrow> map_find (map_erase k m) = (map_find m)(k := None)"
  by (auto simp: fun_eq_iff map_find_erase)

lemma map_find_upd: "map_find m k = Some w \<Longrightarrow> map_find (map_set k v m) = (map_find m)(k \<mapsto> v)"
  by (auto simp: fun_eq_iff map_find_set)

section \<open>The registry interface\<close>

text \<open>
  What the servers rely on in the tables they keep: a lookup after an insert or a removal. The
  keys are compared by an equivalence \<open>eq\<close> (equality of strings in one server, \<open>boost::iequals\<close>
  in another). A table is interpreted on each server's own lookup, add and remove operations.
\<close>

locale registry =
  fixes get :: "'t \<Rightarrow> 'k \<Rightarrow> 'v option"
    and add :: "'k \<Rightarrow> 'v \<Rightarrow> 't \<Rightarrow> 't"
    and remove :: "'k \<Rightarrow> 't \<Rightarrow> 't"
    and eq :: "'k \<Rightarrow> 'k \<Rightarrow> bool"
    and ok :: "'t \<Rightarrow> bool"
  assumes eq_equiv: "equivp eq"
    and get_eq: "ok t \<Longrightarrow> eq k k' \<Longrightarrow> get t k = get t k'"
    and ok_add: "ok t \<Longrightarrow> ok (add k v t)"
    and ok_remove: "ok t \<Longrightarrow> ok (remove k t)"
    and get_add: "ok t \<Longrightarrow> get t k = None \<Longrightarrow> get (add k v t) k' = (if eq k k' then Some v else get t k')"
    and add_present: "ok t \<Longrightarrow> get t k \<noteq> None \<Longrightarrow> add k v t = t"
    and get_remove: "ok t \<Longrightarrow> get (remove k t) k' = (if eq k k' then None else get t k')"
begin

lemma get_add_same: "ok t \<Longrightarrow> get (add k v t) k = Some (case get t k of None \<Rightarrow> v | Some w \<Rightarrow> w)"
  using eq_equiv by (cases "get t k") (auto simp: get_add add_present equivp_reflp)

lemma get_add_other: "ok t \<Longrightarrow> \<not> eq k k' \<Longrightarrow> get (add k v t) k' = get t k'"
  by (cases "get t k") (auto simp: get_add add_present)

lemma remove_add: "ok t \<Longrightarrow> get t k = None \<Longrightarrow> get (remove k (add k v t)) k' = get t k'"
  using get_eq [of t k k'] by (auto simp: get_remove ok_add get_add)

lemma add_remove: "ok t \<Longrightarrow> get (add k v (remove k t)) k = Some v"
  using eq_equiv by (simp add: get_add ok_remove get_remove equivp_reflp)

lemma remove_commute: "ok t \<Longrightarrow> get (remove k (remove j t)) i = get (remove j (remove k t)) i"
  by (simp add: get_remove ok_remove)

end

end
