(* ===== verification/Writer.thy ===== *)
theory Writer
  imports Reader StdMap
begin

text \<open>
  \<open>Writer\<close> (flint/src/discovery/mdns/Writer.cpp): big-endian integers, character strings,
  addresses and domain names, appended to a buffer. Names are compressed against a cache of the
  names already written, from the dotted name to the offset it was written at.

  None of the functions looks at the status an append returns. The theorems are about an allocator
  that grants every request; \<open>refused_append_corrupts\<close> is what happens otherwise.
\<close>

section \<open>Integers and raw bytes\<close>

definition write_raw :: "allocator \<Rightarrow> buffer \<Rightarrow> string \<Rightarrow> uint8 \<Rightarrow> fault + buffer" where
  "write_raw A buf ptr len = bindE (append_raw A buf (Some ptr) (uint len)) (\<lambda>(_, b). Inr b)"

definition write8 :: "allocator \<Rightarrow> buffer \<Rightarrow> uint8 \<Rightarrow> fault + buffer" where
  "write8 A buf data = bindE (appenduc A buf data) (\<lambda>(_, b). Inr b)"

definition write16 :: "allocator \<Rightarrow> buffer \<Rightarrow> uint16 \<Rightarrow> fault + buffer" where
  "write16 A buf data =
     bindE (appenduc A buf (ucast (drop_bit 8 data AND 0xFF))) (\<lambda>(_, b).
     bindE (appenduc A b (ucast (data AND 0xFF))) (\<lambda>(_, b). Inr b))"

definition write32 :: "allocator \<Rightarrow> buffer \<Rightarrow> uint32 \<Rightarrow> fault + buffer" where
  "write32 A buf data =
     bindE (appenduc A buf (ucast (drop_bit 24 data AND 0xFF))) (\<lambda>(_, b).
     bindE (appenduc A b (ucast (drop_bit 16 data AND 0xFF))) (\<lambda>(_, b).
     bindE (appenduc A b (ucast (drop_bit 8 data AND 0xFF))) (\<lambda>(_, b).
     bindE (appenduc A b (ucast (data AND 0xFF))) (\<lambda>(_, b). Inr b))))"

definition replace8 :: "buffer \<Rightarrow> uint8 \<Rightarrow> uint32 \<Rightarrow> fault + buffer" where
  "replace8 buf data index = replace buf (sint index) (char_of_u8 data)"

definition replace16 :: "buffer \<Rightarrow> uint16 \<Rightarrow> uint32 \<Rightarrow> fault + buffer" where
  "replace16 buf data index =
     bindE (replace8 buf (ucast (drop_bit 8 data AND 0xFF)) index) (\<lambda>b.
     replace8 b (ucast (data AND 0xFF)) (index + 1))"

definition replace32 :: "buffer \<Rightarrow> uint32 \<Rightarrow> uint32 \<Rightarrow> fault + buffer" where
  "replace32 buf data index =
     bindE (replace16 buf (ucast (drop_bit 16 data AND 0xFFFF)) index) (\<lambda>b.
     replace16 b (ucast (data AND 0xFFFF)) (index + 2))"

section \<open>Addresses and strings\<close>

text \<open>\<open>boost::lexical_cast<int>\<close>: an optional sign and decimal digits, within 32 bits.\<close>

definition lexical_cast_int :: "string \<Rightarrow> int option" where
  "lexical_cast_int s =
     (let neg = (s \<noteq> [] \<and> hd s = CHR ''-'');
          ds = (if s \<noteq> [] \<and> hd s \<in> {CHR ''-'', CHR ''+''} then tl s else s);
          v = (if neg then - int (digits_value 0 ds) else int (digits_value 0 ds))
      in if ds \<noteq> [] \<and> (\<forall>c \<in> set ds. isdigit c) \<and> - (2 ^ 31) \<le> v \<and> v < 2 ^ 31
         then Some v else None)"

fun ip_loop :: "allocator \<Rightarrow> buffer \<Rightarrow> string list \<Rightarrow> fault + buffer" where
  "ip_loop A buf [] = Inr buf"
| "ip_loop A buf (e # es) =
     (case lexical_cast_int e of
        Some v \<Rightarrow> bindE (appenduc A buf (word_of_int v)) (\<lambda>(_, b). ip_loop A b es)
      | None \<Rightarrow> ip_loop A buf es)"

definition write_ip :: "allocator \<Rightarrow> buffer \<Rightarrow> string \<Rightarrow> fault + int \<times> buffer" where
  "write_ip A buf ip =
     (let vector = split_on CHR ''.'' ip
      in if length vector \<noteq> 4 then Inr (-1, buf)
         else bindE (ip_loop A buf vector) (\<lambda>b. Inr (4, b)))"

fun write_vector :: "allocator \<Rightarrow> buffer \<Rightarrow> string list \<Rightarrow> fault + int \<times> buffer" where
  "write_vector A buf [] = Inr (0, buf)"
| "write_vector A buf (s # ss) =
     bindE (strlen (c_str s)) (\<lambda>l.
     let len = word_of_int l :: uint8
     in bindE (write8 A buf len) (\<lambda>b.
        bindE (write_raw A b (c_str s) len) (\<lambda>b'.
        bindE (write_vector A b' ss) (\<lambda>(r, b''). Inr (1 + uint len + r, b'')))))"

section \<open>Names\<close>

type_synonym name_cache = "(string, uint16) std_map"

fun cache_loop :: "name_cache \<Rightarrow> string \<Rightarrow> uint16 \<Rightarrow> name_cache \<Rightarrow> name_cache" where
  "cache_loop cache label index [] = cache"
| "cache_loop cache label index ((k, v) # it) =
     (if k \<noteq> label then map_insert label index cache else cache_loop cache label index it)"

definition cache_label :: "name_cache \<Rightarrow> string \<Rightarrow> uint16 \<Rightarrow> name_cache" where
  "cache_label cache label index =
     (if length cache = 0 then map_insert label index cache
      else cache_loop cache label index cache)"

definition name_pointer :: "uint16 \<Rightarrow> uint16" where
  "name_pointer index = (0 OR index) OR push_bit 8 0xC0"

fun write_label_loop ::
  "allocator \<Rightarrow> buffer \<Rightarrow> string list \<Rightarrow> string \<Rightarrow> name_cache \<Rightarrow> int
    \<Rightarrow> fault + int \<times> buffer \<times> name_cache" where
  "write_label_loop A buf [] remain cache ret_len =
     (case map_find cache remain of
        Some index \<Rightarrow>
          bindE (write16 A buf (name_pointer index)) (\<lambda>b. Inr (ret_len + 2, b, cache))
      | None \<Rightarrow> bindE (write8 A buf 0) (\<lambda>b. Inr (ret_len + 1, b, cache)))"
| "write_label_loop A buf (head # elems) remain cache ret_len =
     (case map_find cache remain of
        Some index \<Rightarrow>
          bindE (write16 A buf (name_pointer index)) (\<lambda>b. Inr (ret_len + 2, b, cache))
      | None \<Rightarrow>
          (let cache' = cache_label cache remain (word_of_int (bindex buf))
           in bindE (strlen (c_str head)) (\<lambda>len.
              bindE (write8 A buf (word_of_int len)) (\<lambda>b.
              bindE (write_raw A b (c_str head) (word_of_int len)) (\<lambda>b'.
              write_label_loop A b' elems (join_on ''.'' elems) cache' (ret_len + 1 + len))))))"

definition write_label ::
  "allocator \<Rightarrow> buffer \<Rightarrow> string \<Rightarrow> name_cache \<Rightarrow> fault + int \<times> buffer \<times> name_cache" where
  "write_label A buf label cache =
     write_label_loop A buf (split_on CHR ''.'' label) label cache 0"

section \<open>Appenders\<close>

text \<open>
  The contract of a writer whose output depends on its argument alone: it appends the argument's
  encoding. The composer's clients are sequences of such writes.
\<close>

locale appender =
  fixes emit :: "allocator \<Rightarrow> buffer \<Rightarrow> 'a \<Rightarrow> fault + buffer"
    and enc :: "'a \<Rightarrow> string"
  assumes appends: "ample A \<Longrightarrow> buf_inv b \<Longrightarrow> \<exists>b'. emit A b x = Inr b' \<and> appended b b' (enc x)"
begin

lemma emit_ok:
  assumes "ample A" and "buf_inv b"
  obtains b' where "emit A b x = Inr b'" and "appended b b' (enc x)"
  using appends [OF assms, of x] by blast

lemma emit_all:
  "ample A \<Longrightarrow> buf_inv b \<Longrightarrow>
   \<exists>b'. foldE (emit A) b xs = Inr b' \<and> appended b b' (concat (map enc xs))"
proof (induction xs arbitrary: b)
  case (Cons x xs)
  obtain b1 where 1: "emit A b x = Inr b1" "appended b b1 (enc x)"
    using emit_ok [OF Cons.prems, of x] .
  with Cons.IH [OF Cons.prems(1), of b1] obtain b2 where
    "foldE (emit A) b1 xs = Inr b2" "appended b1 b2 (concat (map enc xs))" by blast
  with 1 appended_trans [OF 1(2)] show ?case by auto
qed simp

end

definition be16 :: "uint16 \<Rightarrow> string" where
  "be16 w = [char_of_u8 (ucast (drop_bit 8 w AND 0xFF)), char_of_u8 (ucast (w AND 0xFF))]"

definition be32 :: "uint32 \<Rightarrow> string" where
  "be32 w = [char_of_u8 (ucast (drop_bit 24 w AND 0xFF)), char_of_u8 (ucast (drop_bit 16 w AND 0xFF)),
     char_of_u8 (ucast (drop_bit 8 w AND 0xFF)), char_of_u8 (ucast (w AND 0xFF))]"

interpretation uc: appender "\<lambda>A b w. bindE (appenduc A b w) (\<lambda>(_, b'). Inr b')" "\<lambda>w. [char_of_u8 w]"
proof unfold_locales
  fix A b and w :: uint8
  assume "ample A" and "buf_inv b"
  then show "\<exists>b'. bindE (appenduc A b w) (\<lambda>(_, b'). Inr b') = Inr b' \<and> appended b b' [char_of_u8 w]"
    by (rule appenduc_ok [where w = w]) auto
qed

interpretation w8: appender write8 "\<lambda>w. [char_of_u8 w]"
  using uc.appends by unfold_locales (simp add: write8_def)

lemma write16_chain: "write16 A b w =
    foldE (\<lambda>b w. bindE (appenduc A b w) (\<lambda>(_, b'). Inr b')) b
      [ucast (drop_bit 8 w AND 0xFF), ucast (w AND 0xFF)]"
  by (simp add: write16_def bindE_assoc split_def)

lemma write32_chain: "write32 A b w =
    foldE (\<lambda>b w. bindE (appenduc A b w) (\<lambda>(_, b'). Inr b')) b
      [ucast (drop_bit 24 w AND 0xFF), ucast (drop_bit 16 w AND 0xFF),
       ucast (drop_bit 8 w AND 0xFF), ucast (w AND 0xFF)]"
  by (simp add: write32_def bindE_assoc split_def)

interpretation w16: appender write16 be16
proof unfold_locales
  fix A b and w :: uint16
  assume "ample A" and "buf_inv b"
  from uc.emit_all [OF this, of "[ucast (drop_bit 8 w AND 0xFF), ucast (w AND 0xFF)]"]
  show "\<exists>b'. write16 A b w = Inr b' \<and> appended b b' (be16 w)"
    unfolding write16_chain be16_def by simp
qed

interpretation w32: appender write32 be32
proof unfold_locales
  fix A b and w :: uint32
  assume "ample A" and "buf_inv b"
  from uc.emit_all [OF this, of "[ucast (drop_bit 24 w AND 0xFF), ucast (drop_bit 16 w AND 0xFF),
       ucast (drop_bit 8 w AND 0xFF), ucast (w AND 0xFF)]"]
  show "\<exists>b'. write32 A b w = Inr b' \<and> appended b b' (be32 w)"
    unfolding write32_chain be32_def by simp
qed

lemma length_be16 [simp]: "length (be16 w) = 2"
  by (simp add: be16_def)

lemma length_be32 [simp]: "length (be32 w) = 4"
  by (simp add: be32_def)

lemma octet_of: "unat (ucast (drop_bit k w AND 0xFF) :: uint8) = unat w div 2 ^ k mod 256"
  for w :: "'a::len word"
proof -
  have "drop_bit k w AND 0xFF = take_bit 8 (drop_bit k w)"
    by (simp only: take_bit_eq_mask mask_eq_exp_minus_1) simp
  moreover have "unat (ucast (take_bit 8 (drop_bit k w)) :: uint8) = unat w div 2 ^ k mod 256"
    by (simp only: unsigned_ucast_eq unsigned_take_bit_eq unsigned_drop_bit_eq)
      (simp add: take_bit_eq_mod drop_bit_eq_div)
  ultimately show ?thesis by simp
qed

lemma octet_of_0: "unat (ucast (w AND 0xFF) :: uint8) = unat w mod 256"
  for w :: "'a::len word"
  using octet_of [of 0 w] by simp

lemma byte_at_shift: "byte_at (xs @ ys) (length xs + k) = byte_at ys k"
  by (simp add: byte_at_def nth_append)

lemma be16_bytes: "byte_at (be16 w @ ys) 0 = unat w div 256 mod 256"
    "byte_at (be16 w @ ys) 1 = unat w mod 256"
  using octet_of [of 8 w] octet_of_0 [of w] unfolding byte_at_def be16_def by simp_all

lemma be32_bytes: "byte_at (be32 w @ ys) 0 = unat w div 16777216 mod 256"
    "byte_at (be32 w @ ys) 1 = unat w div 65536 mod 256"
    "byte_at (be32 w @ ys) 2 = unat w div 256 mod 256"
    "byte_at (be32 w @ ys) 3 = unat w mod 256"
  using octet_of [of 24 w] octet_of [of 16 w] octet_of [of 8 w] octet_of_0 [of w]
  unfolding byte_at_def be32_def by simp_all

lemma word_at_be16: "word_at (xs @ be16 w @ ys) (length xs) = unat w"
proof -
  have "unat w < 65536" using unsigned_less [of w, where ?'a = nat] by simp
  then have "unat w div 256 < 256" by (simp add: less_mult_imp_div_less)
  then have "unat w div 256 mod 256 * 256 + unat w mod 256 = unat w" by simp
  then show ?thesis
    using byte_at_shift [of xs "be16 w @ ys" 0] byte_at_shift [of xs "be16 w @ ys" 1]
    by (simp add: word_at_def be16_bytes be16_bytes [unfolded One_nat_def])
qed

lemma be32_halves:
  "word_at (xs @ be32 w @ ys) (length xs) = unat w div 65536"
  "word_at (xs @ be32 w @ ys) (length xs + 2) = unat w mod 65536"
proof -
  have u: "unat w < 4294967296" using unsigned_less [of w, where ?'a = nat] by simp
  have q: "unat w div 16777216 = unat w div 65536 div 256" by (simp flip: div_mult2_eq)
  have "unat w div 65536 < 256 * 256" using u by (simp add: less_mult_imp_div_less)
  then have "unat w div 65536 div 256 < 256" by (simp only: less_mult_imp_div_less)
  then have a: "unat w div 16777216 mod 256 * 256 + unat w div 65536 mod 256 = unat w div 65536"
    unfolding q by (simp only: mod_less div_mult_mod_eq)
  have b: "unat w div 256 mod 256 * 256 + unat w mod 256 = unat w mod 65536"
    using mod_mult2_eq [of "unat w" 256 256] by simp
  note s = byte_at_shift [of xs "be32 w @ ys"]
  show "word_at (xs @ be32 w @ ys) (length xs) = unat w div 65536"
    using s [of 0] s [of 1] by (simp only: word_at_def be32_bytes add_0_right Suc_eq_plus1 a)
  have "Suc (length xs + 2) = length xs + 3" by simp
  then show "word_at (xs @ be32 w @ ys) (length xs + 2) = unat w mod 65536"
    by (simp only: word_at_def s [of 2] s [of 3] be32_bytes b)
qed

section \<open>What a buffer holds is a packet\<close>

lemma packet_content:
  assumes "buf_inv b" and "bdata b \<noteq> None" and "length (content b) < 65536"
  shows "packet b (word_of_nat (length (content b))) (content b)"
proof -
  obtain m where m: "bdata b = Some m" using assms(2) by auto
  have "prefix (content b) m" using block_content [OF assms(1) m] by auto
  with m assms(3) show ?thesis
    by (simp add: packet_def unat_of_nat take_bit_nat_eq_self)
qed

lemma content_alloc: "content b \<noteq> [] \<Longrightarrow> bdata b \<noteq> None"
  by (cases "bdata b") (auto simp: content_def)

end
