(* ===== verification/NameCodec.thy ===== *)
theory NameCodec
  imports Writer
begin

text \<open>
  Compressed domain names, written by \<open>Writer::write_label\<close> and read by \<open>Reader::getLabel\<close>: the
  cache of written names stays truthful, what is written is a name in the sense of \<open>name_at\<close>, and
  reading it gives the name back.
\<close>

section \<open>Names under extension of the packet\<close>

lemma byte_at_append [simp]: "i < length pkt \<Longrightarrow> byte_at (pkt @ xs) i = byte_at pkt i"
  by (simp add: byte_at_def nth_append)

lemma word_at_append [simp]: "Suc i < length pkt \<Longrightarrow> word_at (pkt @ xs) i = word_at pkt i"
  by (simp add: word_at_def)

lemma name_at_append: "name_at pkt i ls k \<Longrightarrow> name_at (pkt @ xs) i ls k"
proof (induction rule: name_at.induct)
  case (root i)
  then show ?case by (intro name_at.root) simp_all
next
  case (pointer i ls k)
  then show ?case by (intro name_at.pointer [of i _ ls k]) simp_all
next
  case (label i l ls k)
  then have "take l (drop (i + 1) (pkt @ xs)) = take l (drop (i + 1) pkt)" by simp
  with label name_at.label [of i "pkt @ xs" l ls k] show ?case by simp
qed

text \<open>The three ways a name is put behind what is there already.\<close>

lemma name_at_put_root: "name_at (pkt @ [NUL] @ xs) (length pkt) [] 1"
  by (rule name_at.root) (simp_all add: byte_at_def nth_append)

lemma name_at_put_label:
  assumes "name_at (pkt @ [c] @ l @ xs) (length pkt + 1 + length l) ls k"
    and "of_char c = length l" and "0 < length l" and "length l < 0xC0"
  shows "name_at (pkt @ [c] @ l @ xs) (length pkt) (l # ls) (k + length l + 1)"
proof -
  have b: "byte_at (pkt @ [c] @ l @ xs) (length pkt) = length l"
    using assms(2) by (simp add: byte_at_def nth_append)
  have "length pkt + length l < length (pkt @ [c] @ l @ xs)" by simp
  with name_at.label [of "length pkt" "pkt @ [c] @ l @ xs" "length l" ls k] b assms
  show ?thesis by simp
qed

lemma name_pointer_eq: "unat i < 0x4000 \<Longrightarrow> unat (name_pointer i) = 0xC000 + unat i"
proof -
  assume i: "unat i < 0x4000"
  then have "i < 0x4000" by (simp add: word_less_nat_alt)
  then have "name_pointer i = i + 0xC000" by (simp add: name_pointer_def pointer_or)
  with i show ?thesis by (simp add: unat_word_ariths)
qed

lemma name_at_put_pointer:
  assumes "name_at pkt (unat i) ls k" and "unat i < 0x4000"
  shows "name_at (pkt @ be16 (name_pointer i) @ xs) (length pkt) ls 2"
proof (rule name_at.pointer)
  let ?p = "pkt @ be16 (name_pointer i) @ xs"
  have w: "word_at ?p (length pkt) = 0xC000 + unat i"
    by (simp add: word_at_be16 name_pointer_eq [OF assms(2)])
  have e: "(0xC000 :: nat) = 3 * 0x4000" by simp
  have "word_at ?p (length pkt) mod 0x4000 = unat i"
    unfolding w e using assms(2) by (simp only: mod_mult_self3 mod_less)
  then show "name_at ?p (word_at ?p (length pkt) mod 0x4000) ls k"
    using name_at_append [OF assms(1)] by simp
  have "byte_at ?p (length pkt) = (0xC000 + unat i) div 256 mod 256"
    using byte_at_shift [of pkt "be16 (name_pointer i) @ xs" 0] be16_bytes(1)
    by (simp add: name_pointer_eq [OF assms(2)])
  moreover have "(0xC000 + unat i) div 256 = 0xC0 + unat i div 256" by simp
  moreover have "unat i div 256 < 64" using assms(2) by (simp add: less_mult_imp_div_less)
  ultimately show "0xC0 \<le> byte_at ?p (length pkt)" by simp
qed simp

section \<open>The cache of written names\<close>

lemma cache_loop_eq:
  "map_wf cache \<Longrightarrow> cache_loop cache label i it =
     (if \<exists>e \<in> set it. fst e \<noteq> label then map_insert label i cache else cache)"
  by (induction cache label i it rule: cache_loop.induct) auto

lemma cache_label_eq:
  assumes "map_wf cache"
  shows "cache_label cache label i = map_insert label i cache"
proof (cases "cache = [] \<or> (\<exists>e \<in> set cache. fst e \<noteq> label)")
  case True
  with assms show ?thesis by (auto simp: cache_label_def cache_loop_eq)
next
  case False
  then obtain e es where c: "cache = e # es" and "fst e = label" by (cases cache) auto
  then have "map_find cache label \<noteq> None" by (cases e) simp
  with assms False c show ?thesis
    by (simp add: cache_label_def cache_loop_eq map_insert_present)
qed

text \<open>
  \<open>cached pkt s i\<close>: offset \<open>i\<close> can be named by a pointer and holds the name \<open>s\<close>.
\<close>

definition cached :: "string \<Rightarrow> string \<Rightarrow> uint16 \<Rightarrow> bool" where
  "cached pkt s i \<longleftrightarrow> unat i < 0x4000 \<and> s \<noteq> [] \<and> (\<exists>k. name_at pkt (unat i) (split_on CHR ''.'' s) k)"

definition cache_ok :: "string \<Rightarrow> name_cache \<Rightarrow> bool" where
  "cache_ok pkt cache \<longleftrightarrow> map_wf cache \<and> (\<forall>s i. map_find cache s = Some i \<longrightarrow> cached pkt s i)"

lemma cached_append: "cached pkt s i \<Longrightarrow> cached (pkt @ xs) s i"
  by (auto simp: cached_def intro: name_at_append)

lemma cache_ok_append: "cache_ok pkt cache \<Longrightarrow> cache_ok (pkt @ xs) cache"
  by (auto simp: cache_ok_def intro: cached_append)

lemma cache_ok_Nil [simp]: "cache_ok pkt []"
  by (simp add: cache_ok_def)

section \<open>Writing a name\<close>

definition good_label :: "string \<Rightarrow> bool" where
  "good_label l \<longleftrightarrow> 0 < length l \<and> length l < 64 \<and> NUL \<notin> set l \<and> CHR ''.'' \<notin> set l"

definition good_name :: "string \<Rightarrow> bool" where
  "good_name s \<longleftrightarrow> (\<forall>l \<in> set (split_on CHR ''.'' s). good_label l)"

definition name_size :: "string list \<Rightarrow> nat" where
  "name_size ls = sum_list (map (\<lambda>l. length l + 1) ls) + 1"

lemma name_size_simps [simp]: "name_size [] = 1" "name_size (l # ls) = length l + 1 + name_size ls"
  by (simp_all add: name_size_def)

lemma name_size_pos: "0 < name_size ls"
  by (simp add: name_size_def)

lemma name_size_split: "name_size (split_on CHR ''.'' s) = length s + 2"
  using length_join_on [of "split_on CHR ''.'' s" "CHR ''.''"] by (simp add: name_size_def)

text \<open>Writing the length octet and the octets of one good label.\<close>

lemma write_one_label:
  assumes A: "ample A" and b: "buf_inv b" and l: "good_label l"
  obtains b1 b2 c where "strlen (c_str l) = Inr (int (length l))"
    and "write8 A b (word_of_int (int (length l))) = Inr b1"
    and "write_raw A b1 (c_str l) (word_of_int (int (length l))) = Inr b2"
    and "appended b b2 ([c] @ l)" and "of_char c = length l"
proof -
  from l have s: "strlen (c_str l) = Inr (int (length l))"
    by (simp add: cstr_id good_label_def)
  obtain b1 where b1: "write8 A b (word_of_int (int (length l))) = Inr b1"
    and a1: "appended b b1 [char_of_u8 (word_of_int (int (length l)))]"
    using w8.emit_ok [OF A b] .
  have c: "of_char (char_of_u8 (word_of_int (int (length l)))) = length l"
    using l by (simp add: good_label_def unat_of_nat take_bit_nat_eq_self)
  have n: "0 < length l" "length l \<le> length (c_str l)"
    using l by (simp_all add: good_label_def c_str_def)
  obtain b2 where b2: "append_raw A b1 (Some (c_str l)) (int (length l)) = Inr (int (length l), b2)"
    and a2: "appended b1 b2 (take (length l) (c_str l))"
    using append_raw_ok [OF A appendedD(1) [OF a1] n] .
  have "uint (word_of_int (int (length l)) :: uint8) = int (length l)"
    using l by (simp add: good_label_def unsigned_of_nat take_bit_nat_eq_self)
  with b2 have "write_raw A b1 (c_str l) (word_of_int (int (length l))) = Inr b2"
    by (simp add: write_raw_def)
  moreover have "appended b b2 ([char_of_u8 (word_of_int (int (length l)))] @ l)"
    using appended_trans [OF a1 a2] by (simp add: c_str_def)
  ultimately show thesis using that [OF s b1] c by blast
qed

lemma word_of_bindex:
  assumes "buf_inv b" and "length (content b) < 65536"
  shows "unat (word_of_int (bindex b) :: uint16) = length (content b)"
  using assms by (simp add: bindex_content unat_of_nat take_bit_nat_eq_self)

text \<open>
  What is appended depends on what is already there through its length alone, so the lemmas speak
  of any view \<open>v\<close> of the earlier octets of that length: the composer patches a length field in
  front of a name after the name is written.
\<close>

lemma write_label_loop_hit:
  assumes A: "ample A" and b: "buf_inv b" and hit: "map_find cache remain = Some i"
    and i: "name_at v (unat i) elems k" "unat i < 0x4000"
  shows "\<exists>b'. write_label_loop A b elems remain cache ret = Inr (ret + 2, b', cache)
    \<and> appended b b' (be16 (name_pointer i)) \<and> name_at (v @ be16 (name_pointer i)) (length v) elems 2"
proof -
  obtain b' where b': "write16 A b (name_pointer i) = Inr b'" and a: "appended b b' (be16 (name_pointer i))"
    using w16.emit_ok [OF A b] .
  have "name_at (v @ be16 (name_pointer i)) (length v) elems 2"
    using name_at_put_pointer [OF i, of "[]"] by simp
  with b' a hit show ?thesis by (cases elems) auto
qed

lemma write_label_loop_spec:
  assumes A: "ample A"
  shows "buf_inv b \<Longrightarrow> map_wf cache \<Longrightarrow> \<forall>l \<in> set elems. good_label l \<Longrightarrow>
    remain = join_on ''.'' elems \<Longrightarrow> length v = length (content b) \<Longrightarrow>
    \<forall>s i. map_find cache s = Some i \<longrightarrow> length remain < length s \<or> cached v s i \<Longrightarrow>
    length v + name_size elems \<le> 0x4000 \<Longrightarrow>
    \<exists>xs b' cache'. write_label_loop A b elems remain cache ret = Inr (ret + int (length xs), b', cache')
      \<and> appended b b' xs \<and> length xs \<le> name_size elems
      \<and> name_at (v @ xs) (length v) elems (length xs) \<and> map_wf cache'
      \<and> (\<forall>s i. map_find cache' s = Some i \<longrightarrow> map_find cache s = Some i \<or> cached (v @ xs) s i)"
proof (induction elems arbitrary: b v remain cache ret)
  case Nil
  have f: "map_find cache remain = None"
  proof (rule ccontr)
    assume "map_find cache remain \<noteq> None"
    with Nil.prems(4, 6) show False by (auto simp: cached_def)
  qed
  obtain b' where b': "write8 A b 0 = Inr b'" and a: "appended b b' [char_of_u8 0]"
    using w8.emit_ok [OF A Nil.prems(1)] .
  have "name_at (v @ [NUL]) (length v) [] 1"
    using name_at_put_root [of v "[]"] by simp
  with f b' a Nil.prems(2) show ?case by (intro exI [of _ "[NUL]"]) simp
next
  case (Cons l elems)
  have ne: "remain \<noteq> []" and spl: "split_on CHR ''.'' remain = l # elems"
    using Cons.prems(3, 4) split_join [of "l # elems" "CHR ''.''"]
    by (cases elems; auto simp: good_label_def join_on_Cons)+
  show ?case
  proof (cases "map_find cache remain")
    case (Some i)
    with Cons.prems(6) have "cached v remain i" by auto
    then obtain k where i: "name_at v (unat i) (l # elems) k" "unat i < 0x4000"
      by (auto simp: cached_def spl)
    obtain b' where "write_label_loop A b (l # elems) remain cache ret = Inr (ret + 2, b', cache)"
      and "appended b b' (be16 (name_pointer i))"
      and "name_at (v @ be16 (name_pointer i)) (length v) (l # elems) 2"
      using write_label_loop_hit [OF A Cons.prems(1) Some i] by blast
    moreover have "2 \<le> name_size (l # elems)" using name_size_pos [of elems] by simp
    ultimately show ?thesis using Cons.prems(2)
      by (intro exI [of _ "be16 (name_pointer i)"] exI [of _ b'] exI [of _ cache]) simp
  next
    case None
    let ?i = "word_of_int (bindex b) :: uint16"
    let ?c = "map_insert remain ?i cache"
    have lt: "length v < 0x4000" using Cons.prems(7) name_size_pos [of elems] by simp
    then have ui: "unat ?i = length v" using word_of_bindex [OF Cons.prems(1)] Cons.prems(5) by simp
    have gl: "good_label l" using Cons.prems(3) by simp
    obtain b1 b2 c where w: "strlen (c_str l) = Inr (int (length l))"
      "write8 A b (word_of_int (int (length l))) = Inr b1"
      "write_raw A b1 (c_str l) (word_of_int (int (length l))) = Inr b2"
      and a2: "appended b b2 ([c] @ l)" and c: "of_char c = length l"
      using write_one_label [OF A Cons.prems(1) gl] .
    let ?v = "v @ [c] @ l"
    have lv: "length ?v = length (content b2)" using a2 Cons.prems(5) by auto
    have shorter: "length (join_on ''.'' elems) < length remain"
      using gl Cons.prems(4) by (cases elems) (auto simp: good_label_def)
    have pre: "\<forall>s i. map_find ?c s = Some i \<longrightarrow>
        length (join_on ''.'' elems) < length s \<or> cached ?v s i"
      using Cons.prems(2, 6) shorter None cached_append [of v _ _ "[c] @ l"]
      by (fastforce simp: map_find_insert split: if_splits)
    have "length ?v + name_size elems \<le> 0x4000" using Cons.prems(7) by simp
    from Cons.IH [OF appendedD(1) [OF a2] map_wf_insert [OF Cons.prems(2)] _ refl lv pre this,
        of "ret + 1 + int (length l)"] Cons.prems(3)
    obtain xs b' cache' where r: "write_label_loop A b2 elems (join_on ''.'' elems) ?c (ret + 1 + int (length l))
        = Inr (ret + 1 + int (length l) + int (length xs), b', cache')"
      and a': "appended b2 b' xs" and le: "length xs \<le> name_size elems"
      and n: "name_at (?v @ xs) (length ?v) elems (length xs)" and wf: "map_wf cache'"
      and new: "\<forall>s i. map_find cache' s = Some i \<longrightarrow> map_find ?c s = Some i \<or> cached (?v @ xs) s i"
      by auto
    let ?xs = "[c] @ l @ xs"
    have name: "name_at (v @ ?xs) (length v) (l # elems) (length xs + length l + 1)"
      using name_at_put_label [of v c l xs elems "length xs"] n c gl
      by (simp add: good_label_def algebra_simps)
    have cd: "cached (v @ ?xs) remain ?i"
      using name ui lt ne spl by (auto simp: cached_def)
    have "\<forall>s i. map_find cache' s = Some i \<longrightarrow> map_find cache s = Some i \<or> cached (v @ ?xs) s i"
      using new cd Cons.prems(2) None by (auto simp: map_find_insert split: if_splits)
    moreover have "write_label_loop A b (l # elems) remain cache ret
        = Inr (ret + int (length ?xs), b', cache')"
      using None w r by (simp add: cache_label_eq [OF Cons.prems(2)] algebra_simps)
    ultimately show ?thesis
      using appended_trans [OF a2 a'] le name wf
      by (intro exI [of _ ?xs] exI [of _ b'] exI [of _ cache']) (simp add: algebra_simps)
  qed
qed

lemma write_label_view:
  assumes "ample A" and "buf_inv b" and "length v = length (content b)" and "cache_ok v cache"
    and "good_name label" and "length v + length label + 2 \<le> 0x4000"
  obtains xs b' cache' where "write_label A b label cache = Inr (int (length xs), b', cache')"
    and "appended b b' xs" and "length xs \<le> length label + 2"
    and "name_at (v @ xs) (length v) (split_on CHR ''.'' label) (length xs)"
    and "cache_ok (v @ xs) cache'"
proof -
  have "map_wf cache" and ok: "\<forall>s i. map_find cache s = Some i \<longrightarrow> cached v s i"
    using assms(4) by (auto simp: cache_ok_def)
  then obtain xs b' cache' where w: "write_label A b label cache = Inr (int (length xs), b', cache')"
    "appended b b' xs" "length xs \<le> length label + 2"
    "name_at (v @ xs) (length v) (split_on CHR ''.'' label) (length xs)"
    and wf: "map_wf cache'"
    and new: "\<forall>s i. map_find cache' s = Some i \<longrightarrow> map_find cache s = Some i \<or> cached (v @ xs) s i"
    using write_label_loop_spec [OF assms(1, 2), of cache "split_on CHR ''.'' label" label v 0] assms(3-6)
    by (auto simp: write_label_def good_name_def name_size_split)
  have "cached (v @ xs) s i" if "map_find cache s = Some i" for s i
    using ok that cached_append [of v s i xs] by auto
  with new wf have "cache_ok (v @ xs) cache'" by (auto simp: cache_ok_def)
  with that w show thesis by blast
qed

lemma write_label_spec:
  assumes "ample A" and "buf_inv b" and "cache_ok (content b) cache" and "good_name label"
    and "length (content b) + length label + 2 \<le> 0x4000"
  obtains xs b' cache' where "write_label A b label cache = Inr (int (length xs), b', cache')"
    and "appended b b' xs" and "length xs \<le> length label + 2"
    and "name_at (content b') (length (content b)) (split_on CHR ''.'' label) (length xs)"
    and "cache_ok (content b') cache'"
proof -
  obtain xs b' cache' where w: "write_label A b label cache = Inr (int (length xs), b', cache')"
    "appended b b' xs" "length xs \<le> length label + 2"
    "name_at (content b @ xs) (length (content b)) (split_on CHR ''.'' label) (length xs)"
    "cache_ok (content b @ xs) cache'"
    using write_label_view [OF assms(1, 2) refl assms(3-5)] .
  from w(2) have "content b' = content b @ xs" by auto
  with w that show thesis by simp
qed

section \<open>Round trips\<close>

lemma getLabel_of_name:
  assumes A: "ample A" and b: "buf_inv b" and n: "name_at (content b) i ls k" and ne: "ls \<noteq> []"
    and small: "length (content b) < 65536" and out: "buf_inv out"
  shows "\<exists>out'. getLabel A b (word_of_nat (length (content b))) (word_of_nat i) out
      = Some (Inr (word_of_nat k, out')) \<and> buf_inv out' \<and> content out' = content out @ join_on ''.'' ls"
proof -
  have "content b \<noteq> []" using name_at_inside [OF n] by auto
  then have "packet b (word_of_nat (length (content b))) (content b)"
    by (intro packet_content [OF b content_alloc small])
  then show ?thesis by (rule getLabel_denotes [OF _ A out n ne])
qed

lemma write32_get32:
  assumes A: "ample A" and b: "buf_inv b" and small: "length (content b) + 4 < 65536"
  shows "\<exists>b'. write32 A b w = Inr b' \<and> content b' = content b @ be32 w
      \<and> get32 b' (word_of_nat (length (content b'))) (word_of_nat (length (content b))) = Inr w"
proof -
  obtain b' where b': "write32 A b w = Inr b'" and a: "appended b b' (be32 w)"
    using w32.emit_ok [OF A b] .
  have c: "content b' = content b @ be32 w" using a by auto
  have p: "packet b' (word_of_nat (length (content b'))) (content b')"
    using a small c by (intro packet_content content_alloc) (auto simp: be32_def)
  have "get32 b' (word_of_nat (length (content b'))) (word_of_nat (length (content b))) =
      Inr (word_of_nat (unat w div 65536 * 65536 + unat w mod 65536))"
    using get32_in [OF p, of "length (content b)"] be32_halves [of "content b" w "[]"] c
    by (simp del: of_nat_add of_nat_mult)
  with b' c show ?thesis
    by (simp only: div_mult_mod_eq) simp
qed

lemma write16_get16:
  assumes A: "ample A" and b: "buf_inv b" and small: "length (content b) + 2 < 65536"
  shows "\<exists>b'. write16 A b v = Inr b' \<and> content b' = content b @ be16 v
      \<and> get16 b' (word_of_nat (length (content b'))) (word_of_nat (length (content b))) = Inr v"
proof -
  obtain b' where b': "write16 A b v = Inr b'" and a: "appended b b' (be16 v)"
    using w16.emit_ok [OF A b] .
  have c: "content b' = content b @ be16 v" using a by auto
  have p: "packet b' (word_of_nat (length (content b'))) (content b')"
    using a small c by (intro packet_content content_alloc) (auto simp: be16_def)
  have "get16 b' (word_of_nat (length (content b'))) (word_of_nat (length (content b))) = Inr v"
  proof -
    have i: "Suc (length (content b)) < length (content b')" by (simp add: c)
    have "word_at (content b') (length (content b)) = unat v"
      using word_at_be16 [of "content b" v "[]"] c by simp
    with get16_in [OF p i, folded word_at_def] show ?thesis by simp
  qed
  with b' c show ?thesis
    by blast
qed

text \<open>
  Names survive the wire: \<open>write_label\<close> of a well-formed name (components of 1 to 63
  octets), into any packet and with any truthful cache of at most \<open>0x4000\<close> octets, appends a name
  that \<open>getLabel\<close> reads back as the same dotted string and of the same length in place, whatever
  part of it was compressed; and the cache stays truthful.
\<close>

theorem write_label_getLabel:
  assumes "ample A" and "buf_inv b" and "cache_ok (content b) cache" and "good_name label"
    and "length (content b) + length label + 2 \<le> 0x4000" and "buf_inv out"
  shows "\<exists>n b' cache' out'. write_label A b label cache = Inr (int n, b', cache')
    \<and> prefix (content b) (content b') \<and> length (content b') = length (content b) + n
    \<and> n \<le> length label + 2 \<and> buf_inv b' \<and> cache_ok (content b') cache'
    \<and> getLabel A b' (word_of_nat (length (content b'))) (word_of_nat (length (content b))) out
      = Some (Inr (word_of_nat n, out')) \<and> content out' = content out @ label"
proof -
  obtain xs b' cache' where w: "write_label A b label cache = Inr (int (length xs), b', cache')"
    and a: "appended b b' xs" and le: "length xs \<le> length label + 2"
    and n: "name_at (content b') (length (content b)) (split_on CHR ''.'' label) (length xs)"
    and ok: "cache_ok (content b') cache'"
    using write_label_spec [OF assms(1-5)] .
  have c: "content b' = content b @ xs" and inv: "buf_inv b'" using a by auto
  have small: "length (content b') < 65536" using c le assms(5) by simp
  obtain out' where "getLabel A b' (word_of_nat (length (content b'))) (word_of_nat (length (content b))) out
      = Some (Inr (word_of_nat (length xs), out'))" and "content out' = content out @ label"
    using getLabel_of_name [OF assms(1) inv n split_on_not_Nil small assms(6)] by auto
  with w c inv le ok show ?thesis by (intro exI [of _ "length xs"]) simp
qed

theorem write_label_getLabel_witness:
  "\<exists>n b' cache' out'. write_label \<lparr>al_grants = \<lambda>n. True, al_fill = \<lambda>n. NUL\<rparr>
      \<lparr>bindex = 0, blength = 0, bdata = None\<rparr> ''tv.local'' [] = Inr (int n, b', cache')
    \<and> n \<le> 10
    \<and> getLabel \<lparr>al_grants = \<lambda>n. True, al_fill = \<lambda>n. NUL\<rparr> b' (word_of_nat (length (content b')))
        (word_of_nat 0) \<lparr>bindex = 0, blength = 0, bdata = None\<rparr>
      = Some (Inr (word_of_nat n, out')) \<and> content out' = ''tv.local''"
  using write_label_getLabel [of "\<lparr>al_grants = \<lambda>n. True, al_fill = \<lambda>n. NUL\<rparr>"
      "\<lparr>bindex = 0, blength = 0, bdata = None\<rparr>" "[]" "''tv.local''" "\<lparr>bindex = 0, blength = 0, bdata = None\<rparr>"]
  by (auto simp: ample_def good_name_def good_label_def)

text \<open>
  Integers survive the wire: what \<open>write32\<close> appends to a packet, \<open>get32\<close> reads back at the
  offset it was written at; the same for \<open>write16\<close> and \<open>get16\<close>.
\<close>

theorem write_get_roundtrip:
  assumes "ample A" and "buf_inv b" and "length (content b) + 4 < 65536"
  shows "(\<exists>b'. write32 A b w = Inr b' \<and> content b' = content b @ be32 w
      \<and> get32 b' (word_of_nat (length (content b'))) (word_of_nat (length (content b))) = Inr w)
    \<and> (\<exists>b'. write16 A b v = Inr b' \<and> content b' = content b @ be16 v
      \<and> get16 b' (word_of_nat (length (content b'))) (word_of_nat (length (content b))) = Inr v)"
  using write32_get32 [OF assms(1, 2)] write16_get16 [OF assms(1, 2)] assms(3) by simp

theorem write_get_roundtrip_witness:
  "\<exists>b'. write32 \<lparr>al_grants = \<lambda>n. True, al_fill = \<lambda>n. NUL\<rparr>
      \<lparr>bindex = 0, blength = 0, bdata = None\<rparr> 0xDEADBEEF = Inr b'
    \<and> get32 b' (word_of_nat (length (content b'))) (word_of_nat 0) = Inr 0xDEADBEEF"
  using write_get_roundtrip [of "\<lparr>al_grants = \<lambda>n. True, al_fill = \<lambda>n. NUL\<rparr>"
      "\<lparr>bindex = 0, blength = 0, bdata = None\<rparr>" "0xDEADBEEF"]
  by (auto simp: ample_def)

text \<open>Writing names one after the other, with the cache carried along.\<close>

fun write_labels ::
  "allocator \<Rightarrow> buffer \<Rightarrow> string list \<Rightarrow> name_cache \<Rightarrow> fault + nat list \<times> buffer \<times> name_cache" where
  "write_labels A b [] cache = Inr ([], b, cache)"
| "write_labels A b (s # ss) cache =
     bindE (write_label A b s cache) (\<lambda>(_, b1, cache1).
     bindE (write_labels A b1 ss cache1) (\<lambda>(is, b2, cache2).
     Inr (length (content b) # is, b2, cache2)))"

lemma write_labels_spec:
  assumes A: "ample A"
  shows "buf_inv b \<Longrightarrow> cache_ok (content b) cache \<Longrightarrow> \<forall>s \<in> set ss. good_name s \<Longrightarrow>
    length (content b) + sum_list (map (\<lambda>s. length s + 2) ss) \<le> 0x4000 \<Longrightarrow>
    \<exists>is b' cache' xs. write_labels A b ss cache = Inr (is, b', cache') \<and> appended b b' xs
      \<and> cache_ok (content b') cache' \<and> length xs \<le> sum_list (map (\<lambda>s. length s + 2) ss)
      \<and> list_all2 (\<lambda>i s. \<exists>k. name_at (content b') i (split_on CHR ''.'' s) k) is ss"
proof (induction ss arbitrary: b cache)
  case (Cons s ss)
  have gs: "good_name s" and room: "length (content b) + length s + 2 \<le> 0x4000"
    using Cons.prems(3, 4) by auto
  obtain xs b1 c1 where 1: "write_label A b s cache = Inr (int (length xs), b1, c1)"
    and a1: "appended b b1 xs" and le: "length xs \<le> length s + 2"
    and n: "name_at (content b1) (length (content b)) (split_on CHR ''.'' s) (length xs)"
    and ok: "cache_ok (content b1) c1"
    using write_label_spec [OF A Cons.prems(1, 2) gs room] .
  have "length (content b1) + sum_list (map (\<lambda>s. length s + 2) ss) \<le> 0x4000"
    using Cons.prems(4) a1 le by (auto simp: appended_def)
  then obtain "is" b2 c2 ys where 2: "write_labels A b1 ss c1 = Inr (is, b2, c2)"
    and a2: "appended b1 b2 ys" and "cache_ok (content b2) c2"
    and "length ys \<le> sum_list (map (\<lambda>s. length s + 2) ss)"
    and "list_all2 (\<lambda>i s. \<exists>k. name_at (content b2) i (split_on CHR ''.'' s) k) is ss"
    using Cons.IH [OF appendedD(1) [OF a1] ok] Cons.prems(3) by auto
  moreover have "name_at (content b2) (length (content b)) (split_on CHR ''.'' s) (length xs)"
    using name_at_append [OF n, of ys] a2 by auto
  ultimately show ?case using 1 le appended_trans [OF a1 a2]
    by (intro exI [of _ "length (content b) # is"] exI [of _ b2] exI [of _ c2] exI [of _ "xs @ ys"]) auto
qed simp

text \<open>
  C6. A whole packet of names: names written one after another with a shared cache, so that later
  ones are compressed against earlier ones, are all read back by \<open>getLabel\<close>, each at the offset
  it was written at.
\<close>

theorem write_labels_getLabel:
  assumes "ample A" and "\<forall>s \<in> set ss. good_name s"
    and "sum_list (map (\<lambda>s. length s + 2) ss) \<le> 0x4000"
  shows "\<exists>is b' cache'. write_labels A \<lparr>bindex = 0, blength = 0, bdata = None\<rparr> ss [] = Inr (is, b', cache')
    \<and> list_all2 (\<lambda>i s. \<exists>k out'. getLabel A b' (word_of_nat (length (content b'))) (word_of_nat i)
          \<lparr>bindex = 0, blength = 0, bdata = None\<rparr> = Some (Inr (k, out')) \<and> content out' = s) is ss"
proof -
  obtain "is" b' cache' xs where w: "write_labels A \<lparr>bindex = 0, blength = 0, bdata = None\<rparr> ss []
      = Inr (is, b', cache')"
    and a: "appended \<lparr>bindex = 0, blength = 0, bdata = None\<rparr> b' xs"
    and le: "length xs \<le> sum_list (map (\<lambda>s. length s + 2) ss)"
    and all: "list_all2 (\<lambda>i s. \<exists>k. name_at (content b') i (split_on CHR ''.'' s) k) is ss"
    using write_labels_spec [OF assms(1) buf_inv_empty _ assms(2), of "[]"] assms(3) by auto
  have inv: "buf_inv b'" and small: "length (content b') < 65536" using a le assms(3) by auto
  have "\<exists>k out'. getLabel A b' (word_of_nat (length (content b'))) (word_of_nat i)
      \<lparr>bindex = 0, blength = 0, bdata = None\<rparr> = Some (Inr (k, out')) \<and> content out' = s"
    if "\<exists>k. name_at (content b') i (split_on CHR ''.'' s) k" for i s
    using that getLabel_of_name [OF assms(1) inv _ split_on_not_Nil small buf_inv_empty, of i "CHR ''.''" s]
    by fastforce
  then have "list_all2 (\<lambda>i s. \<exists>k out'. getLabel A b' (word_of_nat (length (content b'))) (word_of_nat i)
      \<lparr>bindex = 0, blength = 0, bdata = None\<rparr> = Some (Inr (k, out')) \<and> content out' = s) is ss"
    using all by (rule list_all2_mono [rotated])
  with w show ?thesis by blast
qed

theorem write_labels_getLabel_witness:
  "\<exists>is b' cache'. write_labels \<lparr>al_grants = \<lambda>n. True, al_fill = \<lambda>n. NUL\<rparr>
      \<lparr>bindex = 0, blength = 0, bdata = None\<rparr> [''a.b'', ''c.a.b''] [] = Inr (is, b', cache')
    \<and> list_all2 (\<lambda>i s. \<exists>k out'. getLabel \<lparr>al_grants = \<lambda>n. True, al_fill = \<lambda>n. NUL\<rparr> b'
          (word_of_nat (length (content b'))) (word_of_nat i)
          \<lparr>bindex = 0, blength = 0, bdata = None\<rparr> = Some (Inr (k, out')) \<and> content out' = s)
        is [''a.b'', ''c.a.b'']"
  by (rule write_labels_getLabel) (simp_all add: ample_def good_name_def good_label_def)

end
