(* ===== verification/Composer.thy ===== *)
theory Composer
  imports NameCodec
begin

text \<open>
  \<open>Composer\<close> (flint/src/discovery/mdns/Composer.cpp): the sections of an mDNS message, written one
  behind the other. Every record starts with \<open>add_record\<close>; its data is preceded by a 16-bit length
  that is written as zero and patched (\<open>replace16\<close>) when the data is there.
\<close>

definition CLASS_IN :: uint16 where "CLASS_IN = 0x0001"

definition CLASS_UNICAST :: uint16 where "CLASS_UNICAST = 0x8000"

section \<open>Operations\<close>

definition set_header ::
  "allocator \<Rightarrow> buffer \<Rightarrow> uint16 \<Rightarrow> uint16 \<Rightarrow> uint16 \<Rightarrow> uint16 \<Rightarrow> uint16 \<Rightarrow> uint16 \<Rightarrow> fault + buffer" where
  "set_header A buf i flag query_num answer_num auth_num add_num =
     bindE (write16 A buf i) (\<lambda>b.
     bindE (write16 A b flag) (\<lambda>b.
     bindE (write16 A b query_num) (\<lambda>b.
     bindE (write16 A b answer_num) (\<lambda>b.
     bindE (write16 A b auth_num) (\<lambda>b.
     write16 A b add_num)))))"

definition add_query_ptr ::
  "allocator \<Rightarrow> buffer \<Rightarrow> string \<Rightarrow> uint16 \<Rightarrow> uint16 \<Rightarrow> name_cache \<Rightarrow> fault + buffer \<times> name_cache" where
  "add_query_ptr A buf label type cls cache =
     bindE (write_label A buf label cache) (\<lambda>(_, b, cache').
     bindE (write16 A b type) (\<lambda>b.
     bindE (write16 A b (CLASS_UNICAST OR CLASS_IN)) (\<lambda>b. Inr (b, cache'))))"

definition add_record ::
  "allocator \<Rightarrow> buffer \<Rightarrow> string \<Rightarrow> uint16 \<Rightarrow> uint16 \<Rightarrow> uint32 \<Rightarrow> name_cache
    \<Rightarrow> fault + buffer \<times> name_cache" where
  "add_record A buf label type cls ttl cache =
     bindE (write_label A buf label cache) (\<lambda>(_, b, cache').
     bindE (write16 A b type) (\<lambda>b.
     bindE (write16 A b cls) (\<lambda>b.
     bindE (write32 A b ttl) (\<lambda>b. Inr (b, cache')))))"

text \<open>The frame the four record functions share: save the position, write, patch the length.\<close>

definition add_data ::
  "allocator \<Rightarrow> buffer \<Rightarrow> (buffer \<Rightarrow> fault + uint16 \<times> buffer \<times> name_cache)
    \<Rightarrow> fault + buffer \<times> name_cache" where
  "add_data A buf payload =
     (let position = word_of_int (bindex buf) :: uint32
      in bindE (write16 A buf 0x00) (\<lambda>b.
         bindE (payload b) (\<lambda>(data_length, b, cache).
         bindE (replace16 b data_length position) (\<lambda>b. Inr (b, cache)))))"

definition add_answer_ptr ::
  "allocator \<Rightarrow> buffer \<Rightarrow> string \<Rightarrow> uint16 \<Rightarrow> uint16 \<Rightarrow> uint32 \<Rightarrow> string \<Rightarrow> name_cache
    \<Rightarrow> fault + buffer \<times> name_cache" where
  "add_answer_ptr A buf label type cls ttl data cache =
     bindE (add_record A buf label type cls ttl cache) (\<lambda>(b, cache).
     add_data A b (\<lambda>b.
       bindE (write_label A b data cache) (\<lambda>(n, b, cache). Inr (word_of_int n, b, cache))))"

definition add_additional_srv ::
  "allocator \<Rightarrow> buffer \<Rightarrow> string \<Rightarrow> uint16 \<Rightarrow> uint16 \<Rightarrow> uint32 \<Rightarrow> string \<Rightarrow> name_cache
    \<Rightarrow> fault + buffer \<times> name_cache" where
  "add_additional_srv A buf label type cls ttl data cache =
     bindE (add_record A buf label type cls ttl cache) (\<lambda>(b, cache).
     add_data A b (\<lambda>b.
       bindE (write16 A b 0x0000) (\<lambda>b.
       bindE (write16 A b 0x0000) (\<lambda>b.
       bindE (write16 A b 0x24d7) (\<lambda>b.
       bindE (write_label A b data cache) (\<lambda>(n, b, cache). Inr (0 + 6 + word_of_int n, b, cache)))))))"

definition add_additional_txt ::
  "allocator \<Rightarrow> buffer \<Rightarrow> string \<Rightarrow> uint16 \<Rightarrow> uint16 \<Rightarrow> uint32 \<Rightarrow> string list \<Rightarrow> name_cache
    \<Rightarrow> fault + buffer \<times> name_cache" where
  "add_additional_txt A buf label type cls ttl data cache =
     bindE (add_record A buf label type cls ttl cache) (\<lambda>(b, cache).
     add_data A b (\<lambda>b.
       bindE (write_vector A b data) (\<lambda>(n, b). Inr (0 + word_of_int n, b, cache))))"

definition add_additional_addr ::
  "allocator \<Rightarrow> buffer \<Rightarrow> string \<Rightarrow> uint16 \<Rightarrow> uint16 \<Rightarrow> uint32 \<Rightarrow> string \<Rightarrow> name_cache
    \<Rightarrow> fault + buffer \<times> name_cache" where
  "add_additional_addr A buf label type cls ttl data cache =
     bindE (add_record A buf label type cls ttl cache) (\<lambda>(b, cache).
     add_data A b (\<lambda>b.
       bindE (write_ip A b data) (\<lambda>(n, b). Inr (word_of_int n, b, cache))))"

section \<open>Header\<close>

lemma set_header_chain:
  "set_header A b i f q a au ad = foldE (write16 A) b [i, f, q, a, au, ad]"
  by (simp add: set_header_def)

lemma set_header_spec:
  assumes "ample A" and "buf_inv b"
  obtains b' where "set_header A b i f q a au ad = Inr b'"
    and "appended b b' (be16 i @ be16 f @ be16 q @ be16 a @ be16 au @ be16 ad)"
  using w16.emit_all [OF assms, of "[i, f, q, a, au, ad]"] unfolding set_header_chain by auto

section \<open>Addresses and character strings\<close>

lemma lexical_cast_show_nat:
  assumes "n < 2 ^ 31"
  shows "lexical_cast_int (show_nat n) = Some (int n)"
proof -
  obtain c cs where s: "show_nat n = c # cs"
    using digits_of_not_Nil [of 10 n] by (cases "show_nat n") (auto simp: show_nat_def)
  have d: "\<forall>c \<in> set (show_nat n). isdigit c" by (auto simp: show_nat_def digits_of_isdigit)
  then have "isdigit c" by (simp add: s)
  then have "c \<noteq> CHR ''-''" "c \<noteq> CHR ''+''" by (auto simp: isdigit_def)
  moreover have "digits_value 0 (show_nat n) = n" by (simp add: show_nat_def digits_value_digits)
  ultimately show ?thesis
    using assms d unfolding lexical_cast_int_def s by (simp add: Let_def)
qed

lemma dot_notin_show_nat [simp]: "CHR ''.'' \<notin> set (show_nat n)"
  using digits_of_isdigit [of "CHR ''.''" n] by (auto simp: show_nat_def isdigit_def)

definition dotted_quad :: "nat list \<Rightarrow> string" where
  "dotted_quad ns = join_on ''.'' (map show_nat ns)"

lemma ip_loop_quad:
  assumes A: "ample A"
  shows "buf_inv b \<Longrightarrow> \<forall>n \<in> set ns. n < 256 \<Longrightarrow>
    \<exists>b'. ip_loop A b (map show_nat ns) = Inr b' \<and> appended b b' (map char_of ns)"
proof (induction ns arbitrary: b)
  case (Cons n ns)
  have n: "n < 2 ^ 31" "unat (word_of_int (int n) :: uint8) = n"
    using Cons.prems(2) by (simp_all add: unat_of_nat take_bit_nat_eq_self)
  obtain b1 where b1: "appenduc A b (word_of_int (int n)) = Inr (0, b1)"
    and a1: "appended b b1 [char_of_u8 (word_of_int (int n))]"
    using appenduc_ok [OF A Cons.prems(1)] .
  obtain b2 where b2: "ip_loop A b1 (map show_nat ns) = Inr b2" "appended b1 b2 (map char_of ns)"
    using Cons.IH [OF appendedD(1) [OF a1]] Cons.prems(2) by auto
  have "char_of_u8 (word_of_int (int n)) = char_of n"
    using n(2) by (simp add: char_of_u8_def)
  with b1 b2 n appended_trans [OF a1 b2(2)] show ?case
    by (simp add: lexical_cast_show_nat)
qed simp

lemma write_ip_quad:
  assumes A: "ample A" and b: "buf_inv b" and ns: "length ns = 4" "\<forall>n \<in> set ns. n < 256"
  obtains b' where "write_ip A b (dotted_quad ns) = Inr (4, b')" and "appended b b' (map char_of ns)"
proof -
  have "split_on CHR ''.'' (dotted_quad ns) = map show_nat ns"
    unfolding dotted_quad_def using ns(1) by (intro split_join) auto
  with ip_loop_quad [OF A b ns(2)] ns(1) that show thesis
    by (auto simp: write_ip_def)
qed

definition strings_wire :: "string list \<Rightarrow> string" where
  "strings_wire ss = concat (map (\<lambda>s. char_of (length s) # s) ss)"

lemma strings_wire_Cons: "strings_wire (s # ss) = [char_of (length s)] @ s @ strings_wire ss"
  by (simp add: strings_wire_def)

lemma write_raw_str:
  assumes A: "ample A" and b: "buf_inv b" and s: "NUL \<notin> set s" "length s < 256"
  obtains b' where "write_raw A b (c_str s) (word_of_int (int (length s))) = Inr b'"
    and "appended b b' s"
proof (cases "s = []")
  case True
  obtain b' where "append_raw A b (Some (c_str [])) 0 = Inr (int (length (cstr [])), b')"
    and "appended b b' (cstr [])"
    using append_raw_str_ok [OF A b] .
  with True show thesis
    by (intro that [of b']) (simp_all add: write_raw_def cstr_def)
next
  case False
  then have n: "0 < length s" "length s \<le> length (c_str s)" by (simp_all add: c_str_def)
  obtain b2 where b2: "append_raw A b (Some (c_str s)) (int (length s)) = Inr (int (length s), b2)"
    and a2: "appended b b2 (take (length s) (c_str s))"
    using append_raw_ok [OF A b n] .
  have "uint (word_of_nat (length s) :: uint8) = int (length s)"
    using s by (simp add: unsigned_of_nat take_bit_nat_eq_self)
  with a2 b2 show thesis by (intro that [of b2]) (simp_all add: write_raw_def c_str_def)
qed

lemma write_vector_spec:
  assumes A: "ample A"
  shows "buf_inv b \<Longrightarrow> \<forall>s \<in> set ss. NUL \<notin> set s \<and> length s < 256 \<Longrightarrow>
    \<exists>b'. write_vector A b ss = Inr (int (length (strings_wire ss)), b') \<and> appended b b' (strings_wire ss)"
proof (induction ss arbitrary: b)
  case (Cons s ss)
  then have s: "NUL \<notin> set s" "length s < 256" by auto
  let ?n = "word_of_int (int (length s)) :: uint8"
  have n: "unat ?n = length s" "uint ?n = int (length s)"
    using s(2) by (simp_all add: unsigned_of_nat take_bit_nat_eq_self)
  obtain b1 where b1: "write8 A b ?n = Inr b1" and a1: "appended b b1 [char_of_u8 ?n]"
    using w8.emit_ok [OF A Cons.prems(1)] .
  obtain b2 where b2: "write_raw A b1 (c_str s) ?n = Inr b2" and a2: "appended b1 b2 s"
    using write_raw_str [OF A appendedD(1) [OF a1] s] .
  obtain b3 where b3: "write_vector A b2 ss = Inr (int (length (strings_wire ss)), b3)"
    and a3: "appended b2 b3 (strings_wire ss)"
    using Cons.IH [OF appendedD(1) [OF a2]] Cons.prems(2) by auto
  have "appended b b3 (strings_wire (s # ss))"
    using appended_trans [OF a1 appended_trans [OF a2 a3]] n(1)
    by (simp add: strings_wire_Cons char_of_u8_def)
  moreover have "write_vector A b (s # ss) = Inr (int (length (strings_wire (s # ss))), b3)"
    using b1 b2 b3 s(1) n(2) by (simp add: cstr_id strings_wire_Cons)
  ultimately show ?case by blast
qed (simp add: strings_wire_def)

section \<open>Patching a length\<close>

lemma replace_content:
  assumes "buf_inv b" and "content b = xs @ c # ys"
  shows "\<exists>b'. replace b (int (length xs)) d = Inr b' \<and> buf_inv b' \<and> content b' = xs @ d # ys"
  using replace_spec [OF assms(1), of "length xs" d] assms(2) by simp

lemma sint_of_nat32: "k < 2 ^ 31 \<Longrightarrow> sint (word_of_nat k :: uint32) = int k"
  by (simp add: signed_of_nat signed_take_bit_int_eq_self)

lemma replace16_spec:
  assumes inv: "buf_inv b" and c: "content b = xs @ [c1, c2] @ ys" and l: "length xs + 1 < 2 ^ 31"
  shows "\<exists>b'. replace16 b w (word_of_nat (length xs)) = Inr b' \<and> buf_inv b'
    \<and> content b' = xs @ be16 w @ ys"
proof -
  let ?h = "char_of_u8 (ucast (drop_bit 8 w AND 0xFF))" and ?l = "char_of_u8 (ucast (w AND 0xFF))"
  have i: "sint (word_of_nat (length xs) :: uint32) = int (length xs)"
    using l by (intro sint_of_nat32) simp
  have "sint (word_of_nat (length (xs @ [?h])) :: uint32) = int (length (xs @ [?h]))"
    using l by (intro sint_of_nat32) simp
  then have j: "sint (word_of_nat (length xs) + 1 :: uint32) = int (length (xs @ [?h]))"
    by (simp add: add.commute)
  obtain b1 where b1: "replace b (int (length xs)) ?h = Inr b1" "buf_inv b1"
    and "content b1 = xs @ ?h # [c2] @ ys"
    using replace_content [OF inv, of xs c1 "[c2] @ ys" ?h] c by auto
  then obtain b2 where "replace b1 (int (length (xs @ [?h]))) ?l = Inr b2" "buf_inv b2"
    and "content b2 = (xs @ [?h]) @ ?l # ys"
    using replace_content [OF b1(2), of "xs @ [?h]" c2 ys ?l] by auto
  with b1 i j show ?thesis by (simp add: replace16_def replace8_def be16_def)
qed

lemma add_data_spec:
  assumes A: "ample A" and inv: "buf_inv b" and l: "length (content b) + 1 < 2 ^ 31"
  obtains b1 where "appended b b1 (be16 0)"
    and "\<forall>payload w b2 cache xs. payload b1 = Inr (w, b2, cache) \<longrightarrow> appended b1 b2 xs \<longrightarrow>
      (\<exists>b'. add_data A b payload = Inr (b', cache) \<and> appended b b' (be16 w @ xs))"
proof -
  obtain b1 where b1: "write16 A b 0 = Inr b1" and a1: "appended b b1 (be16 0)"
    using w16.emit_ok [OF A inv] .
  moreover have "\<exists>b'. add_data A b payload = Inr (b', cache) \<and> appended b b' (be16 w @ xs)"
    if b2: "payload b1 = Inr (w, b2, cache)" and a2: "appended b1 b2 xs" for payload w b2 cache xs
  proof -
    have c2: "content b2 = content b @ [NUL, NUL] @ xs" and i2: "buf_inv b2"
      using appended_trans [OF a1 a2] by (auto simp: appended_def be16_def)
    obtain b3 where "replace16 b2 w (word_of_nat (length (content b))) = Inr b3"
      and "buf_inv b3" and "content b3 = content b @ be16 w @ xs"
      using replace16_spec [OF i2 c2 l] by blast
    with b1 b2 bindex_content [OF inv] show ?thesis
      by (simp add: add_data_def Let_def appended_def)
  qed
  ultimately show thesis using that by blast
qed

text \<open>A name written behind a length field that is still to be patched, whatever it becomes.\<close>

lemma write_label_patched:
  assumes A: "ample A" and b: "buf_inv b" "content b = v @ be16 0 @ pre"
    and ok: "cache_ok v cache" and name: "good_name data"
    and room: "length v + length pre + length data + 4 \<le> 0x4000"
  obtains rd b' cache' where "write_label A b data cache = Inr (int (length rd), b', cache')"
    and "appended b b' rd" and "length rd \<le> length data + 2"
    and "\<forall>w. name_at (v @ be16 w @ pre @ rd) (length v + 2 + length pre) (split_on CHR ''.'' data) (length rd)"
    and "\<forall>w. cache_ok (v @ be16 w @ pre @ rd) cache'"
proof -
  let ?v = "\<lambda>w. v @ be16 w @ pre"
  have l: "length (?v w) = length (content b)" for w by (simp add: b(2))
  have k: "cache_ok (?v w) cache" for w using cache_ok_append [OF ok, of "be16 w @ pre"] by simp
  have r: "length (?v w) + length data + 2 \<le> 0x4000" for w using room by simp
  obtain rd b' cache' where w0: "write_label A b data cache = Inr (int (length rd), b', cache')"
    and a0: "appended b b' rd" and le: "length rd \<le> length data + 2"
    using write_label_view [OF A b(1) l [of 0] k name r] by blast
  have "name_at (?v w @ rd) (length (?v w)) (split_on CHR ''.'' data) (length rd)
      \<and> cache_ok (?v w @ rd) cache'" for w
  proof -
    obtain xs b1 c1 where "write_label A b data cache = Inr (int (length xs), b1, c1)"
      and a1: "appended b b1 xs"
      and n: "name_at (?v w @ xs) (length (?v w)) (split_on CHR ''.'' data) (length xs)"
      and k1: "cache_ok (?v w @ xs) c1"
      using write_label_view [OF A b(1) l [of w] k name r] .
    with w0 have "b1 = b'" "c1 = cache'" by auto
    with a0 a1 have "xs = rd" by (simp add: appended_def)
    with n k1 \<open>c1 = cache'\<close> show ?thesis by simp
  qed
  then have "name_at (v @ be16 w @ pre @ rd) (length v + 2 + length pre) (split_on CHR ''.'' data) (length rd)"
    and "cache_ok (v @ be16 w @ pre @ rd) cache'" for w
    by (simp_all add: add.assoc)
  with w0 a0 le that show thesis by blast
qed

section \<open>Records on the wire\<close>

text \<open>
  \<open>rr_at pkt i name ty cl ttl dl j\<close>: at offset \<open>i\<close> stands the head of a resource record, with \<open>dl\<close>
  octets of data at offset \<open>j\<close>.
\<close>

definition rr_at ::
  "string \<Rightarrow> nat \<Rightarrow> string \<Rightarrow> uint16 \<Rightarrow> uint16 \<Rightarrow> uint32 \<Rightarrow> nat \<Rightarrow> nat \<Rightarrow> bool" where
  "rr_at pkt i name ty cl ttl dl j \<longleftrightarrow>
     (\<exists>k. name_at pkt i (split_on CHR ''.'' name) k \<and> word_at pkt (i + k) = unat ty
        \<and> word_at pkt (i + k + 2) = unat cl \<and> word_at pkt (i + k + 4) = unat ttl div 65536
        \<and> word_at pkt (i + k + 6) = unat ttl mod 65536 \<and> word_at pkt (i + k + 8) = dl
        \<and> j = i + k + 10 \<and> j + dl \<le> length pkt)"

definition question_at :: "string \<Rightarrow> nat \<Rightarrow> string \<Rightarrow> uint16 \<Rightarrow> uint16 \<Rightarrow> nat \<Rightarrow> bool" where
  "question_at pkt i name ty cl j \<longleftrightarrow>
     (\<exists>k. name_at pkt i (split_on CHR ''.'' name) k \<and> word_at pkt (i + k) = unat ty
        \<and> word_at pkt (i + k + 2) = unat cl \<and> j = i + k + 4 \<and> j \<le> length pkt)"

lemma rr_at_append: "rr_at pkt i name ty cl ttl dl j \<Longrightarrow> rr_at (pkt @ xs) i name ty cl ttl dl j"
  by (fastforce simp: rr_at_def intro: name_at_append)

lemma question_at_append: "question_at pkt i name ty cl j \<Longrightarrow> question_at (pkt @ xs) i name ty cl j"
  by (fastforce simp: question_at_def intro: name_at_append)

lemma question_at_intro:
  assumes "name_at (v @ nm) (length v) (split_on CHR ''.'' name) (length nm)"
  shows "question_at (v @ nm @ be16 ty @ be16 cl) (length v) name ty cl (length v + length nm + 4)"
proof -
  let ?p = "v @ nm @ be16 ty @ be16 cl"
  have "word_at ?p (length v + length nm) = unat ty"
    using word_at_be16 [of "v @ nm" ty "be16 cl"] by simp
  moreover have "word_at ?p (length v + length nm + 2) = unat cl"
    using word_at_be16 [of "v @ nm @ be16 ty" cl "[]"] by simp
  moreover have "name_at ?p (length v) (split_on CHR ''.'' name) (length nm)"
    using name_at_append [OF assms, of "be16 ty @ be16 cl"] by simp
  ultimately show ?thesis
    unfolding question_at_def by (intro exI [of _ "length nm"]) simp
qed

lemma rr_at_intro:
  assumes "name_at (v @ nm) (length v) (split_on CHR ''.'' name) (length nm)"
    and "length rd = unat dl"
  shows "rr_at (v @ nm @ be16 ty @ be16 cl @ be32 ttl @ be16 dl @ rd) (length v) name ty cl ttl
    (length rd) (length v + length nm + 10)"
proof -
  let ?p = "v @ nm @ be16 ty @ be16 cl @ be32 ttl @ be16 dl @ rd"
  have "word_at ?p (length v + length nm) = unat ty"
    using word_at_be16 [of "v @ nm" ty "be16 cl @ be32 ttl @ be16 dl @ rd"] by simp
  moreover have "word_at ?p (length v + length nm + 2) = unat cl"
    using word_at_be16 [of "v @ nm @ be16 ty" cl "be32 ttl @ be16 dl @ rd"] by simp
  moreover have "word_at ?p (length v + length nm + 4) = unat ttl div 65536"
    using be32_halves(1) [of "v @ nm @ be16 ty @ be16 cl" ttl "be16 dl @ rd"]
    by (simp add: ac_simps)
  moreover have "word_at ?p (length v + length nm + 6) = unat ttl mod 65536"
    using be32_halves(2) [of "v @ nm @ be16 ty @ be16 cl" ttl "be16 dl @ rd"]
    by (simp add: ac_simps)
  moreover have "word_at ?p (length v + length nm + 8) = length rd"
    using word_at_be16 [of "v @ nm @ be16 ty @ be16 cl @ be32 ttl" dl rd] assms(2)
    by (simp add: ac_simps)
  moreover have "name_at ?p (length v) (split_on CHR ''.'' name) (length nm)"
    using name_at_append [OF assms(1), of "be16 ty @ be16 cl @ be32 ttl @ be16 dl @ rd"] by simp
  ultimately show ?thesis
    unfolding rr_at_def by (intro exI [of _ "length nm"]) simp
qed

lemma add_query_ptr_spec:
  assumes "ample A" and "buf_inv b" and "cache_ok (content b) cache" and "good_name label"
    and "length (content b) + length label + 2 \<le> 0x4000"
  obtains xs b' cache' where "add_query_ptr A b label ty cl cache = Inr (b', cache')"
    and "appended b b' xs" and "length xs \<le> length label + 6" and "cache_ok (content b @ xs) cache'"
    and "question_at (content b @ xs) (length (content b)) label ty 0x8001 (length (content b @ xs))"
proof -
  obtain nm b1 cache' where w: "write_label A b label cache = Inr (int (length nm), b1, cache')"
    and a1: "appended b b1 nm" and le: "length nm \<le> length label + 2"
    and n: "name_at (content b @ nm) (length (content b)) (split_on CHR ''.'' label) (length nm)"
    and ok: "cache_ok (content b @ nm) cache'"
    using write_label_view [OF assms(1, 2) refl assms(3-5)] .
  obtain b3 where "foldE (write16 A) b1 [ty, 0x8001] = Inr b3" and a3: "appended b1 b3 (be16 ty @ be16 0x8001)"
    using w16.emit_all [OF assms(1) appendedD(1) [OF a1], of "[ty, 0x8001]"] by auto
  with w have "add_query_ptr A b label ty cl cache = Inr (b3, cache')"
    by (auto simp: add_query_ptr_def CLASS_UNICAST_def CLASS_IN_def bindE_eq_Inr)
  moreover have "cache_ok (content b @ nm @ be16 ty @ be16 0x8001) cache'"
    using cache_ok_append [OF ok, of "be16 ty @ be16 0x8001"] by simp
  moreover have "question_at (content b @ nm @ be16 ty @ be16 0x8001) (length (content b)) label ty 0x8001
      (length (content b @ nm @ be16 ty @ be16 0x8001))"
    using question_at_intro [OF n, where ty = ty and cl = "0x8001"] by (simp add: add.assoc)
  moreover have "length (nm @ be16 ty @ be16 0x8001) \<le> length label + 6" using le by simp
  ultimately show thesis
    using that appended_trans [OF a1 a3] by blast
qed

lemma add_record_spec:
  assumes "ample A" and "buf_inv b" and "cache_ok (content b) cache" and "good_name label"
    and "length (content b) + length label + 2 \<le> 0x4000"
  obtains nm b' cache' where "add_record A b label ty cl ttl cache = Inr (b', cache')"
    and "appended b b' (nm @ be16 ty @ be16 cl @ be32 ttl)" and "length nm \<le> length label + 2"
    and "name_at (content b @ nm) (length (content b)) (split_on CHR ''.'' label) (length nm)"
    and "cache_ok (content b') cache'"
proof -
  obtain nm b1 cache' where w: "write_label A b label cache = Inr (int (length nm), b1, cache')"
    and a1: "appended b b1 nm" and le: "length nm \<le> length label + 2"
    and n: "name_at (content b @ nm) (length (content b)) (split_on CHR ''.'' label) (length nm)"
    and ok: "cache_ok (content b @ nm) cache'"
    using write_label_view [OF assms(1, 2) refl assms(3-5)] .
  obtain b3 where w3: "foldE (write16 A) b1 [ty, cl] = Inr b3" and a3: "appended b1 b3 (be16 ty @ be16 cl)"
    using w16.emit_all [OF assms(1) appendedD(1) [OF a1], of "[ty, cl]"] by auto
  obtain b4 where w4: "write32 A b3 ttl = Inr b4" and a4: "appended b3 b4 (be32 ttl)"
    using w32.emit_ok [OF assms(1) appendedD(1) [OF a3]] .
  have "add_record A b label ty cl ttl cache = Inr (b4, cache')"
    using w w3 w4 by (auto simp: add_record_def bindE_eq_Inr)
  moreover have a: "appended b b4 (nm @ be16 ty @ be16 cl @ be32 ttl)"
    using appended_trans [OF appended_trans [OF a1 a3] a4] by simp
  moreover have "cache_ok (content b4) cache'"
    using a cache_ok_append [OF ok, of "be16 ty @ be16 cl @ be32 ttl"] by (simp add: appended_def)
  ultimately show thesis using that le n by blast
qed

text \<open>
  What a record function adds: a head with the right length, and data that satisfy \<open>D\<close> at their
  offset. The bound \<open>n\<close> is on the octets added.
\<close>

definition record_added ::
  "buffer \<Rightarrow> buffer \<Rightarrow> name_cache \<Rightarrow> nat \<Rightarrow> string \<Rightarrow> uint16 \<Rightarrow> uint16 \<Rightarrow> uint32
    \<Rightarrow> (string \<Rightarrow> nat \<Rightarrow> nat \<Rightarrow> bool) \<Rightarrow> bool" where
  "record_added b b' cache' n label ty cl ttl D \<longleftrightarrow>
     (\<exists>xs dl j. appended b b' xs \<and> length xs \<le> n \<and> cache_ok (content b') cache'
        \<and> rr_at (content b') (length (content b)) label ty cl ttl dl j \<and> D (content b') j dl
        \<and> length (content b') = j + dl)"

lemma record_addedD:
  assumes "record_added b b' cache' n label ty cl ttl D"
  obtains xs where "appended b b' xs" and "length xs \<le> n" and "cache_ok (content b') cache'"
  using assms by (auto simp: record_added_def)

lemma record_added_intro:
  assumes a1: "appended b b1 (nm @ be16 ty @ be16 cl @ be32 ttl)"
    and n: "name_at (content b @ nm) (length (content b)) (split_on CHR ''.'' label) (length nm)"
    and a2: "appended b1 b2 (be16 (word_of_nat (length rd)) @ rd)"
    and rd: "length rd < 65536" and ok: "cache_ok (content b2) cache'"
    and le: "length nm + length rd + 10 \<le> m"
    and D: "D (content b1 @ be16 (word_of_nat (length rd)) @ rd) (length (content b1) + 2) (length rd)"
  shows "record_added b b2 cache' m label ty cl ttl D"
proof -
  let ?w = "word_of_nat (length rd) :: uint16"
  let ?xs = "nm @ be16 ty @ be16 cl @ be32 ttl @ be16 ?w @ rd"
  have a: "appended b b2 ?xs" using appended_trans [OF a1 a2] by simp
  have w: "length rd = unat ?w" using rd by (simp add: unat_of_nat take_bit_nat_eq_self)
  have c1: "content b1 = content b @ nm @ be16 ty @ be16 cl @ be32 ttl"
    and c2: "content b2 = content b1 @ be16 ?w @ rd" using a1 a2 by auto
  have "rr_at (content b2) (length (content b)) label ty cl ttl (length rd) (length (content b) + length nm + 10)"
    using rr_at_intro [OF n w, of ty cl ttl] c1 c2 by simp
  moreover have "D (content b2) (length (content b) + length nm + 10) (length rd)"
    using D c1 c2 by (simp add: ac_simps)
  moreover have "length ?xs \<le> m" using le by simp
  moreover have "length (content b2) = length (content b) + length nm + 10 + length rd"
    using c1 c2 by simp
  ultimately show ?thesis using a ok unfolding record_added_def by blast
qed

text \<open>
  \<open>record_open b b1 b2\<close>: \<open>b1\<close> is \<open>b\<close> with the head of a record, \<open>b2\<close> is \<open>b1\<close> with the zero
  length; whatever data a payload appends to \<open>b2\<close> then completes the record.
\<close>

definition record_open ::
  "allocator \<Rightarrow> buffer \<Rightarrow> buffer \<Rightarrow> buffer \<Rightarrow> string \<Rightarrow> uint16 \<Rightarrow> uint16 \<Rightarrow> uint32 \<Rightarrow> bool" where
  "record_open A b b1 b2 label ty cl ttl \<longleftrightarrow>
     appended b1 b2 (be16 0) \<and> length (content b1) \<le> length (content b) + length label + 10
   \<and> (\<forall>payload rd b3 c3 m D. payload b2 = Inr (word_of_nat (length rd), b3, c3) \<longrightarrow>
      appended b2 b3 rd \<longrightarrow> length rd < 65536 \<longrightarrow>
      cache_ok (content b1 @ be16 (word_of_nat (length rd)) @ rd) c3 \<longrightarrow>
      length label + length rd + 12 \<le> m \<longrightarrow>
      D (content b1 @ be16 (word_of_nat (length rd)) @ rd) (length (content b1) + 2) (length rd) \<longrightarrow>
      (\<exists>b'. add_data A b1 payload = Inr (b', c3) \<and> record_added b b' c3 m label ty cl ttl D))"

lemma record_openD:
  assumes "record_open A b b1 b2 label ty cl ttl"
  shows "appended b1 b2 (be16 0)" and "length (content b1) \<le> length (content b) + length label + 10"
  using assms unfolding record_open_def by blast+

lemma record_close:
  assumes "record_open A b b1 b2 label ty cl ttl"
    and "payload b2 = Inr (word_of_nat (length rd), b3, c3)" and "appended b2 b3 rd"
    and "length rd < 65536" and "cache_ok (content b1 @ be16 (word_of_nat (length rd)) @ rd) c3"
    and "length label + length rd + 12 \<le> m"
    and "D (content b1 @ be16 (word_of_nat (length rd)) @ rd) (length (content b1) + 2) (length rd)"
  shows "\<exists>b'. add_data A b1 payload = Inr (b', c3) \<and> record_added b b' c3 m label ty cl ttl D"
  using assms unfolding record_open_def by blast

lemma record_start:
  assumes A: "ample A" and b: "buf_inv b" "cache_ok (content b) cache" and name: "good_name label"
    and room: "length (content b) + length label + 2 \<le> 0x4000"
  obtains b1 c1 b2 where "add_record A b label ty cl ttl cache = Inr (b1, c1)"
    and "cache_ok (content b1) c1" and "record_open A b b1 b2 label ty cl ttl"
proof -
  obtain nm b1 c1 where r: "add_record A b label ty cl ttl cache = Inr (b1, c1)"
    and a1: "appended b b1 (nm @ be16 ty @ be16 cl @ be32 ttl)" and le: "length nm \<le> length label + 2"
    and n: "name_at (content b @ nm) (length (content b)) (split_on CHR ''.'' label) (length nm)"
    and ok: "cache_ok (content b1) c1"
    using add_record_spec [OF A b name room] .
  have inv1: "buf_inv b1" and l1: "length (content b1) = length (content b) + length nm + 8"
    using a1 by auto
  have l: "length (content b1) + 1 < 2 ^ 31" using l1 le room by simp
  obtain b2 where a2: "appended b1 b2 (be16 0)"
    and fin: "\<forall>payload w b3 cache xs. payload b2 = Inr (w, b3, cache) \<longrightarrow> appended b2 b3 xs \<longrightarrow>
      (\<exists>b'. add_data A b1 payload = Inr (b', cache) \<and> appended b1 b' (be16 w @ xs))"
    using add_data_spec [OF A inv1 l] .
  have close: "\<exists>b'. add_data A b1 payload = Inr (b', c3) \<and> record_added b b' c3 m label ty cl ttl D"
    if p: "payload b2 = Inr (word_of_nat (length rd), b3, c3)" "appended b2 b3 rd"
      and rd: "length rd < 65536" and k: "cache_ok (content b1 @ be16 (word_of_nat (length rd)) @ rd) c3"
      and m: "length label + length rd + 12 \<le> m"
      and D: "D (content b1 @ be16 (word_of_nat (length rd)) @ rd) (length (content b1) + 2) (length rd)"
    for payload rd b3 c3 m and D :: "string \<Rightarrow> nat \<Rightarrow> nat \<Rightarrow> bool"
  proof -
    obtain b4 where b4: "add_data A b1 payload = Inr (b4, c3)"
      and a4: "appended b1 b4 (be16 (word_of_nat (length rd)) @ rd)"
      using fin p by blast
    have "cache_ok (content b4) c3" using a4 k by (simp add: appended_def)
    moreover have "length nm + length rd + 10 \<le> m" using m le by simp
    ultimately have "record_added b b4 c3 m label ty cl ttl D"
      by (rule record_added_intro [where D = D, OF a1 n a4 rd _ _ D])
    with b4 show ?thesis by blast
  qed
  have "length (content b1) \<le> length (content b) + length label + 10" using l1 le by simp
  with a2 close have "record_open A b b1 b2 label ty cl ttl" unfolding record_open_def by blast
  with that r ok show thesis by blast
qed

lemma add_answer_ptr_spec:
  assumes A: "ample A" and b: "buf_inv b" "cache_ok (content b) cache"
    and names: "good_name label" "good_name data"
    and room: "length (content b) + length label + length data + 14 \<le> 0x4000"
  shows "\<exists>b' cache'. add_answer_ptr A b label ty cl ttl data cache = Inr (b', cache')
    \<and> record_added b b' cache' (length label + length data + 14) label ty cl ttl
        (\<lambda>pkt j dl. name_at pkt j (split_on CHR ''.'' data) dl)" (is "\<exists>b' cache'. _ \<and> ?R b' cache'")
proof -
  have "length (content b) + length label + 2 \<le> 0x4000" using room by simp
  then obtain b1 c1 b2 where r: "add_record A b label ty cl ttl cache = Inr (b1, c1)"
    and ok: "cache_ok (content b1) c1" and op: "record_open A b b1 b2 label ty cl ttl"
    using record_start [OF A b names(1)] by blast
  have c2: "content b2 = content b1 @ be16 0 @ []" and i2: "buf_inv b2" using record_openD(1) [OF op] by auto
  have rm: "length (content b1) + length ([] :: string) + length data + 4 \<le> 0x4000"
    using record_openD(2) [OF op] room by simp
  obtain rd b3 c3 where w: "write_label A b2 data c1 = Inr (int (length rd), b3, c3)"
    and a3: "appended b2 b3 rd" and lrd: "length rd \<le> length data + 2"
    and nd: "\<forall>w. name_at (content b1 @ be16 w @ [] @ rd) (length (content b1) + 2 + length ([] :: string))
        (split_on CHR ''.'' data) (length rd)"
    and okd: "\<forall>w. cache_ok (content b1 @ be16 w @ [] @ rd) c3"
    using write_label_patched [OF A i2 c2 ok names(2) rm] .
  let ?payload = "\<lambda>b. bindE (write_label A b data c1) (\<lambda>(n, b, cache). Inr (word_of_int n, b, cache))"
  have "?payload b2 = Inr (word_of_nat (length rd), b3, c3)" using w by simp
  then have "\<exists>b'. add_data A b1 ?payload = Inr (b', c3) \<and> ?R b' c3"
    by (rule record_close [OF op _ a3]) (use lrd nd okd room in simp_all)
  with r show ?thesis by (auto simp: add_answer_ptr_def)
qed

definition srv_data :: "string \<Rightarrow> string \<Rightarrow> nat \<Rightarrow> nat \<Rightarrow> bool" where
  "srv_data data pkt j dl \<longleftrightarrow> word_at pkt j = 0 \<and> word_at pkt (j + 2) = 0 \<and> word_at pkt (j + 4) = 9431
     \<and> (\<exists>k. name_at pkt (j + 6) (split_on CHR ''.'' data) k \<and> dl = k + 6)"

lemma add_additional_srv_spec:
  assumes A: "ample A" and b: "buf_inv b" "cache_ok (content b) cache"
    and names: "good_name label" "good_name data"
    and room: "length (content b) + length label + length data + 20 \<le> 0x4000"
  shows "\<exists>b' cache'. add_additional_srv A b label ty cl ttl data cache = Inr (b', cache')
    \<and> record_added b b' cache' (length label + length data + 20) label ty cl ttl (srv_data data)"
    (is "\<exists>b' cache'. _ \<and> ?R b' cache'")
proof -
  have "length (content b) + length label + 2 \<le> 0x4000" using room by simp
  then obtain b1 c1 b2 where r: "add_record A b label ty cl ttl cache = Inr (b1, c1)"
    and ok: "cache_ok (content b1) c1" and op: "record_open A b b1 b2 label ty cl ttl"
    using record_start [OF A b names(1)] by blast
  let ?pre = "be16 0 @ be16 0 @ be16 0x24d7"
  have c2: "content b2 = content b1 @ be16 0" and i2: "buf_inv b2" using record_openD(1) [OF op] by auto
  obtain b3 where w3: "foldE (write16 A) b2 [0, 0, 0x24d7] = Inr b3" and a3: "appended b2 b3 ?pre"
    using w16.emit_all [OF A i2, of "[0, 0, 0x24d7]"] by auto
  have c3: "content b3 = content b1 @ be16 0 @ ?pre" and i3: "buf_inv b3" using a3 c2 by auto
  have rm: "length (content b1) + length ?pre + length data + 4 \<le> 0x4000"
    using record_openD(2) [OF op] room by simp
  obtain nm b4 c4 where w: "write_label A b3 data c1 = Inr (int (length nm), b4, c4)"
    and a4: "appended b3 b4 nm" and lnm: "length nm \<le> length data + 2"
    and nd: "\<forall>w. name_at (content b1 @ be16 w @ ?pre @ nm) (length (content b1) + 2 + length ?pre)
        (split_on CHR ''.'' data) (length nm)"
    and okd: "\<forall>w. cache_ok (content b1 @ be16 w @ ?pre @ nm) c4"
    using write_label_patched [OF A i3 c3 ok names(2) rm] .
  let ?rd = "?pre @ nm"
  have a: "appended b2 b4 ?rd" using appended_trans [OF a3 a4] by simp
  let ?payload = "\<lambda>b. bindE (write16 A b 0) (\<lambda>b. bindE (write16 A b 0) (\<lambda>b. bindE (write16 A b 0x24d7) (\<lambda>b.
      bindE (write_label A b data c1) (\<lambda>(n, b, cache). Inr (0 + 6 + word_of_int n, b, cache)))))"
  have "?payload b2 = Inr (word_of_nat (length ?rd), b4, c4)"
    using w w3 by (auto simp: bindE_eq_Inr)
  moreover have "srv_data data (content b1 @ be16 (word_of_nat (length ?rd)) @ ?rd)
      (length (content b1) + 2) (length ?rd)"
  proof -
    let ?v = "content b1 @ be16 (word_of_nat (length ?rd))"
    let ?j = "length (content b1) + 2"
    have u: "unat (0x24d7 :: uint16) = 9431" by simp
    have "word_at (?v @ ?rd) ?j = 0"
      using word_at_be16 [of ?v 0 "be16 0 @ be16 0x24d7 @ nm"] by simp
    moreover have "word_at (?v @ ?rd) (?j + 2) = 0"
      using word_at_be16 [of "?v @ be16 0" 0 "be16 0x24d7 @ nm"] by (simp add: numeral_eq_Suc)
    moreover have "word_at (?v @ ?rd) (?j + 4) = 9431"
      using word_at_be16 [of "?v @ be16 0 @ be16 0" "0x24d7" nm, unfolded u] by (simp add: add.commute)
    moreover have "name_at (?v @ ?rd) (?j + 6) (split_on CHR ''.'' data) (length nm)"
      using nd by (simp add: add.commute)
    ultimately show ?thesis unfolding srv_data_def by simp
  qed
  ultimately have "\<exists>b'. add_data A b1 ?payload = Inr (b', c4) \<and> ?R b' c4"
    using lnm room okd by (intro record_close [OF op _ a]) simp_all
  with r show ?thesis by (auto simp: add_additional_srv_def)
qed

lemma add_additional_txt_spec:
  assumes A: "ample A" and b: "buf_inv b" "cache_ok (content b) cache" and name: "good_name label"
    and data: "\<forall>s \<in> set data. NUL \<notin> set s \<and> length s < 256"
    and room: "length (content b) + length label + length (strings_wire data) + 12 \<le> 0x4000"
  shows "\<exists>b' cache'. add_additional_txt A b label ty cl ttl data cache = Inr (b', cache')
    \<and> record_added b b' cache' (length label + length (strings_wire data) + 12) label ty cl ttl
        (\<lambda>pkt j dl. dl = length (strings_wire data) \<and> take dl (drop j pkt) = strings_wire data)"
    (is "\<exists>b' cache'. _ \<and> ?R b' cache'")
proof -
  have "length (content b) + length label + 2 \<le> 0x4000" using room by simp
  then obtain b1 c1 b2 where r: "add_record A b label ty cl ttl cache = Inr (b1, c1)"
    and ok: "cache_ok (content b1) c1" and op: "record_open A b b1 b2 label ty cl ttl"
    using record_start [OF A b name] by blast
  obtain b3 where w: "write_vector A b2 data = Inr (int (length (strings_wire data)), b3)"
    and a3: "appended b2 b3 (strings_wire data)"
    using write_vector_spec [OF A appendedD(1) [OF record_openD(1) [OF op]] data] by blast
  let ?payload = "\<lambda>b. bindE (write_vector A b data) (\<lambda>(n, b). Inr (0 + word_of_int n, b, c1))"
  have "?payload b2 = Inr (word_of_nat (length (strings_wire data)), b3, c1)" using w by simp
  then have "\<exists>b'. add_data A b1 ?payload = Inr (b', c1) \<and> ?R b' c1"
    by (rule record_close [OF op _ a3]) (use room cache_ok_append [OF ok] in simp_all)
  with r show ?thesis by (auto simp: add_additional_txt_def)
qed

lemma add_additional_addr_spec:
  assumes A: "ample A" and b: "buf_inv b" "cache_ok (content b) cache" and name: "good_name label"
    and ns: "length ns = 4" "\<forall>n \<in> set ns. n < 256"
    and room: "length (content b) + length label + 16 \<le> 0x4000"
  shows "\<exists>b' cache'. add_additional_addr A b label ty cl ttl (dotted_quad ns) cache = Inr (b', cache')
    \<and> record_added b b' cache' (length label + 16) label ty cl ttl
        (\<lambda>pkt j dl. dl = 4 \<and> take 4 (drop j pkt) = map char_of ns)"
    (is "\<exists>b' cache'. _ \<and> ?R b' cache'")
proof -
  have "length (content b) + length label + 2 \<le> 0x4000" using room by simp
  then obtain b1 c1 b2 where r: "add_record A b label ty cl ttl cache = Inr (b1, c1)"
    and ok: "cache_ok (content b1) c1" and op: "record_open A b b1 b2 label ty cl ttl"
    using record_start [OF A b name] by blast
  obtain b3 where w: "write_ip A b2 (dotted_quad ns) = Inr (4, b3)"
    and a3: "appended b2 b3 (map char_of ns)"
    using write_ip_quad [OF A appendedD(1) [OF record_openD(1) [OF op]] ns] .
  let ?payload = "\<lambda>b. bindE (write_ip A b (dotted_quad ns)) (\<lambda>(n, b). Inr (word_of_int n, b, c1))"
  have "?payload b2 = Inr (word_of_nat (length (map char_of ns :: string)), b3, c1)" using w ns by simp
  then have "\<exists>b'. add_data A b1 ?payload = Inr (b', c1) \<and> ?R b' c1"
    by (rule record_close [OF op _ a3]) (use room ns cache_ok_append [OF ok] in simp_all)
  with r show ?thesis by (auto simp: add_additional_addr_def)
qed

end
