(* ===== verification/MDNS.thy ===== *)
theory MDNS
  imports Composer
begin

text \<open>
  mDNS messages (flint/src/discovery/mdns/MDNS.cpp): \<open>mDNSHeader\<close>, \<open>mDNSQuery\<close>, \<open>mDNSRecord\<close> and
  \<open>MDNSIncoming\<close>, the objects a received datagram is parsed into, and the tests the server makes
  on them. A constructor is a function to its object; parsing may fault or, through \<open>getLabel\<close>,
  not end. The text form of an IPv6 address (\<open>inet_ntop\<close> for \<open>AF_INET6\<close>) is the parameter \<open>ntop6\<close>.

  A pointer or integer member that a constructor leaves uninitialised is \<open>None\<close>.
\<close>

section \<open>Header\<close>

record mdns_header =
  hd_id :: uint16
  hd_flag :: uint16
  hd_query_num :: uint16
  hd_answer_num :: uint16
  hd_auth_num :: uint16
  hd_add_num :: uint16

definition mDNSHeader :: "buffer \<Rightarrow> uint16 \<Rightarrow> uint16 \<Rightarrow> fault + mdns_header" where
  "mDNSHeader buf data_len index =
     bindE (get16 buf data_len (index + 0)) (\<lambda>i.
     bindE (get16 buf data_len (index + 2)) (\<lambda>flag.
     bindE (get16 buf data_len (index + 4)) (\<lambda>query_num.
     bindE (get16 buf data_len (index + 6)) (\<lambda>answer_num.
     bindE (get16 buf data_len (index + 8)) (\<lambda>auth_num.
     bindE (get16 buf data_len (index + 10)) (\<lambda>add_num.
     Inr \<lparr>hd_id = i, hd_flag = flag, hd_query_num = query_num, hd_answer_num = answer_num,
          hd_auth_num = auth_num, hd_add_num = add_num\<rparr>))))))"

definition isQuery :: "mdns_header \<Rightarrow> bool" where
  "isQuery h \<longleftrightarrow> hd_flag h AND 0x8000 = 0"

definition isResponse :: "mdns_header \<Rightarrow> bool" where
  "isResponse h \<longleftrightarrow> hd_flag h AND 0x8000 = 0x8000"

definition isAuthoritativeAnswer :: "mdns_header \<Rightarrow> bool" where
  "isAuthoritativeAnswer h \<longleftrightarrow> hd_flag h AND 0x400 \<noteq> 0"

definition isTruncated :: "mdns_header \<Rightarrow> bool" where
  "isTruncated h \<longleftrightarrow> hd_flag h AND 0x200 \<noteq> 0"

section \<open>Questions\<close>

record mdns_query =
  q_protocol :: "buffer option"
  q_type :: uint16
  q_class :: uint16
  q_length :: uint16

text \<open>
  The result of \<open>getLabel\<close> is narrowed to 16 bits; the test for a negative length compares an
  unsigned value and never succeeds, so a rejected name counts 65535 octets.
\<close>

definition mDNSQuery :: "allocator \<Rightarrow> buffer \<Rightarrow> uint16 \<Rightarrow> uint16 \<Rightarrow> (fault + mdns_query) option" where
  "mDNSQuery A buf data_len index =
     bindO (Some (new_Buffer A 128)) (\<lambda>protocol.
     bindO (getLabel A buf data_len index protocol) (\<lambda>(ret, protocol).
     let protocol_len = ucast ret :: uint16
     in Some (
       bindE (get16 buf data_len (protocol_len + index)) (\<lambda>type.
       bindE (get16 buf data_len (protocol_len + index + 2)) (\<lambda>cls.
       Inr \<lparr>q_protocol = (if uint protocol_len < 0 then None else Some protocol),
            q_type = type, q_class = cls, q_length = protocol_len + 4\<rparr>)))))"

definition getProtocol :: "mdns_query \<Rightarrow> string option" where
  "getProtocol q = (case q_protocol q of None \<Rightarrow> None | Some b \<Rightarrow> bdata b)"

section \<open>Records\<close>

definition TYPE_ADDRESS :: uint16 where "TYPE_ADDRESS = 0x01"
definition TYPE_NAMESERVER :: uint16 where "TYPE_NAMESERVER = 0x02"
definition TYPE_CNAME :: uint16 where "TYPE_CNAME = 0x05"
definition TYPE_PTR :: uint16 where "TYPE_PTR = 0x0C"
definition TYPE_TXT :: uint16 where "TYPE_TXT = 0x10"
definition TYPE_AAAA :: uint16 where "TYPE_AAAA = 0x1C"
definition TYPE_SRV :: uint16 where "TYPE_SRV = 0x21"

definition RR_TYPE_ANSWER :: uint8 where "RR_TYPE_ANSWER = 0x01"
definition RR_TYPE_AUTH :: uint8 where "RR_TYPE_AUTH = 0x02"
definition RR_TYPE_ADD :: uint8 where "RR_TYPE_ADD = 0x03"

lemmas rr_constants = TYPE_ADDRESS_def TYPE_NAMESERVER_def TYPE_CNAME_def TYPE_PTR_def TYPE_TXT_def
  TYPE_AAAA_def TYPE_SRV_def RR_TYPE_ANSWER_def RR_TYPE_AUTH_def RR_TYPE_ADD_def

record mdns_record =
  r_name :: buffer
  r_type :: uint16
  r_class :: uint16
  r_ttl :: uint32
  r_data_length :: uint16
  r_data :: "buffer option"
  r_length :: uint16
  r_record_type :: uint8
  r_srv :: "(uint16 \<times> uint16 \<times> uint16) option"

text \<open>\<open>inet_ntop\<close> of 4 octets.\<close>

definition ntop4 :: "string \<Rightarrow> string" where
  "ntop4 xs = dotted_quad (map of_char xs)"

definition append_address ::
  "allocator \<Rightarrow> buffer \<Rightarrow> int \<Rightarrow> int \<Rightarrow> (string \<Rightarrow> string) \<Rightarrow> buffer \<Rightarrow> fault + buffer" where
  "append_address A buf pos n ntop data =
     bindE (deref (bdata buf)) (\<lambda>m.
     bindE (mem_slice m pos n) (\<lambda>xs.
     let text = c_str (ntop xs)
     in bindE (strlen text) (\<lambda>l. bindE (append_raw A data (Some text) l) (\<lambda>(_, d). Inr d))))"

text \<open>The \<open>switch\<close> on the type: the data buffer, and priority, weight and port of a service.\<close>

definition record_data ::
  "allocator \<Rightarrow> (string \<Rightarrow> string) \<Rightarrow> buffer \<Rightarrow> uint16 \<Rightarrow> uint16 \<Rightarrow> uint16 \<Rightarrow> uint16 \<Rightarrow> buffer
    \<Rightarrow> (fault + buffer \<times> (uint16 \<times> uint16 \<times> uint16) option) option" where
  "record_data A ntop6 buf data_len index name_len type data =
     (if type = TYPE_ADDRESS then
        Some (bindE (append_address A buf (uint index + uint name_len + 10) 4 ntop4 data) (\<lambda>d. Inr (d, None)))
      else if type = TYPE_NAMESERVER \<or> type = TYPE_CNAME \<or> type = TYPE_PTR then
        bindO (getLabel A buf data_len (name_len + index + 10) data) (\<lambda>(_, d). Some (Inr (d, None)))
      else if type = TYPE_SRV then
        bindO (Some (get16 buf data_len (name_len + index + 10))) (\<lambda>priority.
        bindO (Some (get16 buf data_len (name_len + index + 12))) (\<lambda>weight.
        bindO (Some (get16 buf data_len (name_len + index + 14))) (\<lambda>port.
        bindO (getLabel A buf data_len (name_len + index + 16) data) (\<lambda>(_, d).
        Some (Inr (d, Some (priority, weight, port)))))))
      else if type = TYPE_AAAA then
        Some (bindE (append_address A buf (uint index + uint name_len + 10) 16 ntop6 data) (\<lambda>d. Inr (d, None)))
      else Some (Inr (data, None)))"

definition mDNSRecord ::
  "allocator \<Rightarrow> (string \<Rightarrow> string) \<Rightarrow> buffer \<Rightarrow> uint16 \<Rightarrow> uint16 \<Rightarrow> uint8 \<Rightarrow> (fault + mdns_record) option" where
  "mDNSRecord A ntop6 buf data_len index record_type =
     bindO (Some (new_Buffer A 128)) (\<lambda>name.
     bindO (getLabel A buf data_len index name) (\<lambda>(ret, name).
     let name_len = ucast ret :: uint16
     in
     bindO (Some (get16 buf data_len (name_len + index))) (\<lambda>type.
     bindO (Some (get16 buf data_len (name_len + index + 2))) (\<lambda>cls.
     bindO (Some (get32 buf data_len (name_len + index + 4))) (\<lambda>ttl.
     bindO (Some (get16 buf data_len (name_len + index + 8))) (\<lambda>data_length.
     let r = \<lparr>r_name = name, r_type = type, r_class = cls, r_ttl = ttl, r_data_length = data_length,
              r_data = None, r_length = name_len + 10 + data_length, r_record_type = record_type,
              r_srv = None\<rparr>
     in if 0 < data_length then
          bindO (Some (new_Buffer A 128)) (\<lambda>data.
          bindO (record_data A ntop6 buf data_len index name_len type data) (\<lambda>(d, srv).
          Some (Inr (r\<lparr>r_data := Some d, r_srv := srv\<rparr>))))
        else Some (Inr r)))))))"

text \<open>The destructor deletes the data buffer whether the constructor set it or not.\<close>

definition delete_record :: "mdns_record \<Rightarrow> fault + unit" where
  "delete_record r = (if r_data r = None then Inl WildPointer else Inr ())"

section \<open>Datagrams\<close>

record mdns_incoming =
  in_buffer :: buffer
  in_header :: mdns_header
  in_queries :: "mdns_query list option"
  in_records :: "mdns_record list option"

definition HEADER_LENGTH :: uint16 where
  "HEADER_LENGTH = 0x0C"

fun read_queries ::
  "allocator \<Rightarrow> buffer \<Rightarrow> uint16 \<Rightarrow> nat \<Rightarrow> uint16 \<Rightarrow> (fault + mdns_query list \<times> uint16) option" where
  "read_queries A buf len 0 cursor = Some (Inr ([], cursor))"
| "read_queries A buf len (Suc n) cursor =
     bindO (mDNSQuery A buf len cursor) (\<lambda>q.
     bindO (read_queries A buf len n (cursor + q_length q)) (\<lambda>(qs, cursor').
     Some (Inr (q # qs, cursor'))))"

fun read_records ::
  "allocator \<Rightarrow> (string \<Rightarrow> string) \<Rightarrow> buffer \<Rightarrow> uint16 \<Rightarrow> uint8 \<Rightarrow> nat \<Rightarrow> uint16
    \<Rightarrow> (fault + mdns_record list \<times> uint16) option" where
  "read_records A ntop6 buf len rt 0 cursor = Some (Inr ([], cursor))"
| "read_records A ntop6 buf len rt (Suc n) cursor =
     bindO (mDNSRecord A ntop6 buf len cursor rt) (\<lambda>r.
     bindO (read_records A ntop6 buf len rt n (cursor + r_length r)) (\<lambda>(rs, cursor').
     Some (Inr (r # rs, cursor'))))"

text \<open>One of the three record sections: the list is created when the first section is not empty.\<close>

definition read_section ::
  "allocator \<Rightarrow> (string \<Rightarrow> string) \<Rightarrow> buffer \<Rightarrow> uint16 \<Rightarrow> uint8 \<Rightarrow> uint16
    \<Rightarrow> mdns_record list option \<times> uint16 \<Rightarrow> (fault + mdns_record list option \<times> uint16) option" where
  "read_section A ntop6 buf len rt num st =
     (let (records, cursor) = st
      in if 0 < num then
           bindO (read_records A ntop6 buf len rt (unat num) cursor) (\<lambda>(rs, cursor').
           Some (Inr (Some ((case records of None \<Rightarrow> [] | Some l \<Rightarrow> l) @ rs), cursor')))
         else Some (Inr st))"

definition MDNSIncoming ::
  "allocator \<Rightarrow> (string \<Rightarrow> string) \<Rightarrow> string option \<Rightarrow> uint16 \<Rightarrow> (fault + mdns_incoming) option" where
  "MDNSIncoming A ntop6 data_ptr len =
     bindO (Some (new_Buffer A (uint len))) (\<lambda>buf.
     bindO (Some (append_raw A buf data_ptr (uint len))) (\<lambda>(_, buf).
     bindO (Some (mDNSHeader buf len 0)) (\<lambda>h.
     bindO (if 0 < hd_query_num h then
              bindO (read_queries A buf len (unat (hd_query_num h)) (0 + HEADER_LENGTH))
                (\<lambda>(qs, c). Some (Inr (Some qs, c)))
            else Some (Inr (None, 0 + HEADER_LENGTH))) (\<lambda>(queries, cursor).
     bindO (read_section A ntop6 buf len RR_TYPE_ANSWER (hd_answer_num h) (None, cursor)) (\<lambda>st.
     bindO (read_section A ntop6 buf len RR_TYPE_AUTH (hd_auth_num h) st) (\<lambda>st.
     bindO (read_section A ntop6 buf len RR_TYPE_ADD (hd_add_num h) st) (\<lambda>(records, _).
     Some (Inr \<lparr>in_buffer = buf, in_header = h, in_queries = queries, in_records = records\<rparr>))))))))"

definition delete_incoming :: "mdns_incoming \<Rightarrow> fault + unit" where
  "delete_incoming inc =
     (case in_records inc of
        None \<Rightarrow> Inr ()
      | Some rs \<Rightarrow> foldE (\<lambda>_ r. delete_record r) () rs)"

fun compare_loop :: "string \<Rightarrow> mdns_query list \<Rightarrow> fault + bool" where
  "compare_loop protocol [] = Inr False"
| "compare_loop protocol (q # qs) =
     bindE (deref (getProtocol q)) (\<lambda>p.
     if iequals (cstr p) protocol then Inr True else compare_loop protocol qs)"

definition compareProtocol :: "mdns_incoming \<Rightarrow> string \<Rightarrow> fault + bool" where
  "compareProtocol inc protocol =
     (case in_queries inc of None \<Rightarrow> Inr False | Some qs \<Rightarrow> compare_loop protocol qs)"

section \<open>Parsing what is on the wire\<close>

lemma fresh_buffer:
  assumes "ample A"
  obtains b where "new_Buffer A 128 = Inr b" and "buf_inv b" and "content b = []" and "bdata b \<noteq> None"
  using new_Buffer_spec [of 128 A] assms by auto

lemma get16_packet:
  assumes "packet buf n pkt" and "Suc i < length pkt"
  shows "get16 buf n (word_of_nat i) = Inr (word_of_nat (word_at pkt i))"
  using get16_in [OF assms] unfolding word_at_def .

lemma get32_packet:
  assumes "packet buf n pkt" and "i + 3 < length pkt"
    and "word_at pkt i = unat w div 65536" and "word_at pkt (i + 2) = unat w mod 65536"
  shows "get32 buf n (word_of_nat i) = Inr w"
  unfolding get32_in [OF assms(1, 2)] assms(3, 4) div_mult_mod_eq by simp

lemma name_at_extent: "name_at pkt i ls k \<Longrightarrow> i + k \<le> length pkt"
  by (induction rule: name_at.induct) auto

lemma index_sum:
  "word_of_nat k + word_of_nat i = (word_of_nat (i + k) :: uint16)"
  "word_of_nat k + numeral m = (word_of_nat (k + numeral m) :: uint16)"
  by (simp_all add: ac_simps)

lemma getLabel_fresh:
  assumes p: "packet buf n pkt" and A: "ample A" and nm: "name_at pkt i (split_on CHR ''.'' s) k"
    and b: "buf_inv b" "content b = []"
  obtains b' where "getLabel A buf n (word_of_nat i) b = Some (Inr (word_of_nat k, b'))"
    and "content b' = s" and "(ucast (word_of_nat k :: uint32) :: uint16) = word_of_nat k" and "buf_inv b'"
proof -
  have "k < 2 ^ LENGTH(32)" using name_at_extent [OF nm] packet_length [OF p] by simp
  then have "(ucast (word_of_nat k :: uint32) :: uint16) = word_of_nat k"
    by (rule ucast_of_nat_less)
  with getLabel_denotes [OF p A b(1) nm split_on_not_Nil] b(2) that show thesis by auto
qed

lemma mDNSQuery_at:
  assumes p: "packet buf n pkt" and A: "ample A" and q: "question_at pkt i name ty cl j"
  obtains q b where "mDNSQuery A buf n (word_of_nat i) = Some (Inr q)"
    and "q_protocol q = Some b" and "content b = name" and "q_type q = ty" and "q_class q = cl"
    and "word_of_nat i + q_length q = word_of_nat j" and "buf_inv b"
proof -
  from q obtain k where nm: "name_at pkt i (split_on CHR ''.'' name) k"
    and w: "word_at pkt (i + k) = unat ty" "word_at pkt (i + k + 2) = unat cl"
    and j: "j = i + k + 4" "j \<le> length pkt" by (auto simp: question_at_def)
  obtain b where b: "new_Buffer A 128 = Inr b" "buf_inv b" "content b = []"
    using fresh_buffer [OF A] .
  obtain b' where g: "getLabel A buf n (word_of_nat i) b = Some (Inr (word_of_nat k, b'))"
    and c: "content b' = name" and k: "(ucast (word_of_nat k :: uint32) :: uint16) = word_of_nat k"
    and i': "buf_inv b'"
    using getLabel_fresh [OF p A nm b(2, 3)] .
  have g1: "get16 buf n (word_of_nat (i + k)) = Inr ty"
    using get16_packet [OF p, of "i + k"] j w(1) by simp
  have g2: "get16 buf n (word_of_nat (i + k + 2)) = Inr cl"
    using get16_packet [OF p, of "i + k + 2"] j w(2) by simp
  have "mDNSQuery A buf n (word_of_nat i) = Some (Inr \<lparr>q_protocol = Some b', q_type = ty,
      q_class = cl, q_length = word_of_nat k + 4\<rparr>)"
    unfolding mDNSQuery_def b(1) bindO_simps g split_conv k Let_def index_sum g1 g2 by simp
  with c i' j that show thesis by (auto simp: ac_simps)
qed

lemma append_text:
  assumes A: "ample A" and b: "buf_inv b" and s: "NUL \<notin> set s"
  obtains b' l where "append_raw A b (Some (c_str s)) (int (length s)) = Inr (l, b')"
    and "appended b b' s"
proof (cases "s = []")
  case True
  obtain b' where "append_raw A b (Some (c_str [])) 0 = Inr (int (length (cstr [])), b')"
    and "appended b b' (cstr [])"
    using append_raw_str_ok [OF A b] .
  with True show thesis by (intro that) (simp_all add: cstr_def)
next
  case False
  then have n: "0 < length s" "length s \<le> length (c_str s)" by (simp_all add: c_str_def)
  obtain b2 where "append_raw A b (Some (c_str s)) (int (length s)) = Inr (int (length s), b2)"
    and "appended b b2 (take (length s) (c_str s))"
    using append_raw_ok [OF A b n] .
  then show thesis by (intro that) (simp_all add: c_str_def)
qed

lemma set_join_on: "set (join_on sep ws) \<subseteq> set sep \<union> \<Union> (set ` set ws)"
  by (induction sep ws rule: join_on.induct) auto

lemma NUL_notin_quad: "NUL \<notin> set (dotted_quad ns)"
proof
  assume "NUL \<in> set (dotted_quad ns)"
  then obtain n where "NUL \<in> set (show_nat n)"
    using set_join_on [of "''.''" "map show_nat ns"] by (auto simp: dotted_quad_def)
  then show False using digits_of_isdigit [of NUL n] by (simp add: show_nat_def isdigit_def)
qed

text \<open>What the parser makes of the data of a record, by type.\<close>

definition data_reads ::
  "string \<Rightarrow> uint16 \<Rightarrow> nat \<Rightarrow> nat \<Rightarrow> string \<Rightarrow> bool" where
  "data_reads pkt ty j dl s \<longleftrightarrow>
     (if ty = TYPE_PTR then name_at pkt j (split_on CHR ''.'' s) dl
      else if ty = TYPE_SRV then srv_data s pkt j dl
      else if ty = TYPE_ADDRESS then dl = 4 \<and> s = dotted_quad (map of_char (take 4 (drop j pkt)))
      else if ty = TYPE_TXT then s = [] else False)"

lemma record_data_reads:
  assumes p: "packet buf n pkt" and A: "ample A" and b: "buf_inv b" "content b = []"
    and D: "data_reads pkt ty (i + k + 10) dl s" and l: "i + k + 10 + dl \<le> length pkt"
  shows "\<exists>b' srv. record_data A ntop6 buf n (word_of_nat i) (word_of_nat k) ty b = Some (Inr (b', srv))
    \<and> content b' = s \<and> (ty = TYPE_SRV \<longrightarrow> srv = Some (0, 0, 9431))"
proof -
  let ?j = "i + k + 10"
  from D consider (ptr) "ty = TYPE_PTR" "name_at pkt ?j (split_on CHR ''.'' s) dl"
    | (srv) "ty = TYPE_SRV" "srv_data s pkt ?j dl"
    | (addr) "ty = TYPE_ADDRESS" "dl = 4" "s = dotted_quad (map of_char (take 4 (drop ?j pkt)))"
    | (strs) "ty = TYPE_TXT" "s = []"
    by (auto simp: data_reads_def split: if_splits)
  then show ?thesis
  proof cases
    case ptr
    obtain b' where "getLabel A buf n (word_of_nat ?j) b = Some (Inr (word_of_nat dl, b'))"
      and "content b' = s"
      using getLabel_fresh [OF p A ptr(2) b] .
    then show ?thesis
      unfolding record_data_def index_sum using ptr(1) by (simp add: rr_constants)
  next
    case srv
    then obtain k' where w: "word_at pkt ?j = 0" "word_at pkt (?j + 2) = 0" "word_at pkt (?j + 4) = 9431"
      and nm: "name_at pkt (?j + 6) (split_on CHR ''.'' s) k'" and dl: "dl = k' + 6"
      by (auto simp: srv_data_def)
    obtain b' where g: "getLabel A buf n (word_of_nat (?j + 6)) b = Some (Inr (word_of_nat k', b'))"
      and c: "content b' = s"
      using getLabel_fresh [OF p A nm b] .
    have j: "?j + 2 = i + k + 12" "?j + 4 = i + k + 14" "?j + 6 = i + k + 16" by simp_all
    have "get16 buf n (word_of_nat ?j) = Inr 0" "get16 buf n (word_of_nat (i + k + 12)) = Inr 0"
      "get16 buf n (word_of_nat (i + k + 14)) = Inr 9431"
      using get16_packet [OF p, of ?j] get16_packet [OF p, of "i + k + 12"]
        get16_packet [OF p, of "i + k + 14"] w [unfolded j] l dl by simp_all
    with g [unfolded j] c show ?thesis
      unfolding record_data_def index_sum using srv(1) by (simp add: rr_constants)
  next
    case addr
    from p obtain m where m: "bdata buf = Some m" and "prefix pkt m" unfolding packet_def by blast
    then obtain r where r: "m = pkt @ r" by (elim prefixE)
    have u: "uint (word_of_nat i :: uint16) + uint (word_of_nat k :: uint16) + 10 = int ?j"
      using l by (simp add: uint_word_of_nat_packet [OF p])
    have "mem_slice m (int ?j) (int 4) = Inr (take 4 (drop ?j m))"
      using l addr(2) r by (intro mem_slice_nat) simp
    moreover have "take 4 (drop ?j m) = take 4 (drop ?j pkt)" using l addr(2) r by simp
    ultimately have sl: "mem_slice m (int ?j) 4 = Inr (take 4 (drop ?j pkt))" by simp
    have s: "ntop4 (take 4 (drop ?j pkt)) = s" using addr(3) by (simp add: ntop4_def)
    have nul: "NUL \<notin> set s" using addr(3) by (simp add: NUL_notin_quad)
    obtain b' l' where "append_raw A b (Some (c_str s)) (int (length s)) = Inr (l', b')"
      and "appended b b' s"
      using append_text [OF A b(1) nul] .
    then show ?thesis
      unfolding record_data_def append_address_def u m deref_simps bindE_simps sl Let_def s
      using addr(1) b(2) nul by (simp add: rr_constants cstr_id appended_def)
  next
    case strs
    with b show ?thesis by (simp add: record_data_def rr_constants)
  qed
qed

text \<open>\<open>record_is\<close>: the fields of a parsed record.\<close>

definition record_is ::
  "mdns_record \<Rightarrow> string \<Rightarrow> uint16 \<Rightarrow> uint16 \<Rightarrow> uint32 \<Rightarrow> uint8 \<Rightarrow> string \<Rightarrow> bool" where
  "record_is r name ty cl ttl rt s \<longleftrightarrow>
     content (r_name r) = name \<and> r_type r = ty \<and> r_class r = cl \<and> r_ttl r = ttl
   \<and> r_record_type r = rt \<and> map_option content (r_data r) = Some s
   \<and> (ty = TYPE_SRV \<longrightarrow> r_srv r = Some (0, 0, 9431))"

lemma mDNSRecord_at:
  assumes p: "packet buf n pkt" and A: "ample A" and r: "rr_at pkt i name ty cl ttl dl j"
    and D: "data_reads pkt ty j dl s" and dl: "0 < dl"
  obtains r where "mDNSRecord A ntop6 buf n (word_of_nat i) rt = Some (Inr r)"
    and "record_is r name ty cl ttl rt s" and "word_of_nat i + r_length r = word_of_nat (j + dl)"
proof -
  from r obtain k where nm: "name_at pkt i (split_on CHR ''.'' name) k"
    and w: "word_at pkt (i + k) = unat ty" "word_at pkt (i + k + 2) = unat cl"
      "word_at pkt (i + k + 4) = unat ttl div 65536" "word_at pkt (i + k + 6) = unat ttl mod 65536"
      "word_at pkt (i + k + 8) = dl"
    and j: "j = i + k + 10" "j + dl \<le> length pkt" unfolding rr_at_def by blast
  obtain b where b: "new_Buffer A 128 = Inr b" "buf_inv b" "content b = []"
    using fresh_buffer [OF A] .
  obtain b' where g: "getLabel A buf n (word_of_nat i) b = Some (Inr (word_of_nat k, b'))"
    and c: "content b' = name" and k: "(ucast (word_of_nat k :: uint32) :: uint16) = word_of_nat k"
    using getLabel_fresh [OF p A nm b(2, 3)] .
  have g1: "get16 buf n (word_of_nat (i + k)) = Inr ty"
    using get16_packet [OF p, of "i + k"] j w(1) by simp
  have g2: "get16 buf n (word_of_nat (i + k + 2)) = Inr cl"
    using get16_packet [OF p, of "i + k + 2"] j w(2) by simp
  have e: "i + k + 4 + 2 = i + k + 6" by simp
  have w4: "word_at pkt (i + k + 4 + 2) = unat ttl mod 65536" unfolding e by (fact w(4))
  have g3: "get32 buf n (word_of_nat (i + k + 4)) = Inr ttl"
    by (rule get32_packet [OF p _ w(3) w4]) (use j in simp)
  have g4: "get16 buf n (word_of_nat (i + k + 8)) = Inr (word_of_nat dl)"
    using get16_packet [OF p, of "i + k + 8"] j w(5) by simp
  have "(word_of_nat dl :: uint16) \<noteq> 0"
    using dl j(2) unat_word_of_nat_packet [OF p, of dl] by (metis add_leD2 less_irrefl unat_0)
  then have pos: "0 < (word_of_nat dl :: uint16)" by (simp add: word_neq_0_conv)
  obtain d srv where rd: "record_data A ntop6 buf n (word_of_nat i) (word_of_nat k) ty b = Some (Inr (d, srv))"
    and cd: "content d = s" and srv: "ty = TYPE_SRV \<longrightarrow> srv = Some (0, 0, 9431)"
    using record_data_reads [OF p A b(2, 3), of ty i k dl s ntop6] D j by auto
  let ?r = "\<lparr>r_name = b', r_type = ty, r_class = cl, r_ttl = ttl, r_data_length = word_of_nat dl,
      r_data = Some d, r_length = word_of_nat k + 10 + word_of_nat dl, r_record_type = rt, r_srv = srv\<rparr>"
  have "mDNSRecord A ntop6 buf n (word_of_nat i) rt = Some (Inr ?r)"
    unfolding mDNSRecord_def b(1) bindO_simps g split_conv k Let_def index_sum g1 g2 g3 g4 rd
    using pos by simp
  moreover have "record_is ?r name ty cl ttl rt s" using c cd srv by (simp add: record_is_def)
  ultimately show thesis using that [of ?r] j by (simp add: ac_simps)
qed

text \<open>A record without data: the data pointer is never set.\<close>

lemma mDNSRecord_no_data:
  assumes p: "packet buf n pkt" and A: "ample A" and r: "rr_at pkt i name ty cl ttl 0 j"
  obtains r where "mDNSRecord A ntop6 buf n (word_of_nat i) rt = Some (Inr r)" and "r_data r = None"
proof -
  from r obtain k where nm: "name_at pkt i (split_on CHR ''.'' name) k"
    and w: "word_at pkt (i + k) = unat ty" "word_at pkt (i + k + 2) = unat cl"
      "word_at pkt (i + k + 4) = unat ttl div 65536" "word_at pkt (i + k + 6) = unat ttl mod 65536"
      "word_at pkt (i + k + 8) = 0"
    and j: "j = i + k + 10" "j + 0 \<le> length pkt" unfolding rr_at_def by blast
  obtain b where b: "new_Buffer A 128 = Inr b" "buf_inv b" "content b = []"
    using fresh_buffer [OF A] .
  obtain b' where g: "getLabel A buf n (word_of_nat i) b = Some (Inr (word_of_nat k, b'))"
    and k: "(ucast (word_of_nat k :: uint32) :: uint16) = word_of_nat k"
    using getLabel_fresh [OF p A nm b(2, 3)] .
  have g1: "get16 buf n (word_of_nat (i + k)) = Inr ty"
    using get16_packet [OF p, of "i + k"] j w(1) by simp
  have g2: "get16 buf n (word_of_nat (i + k + 2)) = Inr cl"
    using get16_packet [OF p, of "i + k + 2"] j w(2) by simp
  have e: "i + k + 4 + 2 = i + k + 6" by simp
  have w4: "word_at pkt (i + k + 4 + 2) = unat ttl mod 65536" unfolding e by (fact w(4))
  have g3: "get32 buf n (word_of_nat (i + k + 4)) = Inr ttl"
    by (rule get32_packet [OF p _ w(3) w4]) (use j in simp)
  have g4: "get16 buf n (word_of_nat (i + k + 8)) = Inr 0"
    using get16_packet [OF p, of "i + k + 8"] j w(5) by simp
  have "mDNSRecord A ntop6 buf n (word_of_nat i) rt = Some (Inr \<lparr>r_name = b', r_type = ty, r_class = cl,
      r_ttl = ttl, r_data_length = 0, r_data = None, r_length = word_of_nat k + 10 + 0, r_record_type = rt,
      r_srv = None\<rparr>)"
    unfolding mDNSRecord_def b(1) bindO_simps g split_conv k Let_def index_sum g1 g2 g3 g4 by simp
  with that show thesis by simp
qed

end
