(* ===== verification/MDNSServer.thy ===== *)
theory MDNSServer
  imports MDNS
begin

text \<open>
  \<open>MDNSServer\<close> (flint/src/discovery/mdns/MDNSServer.cpp): the answer to a service query. The names
  of the device and its model and its IPv4 address come from \<open>Platform\<close> and \<open>NetworkManager\<close> and
  are arguments here; a datagram sent is its octets with the destination.
\<close>

definition DEFAULT_ID :: uint16 where "DEFAULT_ID = 0x0000"
definition DEFAULT_TTL :: uint32 where "DEFAULT_TTL = 0x0A"
definition DEFAULT_BUF_SIZE :: int where "DEFAULT_BUF_SIZE = 0x200"
definition FLAG_RESPONSE :: uint16 where "FLAG_RESPONSE = 0x8000"
definition FLAG_AUTHORITATIVE :: uint16 where "FLAG_AUTHORITATIVE = 0x0400"

definition service_strings :: "string \<Rightarrow> string \<Rightarrow> string list" where
  "service_strings device_name model_name =
     [''id='' @ device_name, ''ve=02'', ''md='' @ model_name, ''ic=/setup/icon.png'', ''ca=5'',
      ''fn='' @ device_name, ''st=0'']"

definition compose_response ::
  "allocator \<Rightarrow> string \<Rightarrow> string \<Rightarrow> string \<Rightarrow> string \<Rightarrow> fault + buffer" where
  "compose_response A protocol device_name model_name ip =
     (let service = device_name @ ''.'' @ protocol;
          host = device_name @ ip @ ''.local''
      in
      bindE (new_Buffer A DEFAULT_BUF_SIZE) (\<lambda>response.
      bindE (set_header A response DEFAULT_ID (FLAG_RESPONSE OR FLAG_AUTHORITATIVE) 1 1 0 3) (\<lambda>response.
      bindE (add_query_ptr A response protocol TYPE_PTR (CLASS_UNICAST OR CLASS_IN) []) (\<lambda>(response, cache).
      bindE (add_answer_ptr A response protocol TYPE_PTR CLASS_IN DEFAULT_TTL service cache) (\<lambda>(response, cache).
      bindE (add_additional_srv A response service TYPE_SRV CLASS_IN DEFAULT_TTL host cache) (\<lambda>(response, cache).
      bindE (add_additional_txt A response service TYPE_TXT CLASS_IN DEFAULT_TTL
          (service_strings device_name model_name) cache) (\<lambda>(response, cache).
      bindE (add_additional_addr A response host TYPE_ADDRESS CLASS_IN DEFAULT_TTL ip cache) (\<lambda>(response, cache).
      Inr response))))))))"

definition parseMessage ::
  "allocator \<Rightarrow> (string \<Rightarrow> string) \<Rightarrow> string \<Rightarrow> string \<Rightarrow> string \<Rightarrow> string \<Rightarrow> string \<Rightarrow> int
    \<Rightarrow> string option \<Rightarrow> nat \<Rightarrow> (fault + (string \<times> string \<times> int) option) option" where
  "parseMessage A ntop6 protocol device_name model_name ip srcIp srcPort message len =
     bindO (MDNSIncoming A ntop6 message (word_of_nat len)) (\<lambda>incoming.
     bindO (Some (
       if \<not> isQuery (in_header incoming) then Inr None
       else bindE (compareProtocol incoming protocol) (\<lambda>same.
         if \<not> same then Inr None
         else bindE (compose_response A protocol device_name model_name ip) (\<lambda>response.
           Inr (Some (content response, srcIp, srcPort)))))) (\<lambda>sent.
     bindO (Some (delete_incoming incoming)) (\<lambda>_. Some (Inr sent))))"

section \<open>Sequences of records\<close>

text \<open>A record as its name, type, class, time to live and data in text form.\<close>

type_synonym rr_spec = "string \<times> uint16 \<times> uint16 \<times> uint32 \<times> string"

fun records_at :: "string \<Rightarrow> nat \<Rightarrow> rr_spec list \<Rightarrow> nat \<Rightarrow> bool" where
  "records_at pkt i [] e \<longleftrightarrow> e = i"
| "records_at pkt i ((name, ty, cl, ttl, s) # rs) e \<longleftrightarrow>
     (\<exists>dl j. rr_at pkt i name ty cl ttl dl j \<and> data_reads pkt ty j dl s \<and> 0 < dl
        \<and> records_at pkt (j + dl) rs e)"

definition record_matches :: "uint8 \<Rightarrow> mdns_record \<Rightarrow> rr_spec \<Rightarrow> bool" where
  "record_matches rt r spec \<longleftrightarrow>
     (case spec of (name, ty, cl, ttl, s) \<Rightarrow> record_is r name ty cl ttl rt s)"

lemma data_reads_append:
  assumes "data_reads pkt ty j dl s" and "j + dl \<le> length pkt"
  shows "data_reads (pkt @ xs) ty j dl s"
proof -
  have "srv_data s pkt j dl \<Longrightarrow> srv_data s (pkt @ xs) j dl"
    using assms(2) name_at_append by (fastforce simp: srv_data_def)
  moreover have "dl = 4 \<Longrightarrow> take 4 (drop j (pkt @ xs)) = take 4 (drop j pkt)"
    using assms(2) by simp
  ultimately show ?thesis
    using assms(1) name_at_append unfolding data_reads_def by (auto split: if_splits)
qed

lemma records_at_append: "records_at pkt i rs e \<Longrightarrow> records_at (pkt @ xs) i rs e"
proof (induction pkt i rs e rule: records_at.induct)
  case (2 pkt i name ty cl ttl s rs e)
  then obtain dl j where h: "rr_at pkt i name ty cl ttl dl j" "data_reads pkt ty j dl s" "0 < dl"
    "records_at pkt (j + dl) rs e" by auto
  then have "j + dl \<le> length pkt" by (auto simp: rr_at_def)
  with h 2 have "rr_at (pkt @ xs) i name ty cl ttl dl j" "data_reads (pkt @ xs) ty j dl s"
    "records_at (pkt @ xs) (j + dl) rs e"
    by (auto intro: rr_at_append data_reads_append)
  with h(3) show ?case by auto
qed simp

lemma records_at_join:
  "records_at pkt i rs e \<Longrightarrow> records_at pkt e rs' e' \<Longrightarrow> records_at pkt i (rs @ rs') e'"
  by (induction pkt i rs e rule: records_at.induct) auto

lemma read_records_at:
  assumes p: "packet buf n pkt" and A: "ample A"
  shows "records_at pkt i specs e \<Longrightarrow>
    \<exists>rs. read_records A ntop6 buf n rt (length specs) (word_of_nat i) = Some (Inr (rs, word_of_nat e))
      \<and> list_all2 (record_matches rt) rs specs"
proof (induction specs arbitrary: i)
  case (Cons spec specs)
  obtain name ty cl ttl s where spec: "spec = (name, ty, cl, ttl, s)" by (cases spec)
  with Cons.prems obtain dl j where h: "rr_at pkt i name ty cl ttl dl j" "data_reads pkt ty j dl s" "0 < dl"
    "records_at pkt (j + dl) specs e" by auto
  obtain r where r: "mDNSRecord A ntop6 buf n (word_of_nat i) rt = Some (Inr r)"
    and m: "record_is r name ty cl ttl rt s" and nx: "word_of_nat i + r_length r = word_of_nat (j + dl)"
    using mDNSRecord_at [OF p A h(1-3)] .
  obtain rs where "read_records A ntop6 buf n rt (length specs) (word_of_nat (j + dl)) = Some (Inr (rs, word_of_nat e))"
    and "list_all2 (record_matches rt) rs specs"
    using Cons.IH [OF h(4)] by blast
  moreover have "record_matches rt r spec" using m by (simp add: record_matches_def spec)
  ultimately show ?case using r nx
    by (intro exI [of _ "r # rs"]) (simp del: of_nat_add)
qed simp

lemma name_at_pos: "name_at pkt i ls k \<Longrightarrow> 0 < k"
  by (induction rule: name_at.induct) auto

text \<open>\<open>grown b b' k n specs\<close>: the records \<open>specs\<close> were added to \<open>b\<close>, in at most \<open>n\<close> octets.\<close>

definition grown :: "buffer \<Rightarrow> buffer \<Rightarrow> name_cache \<Rightarrow> nat \<Rightarrow> rr_spec list \<Rightarrow> bool" where
  "grown b b' cache n specs \<longleftrightarrow>
     (\<exists>xs. appended b b' xs \<and> length xs \<le> n) \<and> cache_ok (content b') cache
   \<and> records_at (content b') (length (content b)) specs (length (content b'))"

lemma grownD:
  assumes "grown b b' cache n specs"
  shows "buf_inv b'" and "length (content b') \<le> length (content b) + n" and "cache_ok (content b') cache"
    and "\<exists>xs. content b' = content b @ xs"
    and "records_at (content b') (length (content b)) specs (length (content b'))"
  using assms by (auto simp: grown_def appended_def)

lemma grown_trans:
  assumes "grown b b1 k1 n1 specs1" and "grown b1 b2 k2 n2 specs2"
  shows "grown b b2 k2 (n1 + n2) (specs1 @ specs2)"
proof -
  obtain x1 where a1: "appended b b1 x1" "length x1 \<le> n1" using assms(1) by (auto simp: grown_def)
  obtain x2 where a2: "appended b1 b2 x2" "length x2 \<le> n2" using assms(2) by (auto simp: grown_def)
  have "records_at (content b2) (length (content b)) specs1 (length (content b1))"
    using grownD(5) [OF assms(1)] a2(1) by (auto simp: appended_def intro: records_at_append)
  then have "records_at (content b2) (length (content b)) (specs1 @ specs2) (length (content b2))"
    using grownD(5) [OF assms(2)] by (rule records_at_join)
  with appended_trans [OF a1(1) a2(1)] a1(2) a2(2) grownD(3) [OF assms(2)] show ?thesis
    unfolding grown_def by (metis add_mono length_append)
qed

lemma record_added_grown:
  assumes "record_added b b' cache n label ty cl ttl D"
    and "\<And>j dl. D (content b') j dl \<Longrightarrow> data_reads (content b') ty j dl s \<and> 0 < dl"
  shows "grown b b' cache n [(label, ty, cl, ttl, s)]"
  using assms by (fastforce simp: record_added_def grown_def)

lemma answer_grown:
  assumes "ample A" and "buf_inv b" and "cache_ok (content b) cache" and "good_name label" and "good_name data"
    and "length (content b) + length label + length data + 14 \<le> 0x4000"
  obtains b' k where "add_answer_ptr A b label TYPE_PTR cl ttl data cache = Inr (b', k)"
    and "grown b b' k (length label + length data + 14) [(label, TYPE_PTR, cl, ttl, data)]"
proof -
  obtain b' k where "add_answer_ptr A b label TYPE_PTR cl ttl data cache = Inr (b', k)"
    and r: "record_added b b' k (length label + length data + 14) label TYPE_PTR cl ttl
      (\<lambda>pkt j dl. name_at pkt j (split_on CHR ''.'' data) dl)"
    using add_answer_ptr_spec [OF assms] by blast
  moreover have "grown b b' k (length label + length data + 14) [(label, TYPE_PTR, cl, ttl, data)]"
    by (rule record_added_grown [OF r]) (simp add: data_reads_def name_at_pos)
  ultimately show thesis using that by blast
qed

lemma srv_grown:
  assumes "ample A" and "buf_inv b" and "cache_ok (content b) cache" and "good_name label" and "good_name data"
    and "length (content b) + length label + length data + 20 \<le> 0x4000"
  obtains b' k where "add_additional_srv A b label TYPE_SRV cl ttl data cache = Inr (b', k)"
    and "grown b b' k (length label + length data + 20) [(label, TYPE_SRV, cl, ttl, data)]"
proof -
  obtain b' k where "add_additional_srv A b label TYPE_SRV cl ttl data cache = Inr (b', k)"
    and r: "record_added b b' k (length label + length data + 20) label TYPE_SRV cl ttl (srv_data data)"
    using add_additional_srv_spec [OF assms] by blast
  moreover have "grown b b' k (length label + length data + 20) [(label, TYPE_SRV, cl, ttl, data)]"
    by (rule record_added_grown [OF r]) (auto simp: data_reads_def rr_constants srv_data_def)
  ultimately show thesis using that by blast
qed

lemma txt_grown:
  assumes "ample A" and "buf_inv b" and "cache_ok (content b) cache" and "good_name label"
    and "\<forall>s \<in> set data. NUL \<notin> set s \<and> length s < 256" and "data \<noteq> []"
    and "length (content b) + length label + length (strings_wire data) + 12 \<le> 0x4000"
  obtains b' k where "add_additional_txt A b label TYPE_TXT cl ttl data cache = Inr (b', k)"
    and "grown b b' k (length label + length (strings_wire data) + 12) [(label, TYPE_TXT, cl, ttl, [])]"
proof -
  obtain b' k where "add_additional_txt A b label TYPE_TXT cl ttl data cache = Inr (b', k)"
    and r: "record_added b b' k (length label + length (strings_wire data) + 12) label TYPE_TXT cl ttl
        (\<lambda>pkt j dl. dl = length (strings_wire data) \<and> take dl (drop j pkt) = strings_wire data)"
    using add_additional_txt_spec [OF assms(1-5, 7)] by blast
  moreover have "0 < length (strings_wire data)"
    using assms(6) by (cases data) (simp_all add: strings_wire_Cons)
  then have "grown b b' k (length label + length (strings_wire data) + 12) [(label, TYPE_TXT, cl, ttl, [])]"
    by (intro record_added_grown [OF r]) (simp add: data_reads_def rr_constants)
  ultimately show thesis using that by blast
qed

lemma addr_grown:
  assumes "ample A" and "buf_inv b" and "cache_ok (content b) cache" and "good_name label"
    and "length ns = 4" and "\<forall>n \<in> set ns. n < 256"
    and "length (content b) + length label + 16 \<le> 0x4000"
  obtains b' k where "add_additional_addr A b label TYPE_ADDRESS cl ttl (dotted_quad ns) cache = Inr (b', k)"
    and "grown b b' k (length label + 16) [(label, TYPE_ADDRESS, cl, ttl, dotted_quad ns)]"
proof -
  obtain b' k where "add_additional_addr A b label TYPE_ADDRESS cl ttl (dotted_quad ns) cache = Inr (b', k)"
    and r: "record_added b b' k (length label + 16) label TYPE_ADDRESS cl ttl
        (\<lambda>pkt j dl. dl = 4 \<and> take 4 (drop j pkt) = map char_of ns)"
    using add_additional_addr_spec [OF assms] by blast
  moreover have "map of_char (map char_of ns :: string) = ns"
    using assms(6) by (induction ns) auto
  then have "grown b b' k (length label + 16) [(label, TYPE_ADDRESS, cl, ttl, dotted_quad ns)]"
    by (intro record_added_grown [OF r]) (auto simp: data_reads_def rr_constants)
  ultimately show thesis using that by blast
qed

section \<open>The answer\<close>

text \<open>Names, strings and total size within what the wire format can hold.\<close>

definition response_ok :: "string \<Rightarrow> string \<Rightarrow> string \<Rightarrow> nat list \<Rightarrow> bool" where
  "response_ok protocol device_name model_name ns \<longleftrightarrow>
     (let service = device_name @ ''.'' @ protocol; host = device_name @ dotted_quad ns @ ''.local''
      in good_name protocol \<and> good_name service \<and> good_name host
       \<and> (\<forall>s \<in> set (service_strings device_name model_name). NUL \<notin> set s \<and> length s < 256)
       \<and> length ns = 4 \<and> (\<forall>n \<in> set ns. n < 256)
       \<and> 2 * length protocol + 3 * length service + 2 * length host
          + length (strings_wire (service_strings device_name model_name)) + 80 \<le> 0x4000)"

definition response_specs :: "string \<Rightarrow> string \<Rightarrow> string \<Rightarrow> rr_spec list \<times> rr_spec list" where
  "response_specs protocol device_name ip =
     (let service = device_name @ ''.'' @ protocol; host = device_name @ ip @ ''.local''
      in ([(protocol, TYPE_PTR, CLASS_IN, 10, service)],
          [(service, TYPE_SRV, CLASS_IN, 10, host), (service, TYPE_TXT, CLASS_IN, 10, []),
           (host, TYPE_ADDRESS, CLASS_IN, 10, ip)]))"

definition header_octets :: string where
  "header_octets = be16 0 @ be16 0x8400 @ be16 1 @ be16 1 @ be16 0 @ be16 3"

lemma length_header_octets [simp]: "length header_octets = 12"
  by (simp add: header_octets_def)

lemma compose_start:
  assumes "ample A"
  obtains b0 b where "new_Buffer A DEFAULT_BUF_SIZE = Inr b0"
    and "set_header A b0 DEFAULT_ID (FLAG_RESPONSE OR FLAG_AUTHORITATIVE) 1 1 0 3 = Inr b"
    and "buf_inv b" and "content b = header_octets"
proof -
  obtain b0 where b0: "new_Buffer A DEFAULT_BUF_SIZE = Inr b0" "buf_inv b0" "content b0 = []"
    using new_Buffer_spec [of DEFAULT_BUF_SIZE A] by (auto simp: DEFAULT_BUF_SIZE_def)
  have f: "FLAG_RESPONSE OR FLAG_AUTHORITATIVE = 0x8400" "DEFAULT_ID = 0"
    by (simp_all add: FLAG_RESPONSE_def FLAG_AUTHORITATIVE_def DEFAULT_ID_def)
  obtain b where "set_header A b0 0 0x8400 1 1 0 3 = Inr b"
    and "appended b0 b (be16 0 @ be16 0x8400 @ be16 1 @ be16 1 @ be16 0 @ be16 3)"
    using set_header_spec [OF assms b0(2)] .
  with that b0 f show thesis by (auto simp: header_octets_def appended_def)
qed

lemma compose_response_spec:
  assumes A: "ample A" and ok: "response_ok protocol device_name model_name ns"
  obtains b b2 b3 k2 k3 k6 n n' xs where
    "compose_response A protocol device_name model_name (dotted_quad ns) = Inr b"
    and "content b2 = header_octets @ xs"
    and "question_at (content b2) 12 protocol TYPE_PTR 0x8001 (length (content b2))"
    and "grown b2 b3 k3 n (fst (response_specs protocol device_name (dotted_quad ns)))"
    and "grown b3 b k6 n' (snd (response_specs protocol device_name (dotted_quad ns)))"
    and "length (content b) \<le> 0x4000"
proof -
  let ?ip = "dotted_quad ns"
  let ?service = "device_name @ ''.'' @ protocol" and ?host = "device_name @ ?ip @ ''.local''"
  let ?strs = "service_strings device_name model_name"
  from ok have names: "good_name protocol" "good_name ?service" "good_name ?host"
    and strs: "\<forall>s \<in> set ?strs. NUL \<notin> set s \<and> length s < 256"
    and ns: "length ns = 4" "\<forall>n \<in> set ns. n < 256"
    and size: "2 * length protocol + 3 * length ?service + 2 * length ?host
        + length (strings_wire ?strs) + 80 \<le> 0x4000"
    unfolding response_ok_def Let_def by blast+
  have ne: "?strs \<noteq> []" by (simp add: service_strings_def)
  obtain b0 b1 where s0: "new_Buffer A DEFAULT_BUF_SIZE = Inr b0"
    "set_header A b0 DEFAULT_ID (FLAG_RESPONSE OR FLAG_AUTHORITATIVE) 1 1 0 3 = Inr b1"
    and i1: "buf_inv b1" and c1: "content b1 = header_octets"
    using compose_start [OF A] .
  have r: "length (content b1) + length protocol + 2 \<le> 0x4000" using c1 size by simp
  obtain x2 b2 k2 where s2: "add_query_ptr A b1 protocol TYPE_PTR (CLASS_UNICAST OR CLASS_IN) [] = Inr (b2, k2)"
    and a2: "appended b1 b2 x2" and l2: "length x2 \<le> length protocol + 6"
    and k2: "cache_ok (content b1 @ x2) k2"
    and q: "question_at (content b1 @ x2) (length (content b1)) protocol TYPE_PTR 0x8001 (length (content b1 @ x2))"
    using add_query_ptr_spec [OF A i1 cache_ok_Nil names(1) r] .
  have i2: "buf_inv b2" and c2: "content b2 = header_octets @ x2" using a2 c1 by auto
  have r: "length (content b2) + length protocol + length ?service + 14 \<le> 0x4000"
    using c2 l2 size by simp
  obtain b3 k3 where s3: "add_answer_ptr A b2 protocol TYPE_PTR CLASS_IN DEFAULT_TTL ?service k2 = Inr (b3, k3)"
    and g3: "grown b2 b3 k3 (length protocol + length ?service + 14)
        [(protocol, TYPE_PTR, CLASS_IN, DEFAULT_TTL, ?service)]"
    using answer_grown [OF A i2 _ names(1, 2) r] k2 c1 c2 by metis
  have r: "length (content b3) + length ?service + length ?host + 20 \<le> 0x4000"
    using grownD(2) [OF g3] c2 l2 size by simp
  obtain b4 k4 where s4: "add_additional_srv A b3 ?service TYPE_SRV CLASS_IN DEFAULT_TTL ?host k3 = Inr (b4, k4)"
    and g4: "grown b3 b4 k4 (length ?service + length ?host + 20) [(?service, TYPE_SRV, CLASS_IN, DEFAULT_TTL, ?host)]"
    using srv_grown [OF A grownD(1, 3) [OF g3] names(2, 3) r] .
  have r: "length (content b4) + length ?service + length (strings_wire ?strs) + 12 \<le> 0x4000"
    using grownD(2) [OF g3] grownD(2) [OF g4] c2 l2 size by simp
  obtain b5 k5 where s5: "add_additional_txt A b4 ?service TYPE_TXT CLASS_IN DEFAULT_TTL ?strs k4 = Inr (b5, k5)"
    and g5: "grown b4 b5 k5 (length ?service + length (strings_wire ?strs) + 12)
        [(?service, TYPE_TXT, CLASS_IN, DEFAULT_TTL, [])]"
    using txt_grown [OF A grownD(1, 3) [OF g4] names(2) strs ne r] .
  have r: "length (content b5) + length ?host + 16 \<le> 0x4000"
    using grownD(2) [OF g3] grownD(2) [OF g4] grownD(2) [OF g5] c2 l2 size by simp
  obtain b6 k6 where s6: "add_additional_addr A b5 ?host TYPE_ADDRESS CLASS_IN DEFAULT_TTL ?ip k5 = Inr (b6, k6)"
    and g6: "grown b5 b6 k6 (length ?host + 16) [(?host, TYPE_ADDRESS, CLASS_IN, DEFAULT_TTL, ?ip)]"
    using addr_grown [OF A grownD(1, 3) [OF g5] names(3) ns r] .
  have "compose_response A protocol device_name model_name ?ip = Inr b6"
    unfolding compose_response_def Let_def s0 s2 s3 s4 s5 s6 bindE_simps split_conv ..
  moreover have "question_at (content b2) 12 protocol TYPE_PTR 0x8001 (length (content b2))"
    using q c1 c2 by simp
  moreover have "length (content b6) \<le> 0x4000"
    using grownD(2) [OF g3] grownD(2) [OF g4] grownD(2) [OF g5] grownD(2) [OF g6] c2 l2 size by simp
  ultimately show thesis
    using that [of b6 b2 x2] c2 g3 grown_trans [OF g4 grown_trans [OF g5 g6]]
    by (auto simp: response_specs_def Let_def DEFAULT_TTL_def)
qed

section \<open>Parsing whole datagrams\<close>

type_synonym query_spec = "string \<times> uint16 \<times> uint16"

fun questions_at :: "string \<Rightarrow> nat \<Rightarrow> query_spec list \<Rightarrow> nat \<Rightarrow> bool" where
  "questions_at pkt i [] e \<longleftrightarrow> e = i"
| "questions_at pkt i ((name, ty, cl) # qs) e \<longleftrightarrow>
     (\<exists>j. question_at pkt i name ty cl j \<and> questions_at pkt j qs e)"

definition query_matches :: "mdns_query \<Rightarrow> query_spec \<Rightarrow> bool" where
  "query_matches q spec \<longleftrightarrow>
     (case spec of (name, ty, cl) \<Rightarrow>
        (\<exists>b. q_protocol q = Some b \<and> buf_inv b \<and> content b = name) \<and> q_type q = ty \<and> q_class q = cl)"

definition header_of :: "string \<Rightarrow> mdns_header" where
  "header_of pkt = \<lparr>hd_id = word_of_nat (word_at pkt 0), hd_flag = word_of_nat (word_at pkt 2),
     hd_query_num = word_of_nat (word_at pkt 4), hd_answer_num = word_of_nat (word_at pkt 6),
     hd_auth_num = word_of_nat (word_at pkt 8), hd_add_num = word_of_nat (word_at pkt 10)\<rparr>"

lemma mDNSHeader_at:
  assumes p: "packet buf n pkt" and l: "12 \<le> length pkt"
  shows "mDNSHeader buf n 0 = Inr (header_of pkt)"
proof -
  have "get16 buf n (word_of_nat i) = Inr (word_of_nat (word_at pkt i))" if "i \<le> 10" for i
    using get16_packet [OF p, of i] l that by simp
  from this [of 0] this [of 2] this [of 4] this [of 6] this [of 8] this [of 10] show ?thesis
    by (simp add: mDNSHeader_def header_of_def)
qed

lemma read_queries_at:
  assumes p: "packet buf n pkt" and A: "ample A"
  shows "questions_at pkt i specs e \<Longrightarrow>
    \<exists>qs. read_queries A buf n (length specs) (word_of_nat i) = Some (Inr (qs, word_of_nat e))
      \<and> list_all2 query_matches qs specs"
proof (induction specs arbitrary: i)
  case (Cons spec specs)
  obtain name ty cl where spec: "spec = (name, ty, cl)" by (cases spec)
  with Cons.prems obtain j where h: "question_at pkt i name ty cl j" "questions_at pkt j specs e" by auto
  obtain q b where q: "mDNSQuery A buf n (word_of_nat i) = Some (Inr q)"
    and m: "q_protocol q = Some b" "content b = name" "q_type q = ty" "q_class q = cl"
    and nx: "word_of_nat i + q_length q = word_of_nat j" and inv: "buf_inv b"
    using mDNSQuery_at [OF p A h(1)] .
  obtain qs where "read_queries A buf n (length specs) (word_of_nat j) = Some (Inr (qs, word_of_nat e))"
    and "list_all2 query_matches qs specs"
    using Cons.IH [OF h(2)] by blast
  moreover have "query_matches q spec" using m inv by (simp add: query_matches_def spec)
  ultimately show ?case using q nx by (intro exI [of _ "q # qs"]) simp
qed simp

lemma read_section_at:
  assumes p: "packet buf n pkt" and A: "ample A" and r: "records_at pkt i specs e"
    and num: "unat num = length specs"
  shows "\<exists>rs records'. read_section A ntop6 buf n rt num (records, word_of_nat i)
      = Some (Inr (records', word_of_nat e))
    \<and> list_all2 (record_matches rt) rs specs
    \<and> (case records' of None \<Rightarrow> [] | Some l \<Rightarrow> l) = (case records of None \<Rightarrow> [] | Some l \<Rightarrow> l) @ rs"
proof (cases "num = 0")
  case True
  with num r show ?thesis by (auto simp: read_section_def)
next
  case False
  then have "0 < num" by (simp add: word_neq_0_conv)
  moreover obtain rs where "read_records A ntop6 buf n rt (length specs) (word_of_nat i) = Some (Inr (rs, word_of_nat e))"
    and "list_all2 (record_matches rt) rs specs"
    using read_records_at [OF p A r] by blast
  ultimately show ?thesis by (auto simp: read_section_def num)
qed

lemma received_packet:
  assumes A: "ample A" and m: "prefix pkt m" and l: "0 < length pkt" "length pkt < 65536"
  obtains b0 s b where "new_Buffer A (uint (word_of_nat (length pkt) :: uint16)) = Inr b0"
    and "append_raw A b0 (Some m) (uint (word_of_nat (length pkt) :: uint16)) = Inr (s, b)"
    and "packet b (word_of_nat (length pkt)) pkt"
proof -
  have u: "uint (word_of_nat (length pkt) :: uint16) = int (length pkt)"
    using l(2) by (simp add: unsigned_of_nat take_bit_nat_eq_self)
  obtain b0 where b0: "new_Buffer A (int (length pkt)) = Inr b0" "buf_inv b0" "content b0 = []"
    using new_Buffer_spec [of "int (length pkt)" A] by auto
  have le: "length pkt \<le> length m" using m by (rule prefix_length_le)
  obtain b where b: "append_raw A b0 (Some m) (int (length pkt)) = Inr (int (length pkt), b)"
    and a: "appended b0 b (take (length pkt) m)"
    using append_raw_ok [OF A b0(2) l(1) le] .
  have "take (length pkt) m = pkt" using m by (auto simp: prefix_def)
  then have c: "content b = pkt" "buf_inv b" using a b0(3) by auto
  then have "packet b (word_of_nat (length pkt)) pkt"
    using packet_content [of b] content_alloc [of b] l by auto
  with that b0(1) b u show thesis by auto
qed

lemma MDNSIncoming_at:
  assumes A: "ample A" and m: "prefix pkt m" and l: "12 \<le> length pkt" "length pkt < 65536"
    and n: "word_at pkt 4 = length qs" "word_at pkt 6 = length r1" "word_at pkt 8 = length r2"
      "word_at pkt 10 = length r3"
    and q: "questions_at pkt 12 qs e0" and r: "records_at pkt e0 r1 e1" "records_at pkt e1 r2 e2"
      "records_at pkt e2 r3 e3"
  obtains inc l1 l2 l3 where "MDNSIncoming A ntop6 (Some m) (word_of_nat (length pkt)) = Some (Inr inc)"
    and "in_header inc = header_of pkt"
    and "list_all2 query_matches (case in_queries inc of None \<Rightarrow> [] | Some x \<Rightarrow> x) qs"
    and "(case in_records inc of None \<Rightarrow> [] | Some x \<Rightarrow> x) = l1 @ l2 @ l3"
    and "list_all2 (record_matches RR_TYPE_ANSWER) l1 r1" and "list_all2 (record_matches RR_TYPE_AUTH) l2 r2"
    and "list_all2 (record_matches RR_TYPE_ADD) l3 r3"
proof -
  let ?n = "word_of_nat (length pkt) :: uint16"
  have l0: "0 < length pkt" using l(1) by linarith
  obtain b0 s b where b: "new_Buffer A (uint ?n) = Inr b0" "append_raw A b0 (Some m) (uint ?n) = Inr (s, b)"
    and p: "packet b ?n pkt"
    using received_packet [OF A m l0 l(2)] .
  have u: "unat (word_of_nat (word_at pkt i) :: uint16) = word_at pkt i" for i
    by (simp add: unat_of_nat take_bit_nat_eq_self)
  let ?h = "header_of pkt"
  have hn: "unat (hd_query_num ?h) = length qs" "unat (hd_answer_num ?h) = length r1"
    "unat (hd_auth_num ?h) = length r2" "unat (hd_add_num ?h) = length r3"
    by (simp_all add: header_of_def u flip: n)
  obtain queries where queries: "(if 0 < hd_query_num ?h then
        bindO (read_queries A b ?n (unat (hd_query_num ?h)) (0 + HEADER_LENGTH)) (\<lambda>(qs, c). Some (Inr (Some qs, c)))
      else Some (Inr (None, 0 + HEADER_LENGTH))) = Some (Inr (queries, word_of_nat e0))"
    and mq: "list_all2 query_matches (case queries of None \<Rightarrow> [] | Some x \<Rightarrow> x) qs"
  proof (cases "hd_query_num ?h = 0")
    case True
    with hn(1) q that [of None] show thesis by (simp add: HEADER_LENGTH_def)
  next
    case False
    obtain l where "read_queries A b ?n (length qs) (word_of_nat 12) = Some (Inr (l, word_of_nat e0))"
      and "list_all2 query_matches l qs"
      using read_queries_at [OF p A q] by blast
    with False hn(1) that [of "Some l"] show thesis by (simp add: HEADER_LENGTH_def word_neq_0_conv)
  qed
  obtain l1 s1 where s1: "read_section A ntop6 b ?n RR_TYPE_ANSWER (hd_answer_num ?h) (None, word_of_nat e0)
      = Some (Inr (s1, word_of_nat e1))" and m1: "list_all2 (record_matches RR_TYPE_ANSWER) l1 r1"
    and v1: "(case s1 of None \<Rightarrow> [] | Some l \<Rightarrow> l) = l1"
    using read_section_at [OF p A r(1) hn(2), of ntop6 RR_TYPE_ANSWER None] by auto
  obtain l2 s2 where s2: "read_section A ntop6 b ?n RR_TYPE_AUTH (hd_auth_num ?h) (s1, word_of_nat e1)
      = Some (Inr (s2, word_of_nat e2))" and m2: "list_all2 (record_matches RR_TYPE_AUTH) l2 r2"
    and v2: "(case s2 of None \<Rightarrow> [] | Some l \<Rightarrow> l) = l1 @ l2"
    using read_section_at [OF p A r(2) hn(3), of ntop6 RR_TYPE_AUTH s1] v1 by auto
  obtain l3 s3 where s3: "read_section A ntop6 b ?n RR_TYPE_ADD (hd_add_num ?h) (s2, word_of_nat e2)
      = Some (Inr (s3, word_of_nat e3))" and m3: "list_all2 (record_matches RR_TYPE_ADD) l3 r3"
    and v3: "(case s3 of None \<Rightarrow> [] | Some l \<Rightarrow> l) = l1 @ l2 @ l3"
    using read_section_at [OF p A r(3) hn(4), of ntop6 RR_TYPE_ADD s2] v2 by auto
  have "MDNSIncoming A ntop6 (Some m) ?n = Some (Inr \<lparr>in_buffer = b, in_header = ?h, in_queries = queries,
      in_records = s3\<rparr>)"
    unfolding MDNSIncoming_def b bindO_simps split_conv mDNSHeader_at [OF p l(1)] queries s1 s2 s3 ..
  with that mq m1 m2 m3 v3 show thesis by auto
qed

section \<open>Properties\<close>

lemma header_octets_words:
  "word_at (header_octets @ xs) 0 = 0" "word_at (header_octets @ xs) 2 = 0x8400"
  "word_at (header_octets @ xs) 4 = 1" "word_at (header_octets @ xs) 6 = 1"
  "word_at (header_octets @ xs) 8 = 0" "word_at (header_octets @ xs) 10 = 3"
  using word_at_be16 [of "[]" 0 "be16 0x8400 @ be16 1 @ be16 1 @ be16 0 @ be16 3 @ xs"]
    word_at_be16 [of "be16 0" "0x8400" "be16 1 @ be16 1 @ be16 0 @ be16 3 @ xs"]
    word_at_be16 [of "be16 0 @ be16 0x8400" 1 "be16 1 @ be16 0 @ be16 3 @ xs"]
    word_at_be16 [of "be16 0 @ be16 0x8400 @ be16 1" 1 "be16 0 @ be16 3 @ xs"]
    word_at_be16 [of "be16 0 @ be16 0x8400 @ be16 1 @ be16 1" 0 "be16 3 @ xs"]
    word_at_be16 [of "be16 0 @ be16 0x8400 @ be16 1 @ be16 1 @ be16 0" 3 xs]
  by (simp_all add: header_octets_def)

text \<open>
  C1. End to end: the datagram the server composes for a well-formed configuration, parsed by the
  daemon's own \<open>MDNSIncoming\<close>, is an authoritative response with the service question, the
  pointer to the device's service in the answer section, and in the additional section the
  service record (host and port 9431), the text record and the address record, names and address
  as configured.
\<close>

theorem response_roundtrip:
  assumes A: "ample A" and ok: "response_ok protocol device_name model_name ns"
  shows "\<exists>b inc qs ans add. compose_response A protocol device_name model_name (dotted_quad ns) = Inr b
    \<and> MDNSIncoming A ntop6 (bdata b) (word_of_nat (length (content b))) = Some (Inr inc)
    \<and> \<not> isQuery (in_header inc) \<and> isAuthoritativeAnswer (in_header inc)
    \<and> in_queries inc = Some qs \<and> list_all2 query_matches qs [(protocol, TYPE_PTR, 0x8001)]
    \<and> in_records inc = Some (ans @ add)
    \<and> list_all2 (record_matches RR_TYPE_ANSWER) ans (fst (response_specs protocol device_name (dotted_quad ns)))
    \<and> list_all2 (record_matches RR_TYPE_ADD) add (snd (response_specs protocol device_name (dotted_quad ns)))"
proof -
  obtain b b2 b3 k3 k6 n n' xs where
    resp: "compose_response A protocol device_name model_name (dotted_quad ns) = Inr b"
    and c2: "content b2 = header_octets @ xs"
    and q: "question_at (content b2) 12 protocol TYPE_PTR 0x8001 (length (content b2))"
    and g3: "grown b2 b3 k3 n (fst (response_specs protocol device_name (dotted_quad ns)))"
    and g6: "grown b3 b k6 n' (snd (response_specs protocol device_name (dotted_quad ns)))"
    and small: "length (content b) \<le> 0x4000"
    using compose_response_spec [OF A ok] by metis
  obtain ys where c: "content b = content b2 @ ys" using grownD(4) [OF grown_trans [OF g3 g6]] by auto
  obtain zs where c3: "content b = content b3 @ zs" using grownD(4) [OF g6] by auto
  let ?p = "content b"
  have h: "?p = header_octets @ xs @ ys" using c c2 by simp
  have hw: "word_at ?p 2 = 0x8400" "word_at ?p 4 = 1" "word_at ?p 6 = 1" "word_at ?p 8 = 0" "word_at ?p 10 = 3"
    unfolding h by (simp_all add: header_octets_words)
  have l: "12 \<le> length ?p" "length ?p < 65536" using small by (simp_all add: h)
  have "?p \<noteq> []" by (auto simp: h header_octets_def be16_def)
  then obtain m where m: "bdata b = Some m" using content_alloc by blast
  then have pm: "prefix ?p m" using block_content [OF grownD(1) [OF g6]] by auto
  have qs: "questions_at ?p 12 [(protocol, TYPE_PTR, 0x8001)] (length (content b2))"
    using question_at_append [OF q, of ys] c by simp
  have r1: "records_at ?p (length (content b2)) (fst (response_specs protocol device_name (dotted_quad ns))) (length (content b3))"
    using records_at_append [OF grownD(5) [OF g3], of zs] c3 by simp
  have len: "length (fst (response_specs protocol device_name (dotted_quad ns))) = 1"
    "length (snd (response_specs protocol device_name (dotted_quad ns))) = 3"
    by (simp_all add: response_specs_def Let_def)
  have n: "word_at ?p 4 = length [(protocol, TYPE_PTR, 0x8001 :: uint16)]"
    "word_at ?p 6 = length (fst (response_specs protocol device_name (dotted_quad ns)))"
    "word_at ?p 8 = length ([] :: rr_spec list)"
    "word_at ?p 10 = length (snd (response_specs protocol device_name (dotted_quad ns)))"
    using hw len by simp_all
  have r2: "records_at ?p (length (content b3)) [] (length (content b3))" by simp
  obtain inc l1 l2 l3 where inc: "MDNSIncoming A ntop6 (Some m) (word_of_nat (length ?p)) = Some (Inr inc)"
    and ih: "in_header inc = header_of ?p"
    and mq: "list_all2 query_matches (case in_queries inc of None \<Rightarrow> [] | Some x \<Rightarrow> x) [(protocol, TYPE_PTR, 0x8001)]"
    and lr: "(case in_records inc of None \<Rightarrow> [] | Some x \<Rightarrow> x) = l1 @ l2 @ l3"
    and m1: "list_all2 (record_matches RR_TYPE_ANSWER) l1 (fst (response_specs protocol device_name (dotted_quad ns)))"
    and m2: "list_all2 (record_matches RR_TYPE_AUTH) l2 []"
    and m3: "list_all2 (record_matches RR_TYPE_ADD) l3 (snd (response_specs protocol device_name (dotted_quad ns)))"
    using MDNSIncoming_at [OF A pm l n qs r1 r2 grownD(5) [OF g6]] .
  obtain q1 where "in_queries inc = Some q1" using mq by (cases "in_queries inc") auto
  moreover obtain rs where "in_records inc = Some rs" using lr m1 len by (cases "in_records inc") auto
  moreover have "\<not> isQuery (in_header inc) \<and> isAuthoritativeAnswer (in_header inc)"
    unfolding ih by (simp add: isQuery_def isAuthoritativeAnswer_def header_of_def hw)
  ultimately show ?thesis using resp inc mq lr m1 m2 m3 m by auto
qed

theorem response_roundtrip_witness:
  "\<exists>b inc qs ans add. compose_response \<lparr>al_grants = \<lambda>n. True, al_fill = \<lambda>n. NUL\<rparr>
        ''_flint._tcp.local'' ''tv'' ''m1'' (dotted_quad [192, 168, 1, 9]) = Inr b
    \<and> MDNSIncoming \<lparr>al_grants = \<lambda>n. True, al_fill = \<lambda>n. NUL\<rparr> (\<lambda>_. []) (bdata b)
        (word_of_nat (length (content b))) = Some (Inr inc)
    \<and> \<not> isQuery (in_header inc) \<and> isAuthoritativeAnswer (in_header inc)
    \<and> in_queries inc = Some qs \<and> list_all2 query_matches qs [(''_flint._tcp.local'', TYPE_PTR, 0x8001)]
    \<and> in_records inc = Some (ans @ add)
    \<and> list_all2 (record_matches RR_TYPE_ANSWER) ans
        (fst (response_specs ''_flint._tcp.local'' ''tv'' (dotted_quad [192, 168, 1, 9])))
    \<and> list_all2 (record_matches RR_TYPE_ADD) add
        (snd (response_specs ''_flint._tcp.local'' ''tv'' (dotted_quad [192, 168, 1, 9])))"
proof (rule response_roundtrip [of _ _ _ "''m1''"])
  have ip: "dotted_quad [192, 168, 1, 9] = ''192.168.1.9''" by code_simp
  show "response_ok ''_flint._tcp.local'' ''tv'' ''m1'' [192, 168, 1, 9]"
    unfolding response_ok_def ip
    by (simp add: service_strings_def strings_wire_def good_name_def good_label_def)
qed (simp add: ample_def)

lemma name_at_labels: "name_at pkt i ls k \<Longrightarrow> l \<in> set ls \<Longrightarrow> l \<noteq> []"
  by (induction rule: name_at.induct) auto

lemma question_name_nonempty: "questions_at pkt i qs e \<Longrightarrow> (name, ty, cl) \<in> set qs \<Longrightarrow> name \<noteq> []"
proof (induction pkt i qs e rule: questions_at.induct)
  case (2 pkt i name' ty' cl' qs e)
  then show ?case using name_at_labels by (fastforce simp: question_at_def)
qed simp

text \<open>The test on the protocol, on the questions of the datagram.\<close>

lemma compare_loop_matches:
  "list_all2 query_matches qs specs \<Longrightarrow> \<forall>(name, ty, cl) \<in> set specs. name \<noteq> [] \<Longrightarrow>
   compare_loop protocol qs = Inr (\<exists>(name, ty, cl) \<in> set specs. iequals (cstr name) protocol)"
proof (induction qs specs rule: list_all2_induct)
  case (Cons q qs spec specs)
  obtain name ty cl where spec: "spec = (name, ty, cl)" by (cases spec)
  with Cons.hyps(1) obtain b where b: "q_protocol q = Some b" "buf_inv b" "content b = name"
    by (auto simp: query_matches_def)
  with Cons.prems spec obtain m where m: "bdata b = Some m"
    using content_alloc [of b] by auto
  then have "cstr m = cstr name" using block_content [OF b(2) m] b(3) by auto
  with Cons b(1) m spec show ?case by (simp add: getProtocol_def)
qed simp

lemma compareProtocol_matches:
  assumes "list_all2 query_matches (case in_queries inc of None \<Rightarrow> [] | Some x \<Rightarrow> x) specs"
    and "\<forall>(name, ty, cl) \<in> set specs. name \<noteq> []"
  shows "compareProtocol inc protocol = Inr (\<exists>(name, ty, cl) \<in> set specs. iequals (cstr name) protocol)"
  using assms compare_loop_matches by (cases "in_queries inc") (fastforce simp: compareProtocol_def)+

lemma delete_records_ok:
  "\<forall>r \<in> set rs. r_data r \<noteq> None \<Longrightarrow> foldE (\<lambda>_ r. delete_record r) () rs = Inr ()"
  by (induction rs) (auto simp: delete_record_def)

lemma matches_have_data:
  "list_all2 (record_matches rt) rs specs \<Longrightarrow> r \<in> set rs \<Longrightarrow> r_data r \<noteq> None"
  by (induction rs specs rule: list_all2_induct) (auto simp: record_matches_def record_is_def)

text \<open>
  What the server does with a well-formed datagram, whatever its records (each with data): it
  answers exactly when the datagram is a query and one of its questions names the service, the
  case of letters apart, and then with the composed response to the sender.
\<close>

lemma parseMessage_decides:
  assumes A: "ample A" and m: "prefix pkt m" and l: "12 \<le> length pkt" "length pkt < 65536"
    and n: "word_at pkt 4 = length qs" "word_at pkt 6 = length r1" "word_at pkt 8 = length r2"
      "word_at pkt 10 = length r3"
    and q: "questions_at pkt 12 qs e0" and r: "records_at pkt e0 r1 e1" "records_at pkt e1 r2 e2"
      "records_at pkt e2 r3 e3"
    and ok: "response_ok protocol device_name model_name ns"
  shows "\<exists>b. compose_response A protocol device_name model_name (dotted_quad ns) = Inr b
    \<and> parseMessage A ntop6 protocol device_name model_name (dotted_quad ns) srcIp srcPort (Some m) (length pkt)
      = Some (Inr (if isQuery (header_of pkt) \<and> (\<exists>(name, ty, cl) \<in> set qs. iequals (cstr name) protocol)
                   then Some (content b, srcIp, srcPort) else None))"
proof -
  obtain inc l1 l2 l3 where inc: "MDNSIncoming A ntop6 (Some m) (word_of_nat (length pkt)) = Some (Inr inc)"
    and ih: "in_header inc = header_of pkt"
    and mq: "list_all2 query_matches (case in_queries inc of None \<Rightarrow> [] | Some x \<Rightarrow> x) qs"
    and lr: "(case in_records inc of None \<Rightarrow> [] | Some x \<Rightarrow> x) = l1 @ l2 @ l3"
    and ms: "list_all2 (record_matches RR_TYPE_ANSWER) l1 r1" "list_all2 (record_matches RR_TYPE_AUTH) l2 r2"
      "list_all2 (record_matches RR_TYPE_ADD) l3 r3"
    using MDNSIncoming_at [OF A m l n q r] .
  obtain b where resp: "compose_response A protocol device_name model_name (dotted_quad ns) = Inr b"
    using compose_response_spec [OF A ok] by metis
  have "\<forall>r \<in> set (l1 @ l2 @ l3). r_data r \<noteq> None" using ms matches_have_data by auto
  then have del: "delete_incoming inc = Inr ()"
    using lr delete_records_ok by (cases "in_records inc") (auto simp: delete_incoming_def)
  have "\<forall>(name, ty, cl) \<in> set qs. name \<noteq> []" using question_name_nonempty [OF q] by auto
  from compareProtocol_matches [OF mq this] show ?thesis
    using resp inc del by (simp add: parseMessage_def ih)
qed

text \<open>
  C3. A datagram with one answer record that carries no data makes the server delete a pointer
  that was never initialised, whether it is a query or a response.
\<close>

theorem empty_record_wild_delete:
  assumes A: "ample A" and m: "prefix pkt m" and l: "12 \<le> length pkt" "length pkt < 65536"
    and n: "word_at pkt 4 = 0" "word_at pkt 6 = 1" "word_at pkt 8 = 0" "word_at pkt 10 = 0"
    and r: "rr_at pkt 12 name ty cl ttl 0 j"
  shows "parseMessage A ntop6 protocol device_name model_name ip srcIp srcPort (Some m) (length pkt)
    = Some (Inl WildPointer)"
proof -
  let ?n = "word_of_nat (length pkt) :: uint16"
  have l0: "0 < length pkt" using l(1) by linarith
  obtain b0 s b where b: "new_Buffer A (uint ?n) = Inr b0" "append_raw A b0 (Some m) (uint ?n) = Inr (s, b)"
    and p: "packet b ?n pkt"
    using received_packet [OF A m l0 l(2)] .
  have h: "hd_query_num (header_of pkt) = 0" "hd_answer_num (header_of pkt) = 1"
    "hd_auth_num (header_of pkt) = 0" "hd_add_num (header_of pkt) = 0"
    using n by (simp_all add: header_of_def)
  obtain rc where rc: "mDNSRecord A ntop6 b ?n 12 RR_TYPE_ANSWER = Some (Inr rc)" "r_data rc = None"
    using mDNSRecord_no_data [OF p A r, of ntop6 RR_TYPE_ANSWER] by auto
  have "MDNSIncoming A ntop6 (Some m) ?n = Some (Inr \<lparr>in_buffer = b, in_header = header_of pkt,
      in_queries = None, in_records = Some [rc]\<rparr>)"
    unfolding MDNSIncoming_def b bindO_simps split_conv mDNSHeader_at [OF p l(1)]
    using rc(1) by (simp add: h read_section_def HEADER_LENGTH_def)
  then show ?thesis
    using rc(2) by (simp add: parseMessage_def compareProtocol_def delete_incoming_def delete_record_def)
qed

text \<open>A query for \<open>a\<close>, and a datagram with an empty record of that name.\<close>

definition sample_query :: string where
  "sample_query = be16 0 @ be16 0 @ be16 1 @ be16 0 @ be16 0 @ be16 0
     @ [CHR 0x01, CHR ''a'', NUL] @ be16 0x0C @ be16 1"

definition sample_empty_record :: string where
  "sample_empty_record = be16 0 @ be16 0 @ be16 0 @ be16 1 @ be16 0 @ be16 0
     @ [CHR 0x01, CHR ''a'', NUL] @ be16 0x10 @ be16 1 @ be32 0 @ be16 0"

lemma sample_query_octets:
  "sample_query = [NUL, NUL, NUL, NUL, NUL, CHR 0x01, NUL, NUL, NUL, NUL, NUL, NUL,
     CHR 0x01, CHR ''a'', NUL, NUL, CHR 0x0C, NUL, CHR 0x01]"
  by code_simp

lemma sample_empty_record_octets:
  "sample_empty_record = [NUL, NUL, NUL, NUL, NUL, NUL, NUL, CHR 0x01, NUL, NUL, NUL, NUL,
     CHR 0x01, CHR ''a'', NUL, NUL, CHR 0x10, NUL, CHR 0x01, NUL, NUL, NUL, NUL, NUL, NUL]"
  by code_simp

lemma sample_query_name: "name_at sample_query 12 [''a''] 3"
  using name_at.label [of 12 sample_query 1 "[]" 1] name_at.root [of 14 sample_query]
  by (simp add: sample_query_octets byte_at_def numeral_eq_Suc)

lemma sample_empty_record_name: "name_at sample_empty_record 12 [''a''] 3"
  using name_at.label [of 12 sample_empty_record 1 "[]" 1] name_at.root [of 14 sample_empty_record]
  by (simp add: sample_empty_record_octets byte_at_def numeral_eq_Suc)

lemma parseMessage_decides_sample:
  "\<exists>b. compose_response \<lparr>al_grants = \<lambda>n. True, al_fill = \<lambda>n. NUL\<rparr> ''A'' ''tv'' ''m1''
        (dotted_quad [192, 168, 1, 9]) = Inr b
    \<and> parseMessage \<lparr>al_grants = \<lambda>n. True, al_fill = \<lambda>n. NUL\<rparr> (\<lambda>_. []) ''A'' ''tv'' ''m1''
        (dotted_quad [192, 168, 1, 9]) ''10.0.0.1'' 5353 (Some sample_query) 19
      = Some (Inr (Some (content b, ''10.0.0.1'', 5353)))"
proof -
  let ?A = "\<lparr>al_grants = \<lambda>n. True, al_fill = \<lambda>n. NUL\<rparr>"
  have ip: "dotted_quad [192, 168, 1, 9] = ''192.168.1.9''" by code_simp
  have ok: "response_ok ''A'' ''tv'' ''m1'' [192, 168, 1, 9]"
    unfolding response_ok_def ip
    by (simp add: service_strings_def strings_wire_def good_name_def good_label_def)
  have q: "questions_at sample_query 12 [(''a'', TYPE_PTR, 1)] 19"
    using sample_query_name
    by (auto simp: question_at_def sample_query_octets word_at_def byte_at_def TYPE_PTR_def
        intro!: exI [of _ 3])
  have w: "word_at sample_query 4 = length [(''a'', TYPE_PTR, 1 :: uint16)]"
    "word_at sample_query 6 = length ([] :: rr_spec list)" "word_at sample_query 8 = length ([] :: rr_spec list)"
    "word_at sample_query 10 = length ([] :: rr_spec list)"
    by (simp_all add: sample_query_octets word_at_def byte_at_def)
  have "isQuery (header_of sample_query)" "iequals (cstr ''a'') ''A''" by code_simp+
  moreover have "length sample_query = 19" by (simp add: sample_query_octets)
  ultimately show ?thesis
    using parseMessage_decides [of ?A sample_query sample_query "[(''a'', TYPE_PTR, 1)]" "[]" "[]" "[]"
        19 19 19 19 "''A''" "''tv''" "''m1''" "[192, 168, 1, 9]" "\<lambda>_. []" "''10.0.0.1''" 5353]
      q w ok by (simp add: ample_def)
qed

theorem empty_record_wild_delete_witness:
  "parseMessage \<lparr>al_grants = \<lambda>n. True, al_fill = \<lambda>n. NUL\<rparr> (\<lambda>_. []) ''A'' ''tv'' ''m1'' ''1.2.3.4''
     ''10.0.0.1'' 5353 (Some sample_empty_record) (length sample_empty_record) = Some (Inl WildPointer)"
proof (rule empty_record_wild_delete)
  show "rr_at sample_empty_record 12 ''a'' 0x10 1 0 0 25"
    using sample_empty_record_name
    by (auto simp: rr_at_def sample_empty_record_octets word_at_def byte_at_def intro!: exI [of _ 3])
qed (simp_all add: ample_def sample_empty_record_octets word_at_def byte_at_def)

end
