(* ===== verification/Network.thy ===== *)
theory Network
  imports MDNSServer
begin

unbundle bit_operations_syntax

text \<open>
  \<open>NetworkManager\<close> (flint/src/net), the address of the device, and \<open>UDPServer\<close> (flint/src/udp), the
  receive loop under the mDNS server. The interfaces the system reports are the parameter \<open>ifs\<close>, by
  the number of the call; a datagram or an error that Boost.Asio delivers is an event.
\<close>

section \<open>The address of the device\<close>

text \<open>The octets of an address are in network order; an interface may have no address at all.\<close>

datatype ifa_addr = Inet uint8 uint8 uint8 uint8 | OtherFamily

record interface =
  if_name :: string
  if_addr :: "ifa_addr option"
  if_up :: bool

datatype build = Android | Ffos | Linux | Apple | OtherBuild

definition ntohl :: "uint8 \<Rightarrow> uint8 \<Rightarrow> uint8 \<Rightarrow> uint8 \<Rightarrow> uint32" where
  "ntohl a b c d = push_bit 24 (ucast a) OR push_bit 16 (ucast b) OR push_bit 8 (ucast c) OR ucast d"

text \<open>A shift to the right of the \<open>int\<close> copies its sign.\<close>

definition octet_text :: "nat \<Rightarrow> uint32 \<Rightarrow> string" where
  "octet_text k addr = show_int (sint (signed_drop_bit k addr AND 0xFF))"

fun find_address :: "string \<Rightarrow> interface list \<Rightarrow> fault + string" where
  "find_address name [] = Inr []"
| "find_address name (i # ifs) =
     (if iequals name (if_name i) then
        bindE (deref (if_addr i)) (\<lambda>ad.
        case ad of
          OtherFamily \<Rightarrow> find_address name ifs
        | Inet a b c d \<Rightarrow>
            if if_up i then
              let addr = ntohl a b c d
              in Inr (octet_text 24 addr @ ''.'' @ octet_text 16 addr @ ''.'' @ octet_text 8 addr @ ''.'' @ octet_text 0 addr)
            else find_address name ifs)
      else find_address name ifs)"

text \<open>\<open>getifaddrs\<close> fails, or gives a list.\<close>

definition getIpAddrByName :: "string \<Rightarrow> interface list option \<Rightarrow> fault + string" where
  "getIpAddrByName name r =
     (case r of None \<Rightarrow> Inr [] | Some ifs \<Rightarrow> if ifs = [] then Inr [] else find_address name ifs)"

fun first_address :: "(nat \<Rightarrow> interface list option) \<Rightarrow> nat \<Rightarrow> string list \<Rightarrow> fault + string" where
  "first_address ifs k [] = Inr []"
| "first_address ifs k (name # names) =
     bindE (getIpAddrByName name (ifs k)) (\<lambda>ip.
     if iequals ip [] \<and> names \<noteq> [] then first_address ifs (k + 1) names else Inr ip)"

definition getIpAddr :: "build \<Rightarrow> string \<Rightarrow> (nat \<Rightarrow> interface list option) \<Rightarrow> fault + string" where
  "getIpAddr build ipAddr ifs =
     (case build of
        Android \<Rightarrow> Inr ipAddr
      | Ffos \<Rightarrow> first_address ifs 0 [''wlan0'', ''eth0'']
      | Linux \<Rightarrow> first_address ifs 0 [''wlan0'', ''eth0'']
      | Apple \<Rightarrow> first_address ifs 0 [''en0'', ''en1'', ''en2'', ''en3'', ''en4'']
      | OtherBuild \<Rightarrow> Inr [])"

section \<open>Receiving datagrams\<close>

record udp_server =
  us_open :: bool
  us_waiting :: bool
  us_buffer :: string
  us_group :: "(string \<times> string) option"

definition RECV_BUFFER :: nat where "RECV_BUFFER = 4096"

text \<open>The errors of the completion handler that it tells apart.\<close>

datatype udp_error = NoError | MessageSize | OtherError

definition new_UDPServer :: udp_server where
  "new_UDPServer = \<lparr>us_open = False, us_waiting = False, us_buffer = [], us_group = None\<rparr>"

definition wait_packet :: "udp_server \<Rightarrow> udp_server" where
  "wait_packet u = u\<lparr>us_buffer := replicate RECV_BUFFER NUL, us_waiting := True\<rparr>"

text \<open>The group is joined on the interface of the address, or on the default one if there is none.\<close>

definition udp_init :: "string \<Rightarrow> string \<Rightarrow> udp_server \<Rightarrow> udp_server" where
  "udp_init listenIp ip u = u\<lparr>us_open := True, us_group := Some (listenIp, if iequals ip [] then [] else ip)\<rparr>"

definition udp_onStart :: "string \<Rightarrow> string \<Rightarrow> udp_server \<Rightarrow> udp_server" where
  "udp_onStart listenIp ip u = wait_packet (udp_init listenIp ip u)"

definition udp_onStop :: "udp_server \<Rightarrow> udp_server" where
  "udp_onStop u = u\<lparr>us_open := False\<rparr>"

type_synonym 's packet_handler = "string \<Rightarrow> int \<Rightarrow> string \<Rightarrow> nat \<Rightarrow> 's \<Rightarrow> (fault + 's) option"

definition handle_packet ::
  "'s packet_handler \<Rightarrow> udp_error \<Rightarrow> string \<Rightarrow> int \<Rightarrow> nat \<Rightarrow> udp_server \<times> 's \<Rightarrow> (fault + udp_server \<times> 's) option" where
  "handle_packet parse error ip port len = (\<lambda>(u, s).
     if error = NoError \<or> error = MessageSize then
       bindO (if 0 < len then parse ip port (us_buffer u) len s else Some (Inr s)) (\<lambda>s. Some (Inr (wait_packet u, s)))
     else Some (Inr (u, s)))"

text \<open>
  What the socket delivers: a datagram fills the buffer as far as it goes, and a socket that is closed
  ends the wait with an error, like any other failure. Nothing is delivered when nobody waits.
\<close>

datatype udp_event = Datagram string int string | ReceiveError

definition received :: "string \<Rightarrow> udp_server \<Rightarrow> udp_server" where
  "received d u = u\<lparr>us_waiting := False, us_buffer := take RECV_BUFFER d @ drop (length d) (us_buffer u)\<rparr>"

fun udp_step :: "'s packet_handler \<Rightarrow> udp_server \<times> 's \<Rightarrow> udp_event \<Rightarrow> (fault + udp_server \<times> 's) option" where
  "udp_step parse (u, s) e =
     (if \<not> us_waiting u then Some (Inr (u, s))
      else
        (case (us_open u, e) of
           (True, Datagram ip port d) \<Rightarrow>
             handle_packet parse (if RECV_BUFFER < length d then MessageSize else NoError) ip port (min RECV_BUFFER (length d))
               (received d u, s)
         | _ \<Rightarrow> handle_packet parse OtherError [] 0 0 (u\<lparr>us_waiting := False\<rparr>, s)))"

fun udp_run :: "'s packet_handler \<Rightarrow> udp_server \<times> 's \<Rightarrow> udp_event list \<Rightarrow> (fault + udp_server \<times> 's) option" where
  "udp_run parse us [] = Some (Inr us)"
| "udp_run parse us (e # es) = bindO (udp_step parse us e) (\<lambda>us. udp_run parse us es)"

text \<open>The mDNS server as a handler; its state is what it has sent. The default protocol, and a named one.\<close>

definition mdns_handler ::
  "allocator \<Rightarrow> (string \<Rightarrow> string) \<Rightarrow> string \<Rightarrow> string \<Rightarrow> string \<Rightarrow> string \<Rightarrow> (string \<times> string \<times> int) list packet_handler" where
  "mdns_handler A ntop6 protocol device_name model_name ip srcIp srcPort message len sent =
     bindO (parseMessage A ntop6 protocol device_name model_name ip srcIp srcPort (Some message) len) (\<lambda>r.
     Some (Inr (case r of None \<Rightarrow> sent | Some x \<Rightarrow> sent @ [x])))"

definition mdns_protocol :: "string option \<Rightarrow> string" where
  "mdns_protocol p = (case p of None \<Rightarrow> ''_openflint._tcp.local'' | Some protocol \<Rightarrow> ''_'' @ protocol @ ''._tcp.local'')"

section \<open>The address is announced as it is\<close>

lemma octets:
  "signed_drop_bit 24 (ntohl a b c d) AND 0xFF = ucast a" "signed_drop_bit 16 (ntohl a b c d) AND 0xFF = ucast b"
  "signed_drop_bit 8 (ntohl a b c d) AND 0xFF = ucast c" "signed_drop_bit 0 (ntohl a b c d) AND 0xFF = ucast d"
proof -
  have m: "0xFF = (mask 8 :: uint32)" by (simp add: mask_eq_exp_minus_1)
  have s: "bit (a :: uint8) n \<Longrightarrow> n < 8" for a n using bit_imp_le_length [of a n] by simp
  show "signed_drop_bit 24 (ntohl a b c d) AND 0xFF = ucast a"
    unfolding m ntohl_def by (rule bit_word_eqI) (auto simp: bit_simps dest: s)
  show "signed_drop_bit 16 (ntohl a b c d) AND 0xFF = ucast b"
    unfolding m ntohl_def by (rule bit_word_eqI) (auto simp: bit_simps dest: s)
  show "signed_drop_bit 8 (ntohl a b c d) AND 0xFF = ucast c"
    unfolding m ntohl_def by (rule bit_word_eqI) (auto simp: bit_simps dest: s)
  show "signed_drop_bit 0 (ntohl a b c d) AND 0xFF = ucast d"
    unfolding m ntohl_def by (rule bit_word_eqI) (auto simp: bit_simps dest: s)
qed

lemma show_octet: "show_int (sint (ucast (a :: uint8) :: uint32)) = show_nat (unat a)"
proof -
  have "uint a < 256" using unsigned_less [of a, where ?'a = int] by simp
  then have "sint (ucast a :: uint32) = uint a" using signed_take_bit_int_eq_self [of 31 "uint a"] uint_ge_0 [of a] by (simp add: signed_ucast_eq)
  then show ?thesis by (simp add: show_int_def)
qed

text \<open>An interface the search goes past: another one, or one that is down or has no IPv4 address.\<close>

definition passed :: "string \<Rightarrow> interface \<Rightarrow> bool" where
  "passed name i \<longleftrightarrow>
     (iequals name (if_name i) \<longrightarrow> (\<exists>ad. if_addr i = Some ad \<and> (ad = OtherFamily \<or> \<not> if_up i)))"

lemma find_address_passed: "\<forall>i \<in> set pre. passed name i \<Longrightarrow> find_address name (pre @ ifs) = find_address name ifs"
  by (induction pre) (auto simp: passed_def split: ifa_addr.splits)

lemma find_address_found:
  assumes "\<forall>i \<in> set pre. passed name i" and "iequals name (if_name i)" "if_addr i = Some (Inet a b c d)" "if_up i"
  shows "find_address name (pre @ i # post) = Inr (dotted_quad [unat a, unat b, unat c, unat d])"
  using assms(2-)
  by (simp add: find_address_passed [OF assms(1)] octet_text_def octets octets(4) [simplified] show_octet dotted_quad_def)

text \<open>
  C9. The address of the device is announced as it is: the octets of the first interface \<open>wlan0\<close> that is
  up and has an IPv4 address are the octets the mDNS writer puts into the record, on their way through
  an \<open>int\<close> and a decimal text.
\<close>

theorem address_announced:
  assumes "build = Linux \<or> build = Ffos" and "ifs 0 = Some (pre @ i # post)" and "\<forall>i \<in> set pre. passed ''wlan0'' i"
    and "iequals ''wlan0'' (if_name i)" "if_addr i = Some (Inet a b c d)" "if_up i" and "ample A" and "buf_inv buf"
  shows "\<exists>ip b'. getIpAddr build ipAddr ifs = Inr ip \<and> write_ip A buf ip = Inr (4, b')
    \<and> appended buf b' [char_of_u8 a, char_of_u8 b, char_of_u8 c, char_of_u8 d]"
proof -
  let ?ns = "[unat a, unat b, unat c, unat d]"
  have o: "unat w < 256" for w :: uint8 using unsigned_less [of w, where ?'a = nat] by simp
  have "dotted_quad ?ns \<noteq> []" by (simp add: dotted_quad_def)
  then have "\<not> iequals (dotted_quad ?ns) []" by (simp add: iequals_def)
  then have "getIpAddr build ipAddr ifs = Inr (dotted_quad ?ns)"
    using assms(1,2) find_address_found [OF assms(3-6), of post] by (auto simp: getIpAddr_def getIpAddrByName_def)
  moreover obtain b' where "write_ip A buf (dotted_quad ?ns) = Inr (4, b')" "appended buf b' (map char_of ?ns)"
    using write_ip_quad [OF assms(7,8), of ?ns] o by auto
  ultimately show ?thesis by (auto simp: char_of_u8_def)
qed

theorem address_announced_witness:
  "\<exists>ip b'. getIpAddr Linux [] (\<lambda>_. Some [\<lparr>if_name = ''lo'', if_addr = None, if_up = True\<rparr>,
        \<lparr>if_name = ''wlan0'', if_addr = Some OtherFamily, if_up = True\<rparr>,
        \<lparr>if_name = ''wlan0'', if_addr = Some (Inet 192 168 1 9), if_up = True\<rparr>]) = Inr ip
    \<and> write_ip \<lparr>al_grants = \<lambda>_. True, al_fill = \<lambda>_. NUL\<rparr> \<lparr>bindex = 0, blength = 0, bdata = None\<rparr> ip = Inr (4, b')
    \<and> content b' = [char_of_u8 192, char_of_u8 168, char_of_u8 1, char_of_u8 9]"
proof -
  let ?A = "\<lparr>al_grants = \<lambda>_. True, al_fill = \<lambda>_. NUL\<rparr>"
  let ?pre = "[\<lparr>if_name = ''lo'', if_addr = None, if_up = True\<rparr>, \<lparr>if_name = ''wlan0'', if_addr = Some OtherFamily, if_up = True\<rparr>]"
  let ?i = "\<lparr>if_name = ''wlan0'', if_addr = Some (Inet 192 168 1 9), if_up = True\<rparr>"
  have i: "\<not> iequals ''wlan0'' ''lo''" "iequals ''wlan0'' ''wlan0''" by code_simp+
  have p: "\<forall>i \<in> set ?pre. passed ''wlan0'' i" using i by (simp add: passed_def)
  have A: "ample ?A" by (simp add: ample_def)
  show ?thesis
    using address_announced [OF _ _ p, of Linux "\<lambda>_. Some (?pre @ [?i])" ?i "[]" 192 168 1 9 ?A "\<lparr>bindex = 0, blength = 0, bdata = None\<rparr>" "[]"]
      i A by (auto simp: appended_def)
qed

text \<open>An interface of that name without an address, such as a point-to-point link, is a null pointer.\<close>

lemma missing_address_faults:
  assumes "ifs 0 = Some (i # post)" and "iequals ''wlan0'' (if_name i)" and "if_addr i = None"
  shows "getIpAddr Linux ipAddr ifs = Inl NullDeref"
  using assms by (simp add: getIpAddr_def getIpAddrByName_def)

section \<open>The mDNS service as a whole\<close>

text \<open>A datagram whose header, questions \<open>qs\<close> and records (each with data) follow each other.\<close>

definition datagram_ok :: "string \<Rightarrow> (string \<times> uint16 \<times> uint16) list \<Rightarrow> bool" where
  "datagram_ok pkt qs \<longleftrightarrow>
     12 \<le> length pkt \<and> length pkt \<le> RECV_BUFFER \<and>
     (\<exists>e0 e1 e2 e3 r1 r2 r3. word_at pkt 4 = length qs \<and> word_at pkt 6 = length r1 \<and> word_at pkt 8 = length r2
        \<and> word_at pkt 10 = length r3 \<and> questions_at pkt 12 qs e0
        \<and> records_at pkt e0 r1 e1 \<and> records_at pkt e1 r2 e2 \<and> records_at pkt e2 r3 e3)"

definition wanted :: "string \<Rightarrow> string \<Rightarrow> (string \<times> uint16 \<times> uint16) list \<Rightarrow> bool" where
  "wanted protocol pkt qs \<longleftrightarrow> isQuery (header_of pkt) \<and> (\<exists>(name, ty, cl) \<in> set qs. iequals (cstr name) protocol)"

lemma handler_answers:
  assumes "ample A" and "prefix pkt m" and "datagram_ok pkt qs" and "response_ok protocol device_name model_name ns"
    and b: "compose_response A protocol device_name model_name (dotted_quad ns) = Inr b"
  shows "mdns_handler A ntop6 protocol device_name model_name (dotted_quad ns) srcIp srcPort m (length pkt) sent
    = Some (Inr (sent @ (if wanted protocol pkt qs then [(content b, srcIp, srcPort)] else [])))"
proof -
  from assms(3) obtain e0 e1 e2 e3 r1 r2 r3 where d: "12 \<le> length pkt" "length pkt < 65536"
      "word_at pkt 4 = length qs" "word_at pkt 6 = length r1" "word_at pkt 8 = length r2" "word_at pkt 10 = length r3"
      "questions_at pkt 12 qs e0" "records_at pkt e0 r1 e1" "records_at pkt e1 r2 e2" "records_at pkt e2 r3 e3"
    unfolding datagram_ok_def RECV_BUFFER_def by (elim exE conjE) simp
  from parseMessage_decides [OF assms(1,2) d assms(4), of ntop6 srcIp srcPort] b show ?thesis
    by (auto simp: mdns_handler_def wanted_def)
qed

lemma step_answers:
  assumes "ample A" and "datagram_ok pkt qs" and "response_ok protocol device_name model_name ns"
    and "compose_response A protocol device_name model_name (dotted_quad ns) = Inr b"
    and u: "us_open u" "us_waiting u"
  shows "\<exists>u'. udp_step (mdns_handler A ntop6 protocol device_name model_name (dotted_quad ns)) (u, sent) (Datagram srcIp srcPort pkt)
    = Some (Inr (u', sent @ (if wanted protocol pkt qs then [(content b, srcIp, srcPort)] else []))) \<and> us_open u' \<and> us_waiting u'"
proof -
  have l: "0 < length pkt" "length pkt \<le> RECV_BUFFER" using assms(2) unfolding datagram_ok_def by linarith+
  then have "prefix pkt (us_buffer (received pkt u))" by (simp add: received_def)
  from handler_answers [OF assms(1) this assms(2-4), of ntop6 srcIp srcPort sent] l u show ?thesis
    by (simp add: handle_packet_def wait_packet_def received_def)
qed


lemma sample_query_datagram: "datagram_ok sample_query [(''a'', TYPE_PTR, 1)]"
proof -
  have q: "questions_at sample_query 12 [(''a'', TYPE_PTR, 1)] 19"
    using sample_query_name
    by (auto simp: question_at_def sample_query_octets word_at_def byte_at_def TYPE_PTR_def intro!: exI [of _ 3])
  have w: "word_at sample_query 4 = length [(''a'', TYPE_PTR, 1 :: uint16)]"
    "word_at sample_query 6 = length ([] :: rr_spec list)" "word_at sample_query 8 = length ([] :: rr_spec list)"
    "word_at sample_query 10 = length ([] :: rr_spec list)"
    by (simp_all add: sample_query_octets word_at_def byte_at_def)
  have l: "12 \<le> length sample_query" "length sample_query \<le> RECV_BUFFER" by (simp_all add: sample_query_octets RECV_BUFFER_def)
  show ?thesis
    unfolding datagram_ok_def
    by (intro conjI l exI [of _ 19] exI [of _ "[]"] w q) simp_all
qed


text \<open>Any other error ends the loop: nobody waits again, and every later datagram is lost.\<close>

lemma receive_error_silences:
  assumes "us_waiting u"
  shows "udp_run parse (u, s) (ReceiveError # es) = Some (Inr (u\<lparr>us_waiting := False\<rparr>, s))"
proof -
  have "udp_run parse (v, s) es = Some (Inr (v, s))" if "\<not> us_waiting v" for v using that by (induction es) simp_all
  with assms show ?thesis by (simp add: handle_packet_def split: bool.splits)
qed

end
