(* ===== verification/Messaging.thy ===== *)
theory Messaging
  imports StdMap
begin

text \<open>
  What the servers share when they talk to clients: JSON documents as the JSON library hands them
  out, and the WebSocket sessions of the HTTP server (flint/src/http/HTTPServer.cpp) with the
  handlers connected to their two signals (flint/src/handler/WebsocketHandler.cpp).
\<close>

section \<open>JSON documents\<close>

text \<open>
  RapidJSON is not part of the repository. Its parser and its writer are the parameters \<open>parse\<close> and
  \<open>text\<close> of the models; a document that does not parse is the null value. The accessors are the
  documented ones: a member that is missing reads as null, and asking a value for a member, a
  string, a number or a boolean it is not fails an assertion. \<open>JDouble m e\<close> is the floating point number
  \<open>m * 2 ^ e\<close>; an integer read as a double is below \<open>2 ^ 53\<close>, where the conversion is exact.
\<close>

datatype json =
    JNull
  | JBool bool
  | JInt int
  | JDouble int int
  | JStr string
  | JArr "json list"
  | JObj "(string \<times> json) list"

fun lookup_member :: "(string \<times> json) list \<Rightarrow> string \<Rightarrow> json" where
  "lookup_member [] k = JNull"
| "lookup_member ((k', v) # ms) k = (if k' = k then v else lookup_member ms k)"

definition js_member :: "json \<Rightarrow> string \<Rightarrow> fault + json" where
  "js_member j k = (case j of JObj ms \<Rightarrow> Inr (lookup_member ms k) | _ \<Rightarrow> Inl BadJson)"

definition js_string :: "json \<Rightarrow> fault + string" where
  "js_string j = (case j of JStr s \<Rightarrow> Inr (cstr s) | _ \<Rightarrow> Inl BadJson)"

definition js_int :: "json \<Rightarrow> fault + int" where
  "js_int j = (case j of JInt i \<Rightarrow> Inr i | _ \<Rightarrow> Inl BadJson)"

definition js_bool :: "json \<Rightarrow> fault + bool" where
  "js_bool j = (case j of JBool b \<Rightarrow> Inr b | _ \<Rightarrow> Inl BadJson)"

definition js_double :: "json \<Rightarrow> fault + int \<times> int" where
  "js_double j = (case j of JInt i \<Rightarrow> Inr (i, 0) | JDouble m e \<Rightarrow> Inr (m, e) | _ \<Rightarrow> Inl BadJson)"

definition js_add :: "json \<Rightarrow> string \<Rightarrow> json \<Rightarrow> fault + json" where
  "js_add j k v = (case j of JObj ms \<Rightarrow> Inr (JObj (ms @ [(k, v)])) | _ \<Rightarrow> Inl BadJson)"

lemma js_access [simp]:
  "js_member (JObj ms) k = Inr (lookup_member ms k)"
  "js_member JNull k = Inl BadJson"
  "js_string (JStr s) = Inr (cstr s)"
  "js_string JNull = Inl BadJson"
  "js_int (JInt i) = Inr i"
  "js_bool (JBool b) = Inr b"
  "js_add (JObj ms) k v = Inr (JObj (ms @ [(k, v)]))"
  by (simp_all add: js_member_def js_string_def js_int_def js_bool_def js_add_def)

text \<open>\<open>writer.String(s.c_str())\<close>.\<close>

definition jstr :: "string \<Rightarrow> json" where
  "jstr s = JStr (cstr s)"

section \<open>WebSocket sessions\<close>

text \<open>
  A session lives until the connection has closed. \<open>close\<close> starts the closing handshake: the close
  event still comes, and no further message is delivered. Both signals are connected to the same
  handlers, in the order of their connection; \<open>'h\<close> are the handlers of a server.
\<close>

record 'h ws_session =
  wss_closing :: bool
  wss_handlers :: "'h list"

datatype ws_action = WsSend nat string | WsClose nat

record 'h ws_net =
  wn_sessions :: "(nat, 'h ws_session) std_map"
  wn_out :: "ws_action list"

definition init_net :: "'h ws_net" where
  "init_net = \<lparr>wn_sessions = [], wn_out = []\<rparr>"

definition get_ws :: "'h ws_net \<Rightarrow> nat \<Rightarrow> fault + 'h ws_session" where
  "get_ws n i = (case map_find (wn_sessions n) i of None \<Rightarrow> Inl UseAfterFree | Some w \<Rightarrow> Inr w)"

definition ws_send :: "nat \<Rightarrow> string \<Rightarrow> 'h ws_net \<Rightarrow> fault + 'h ws_net" where
  "ws_send i msg n = bindE (get_ws n i) (\<lambda>_. Inr (n\<lparr>wn_out := wn_out n @ [WsSend i msg]\<rparr>))"

definition ws_close :: "nat \<Rightarrow> 'h ws_net \<Rightarrow> fault + 'h ws_net" where
  "ws_close i n =
     bindE (get_ws n i) (\<lambda>w.
     Inr (n\<lparr>wn_sessions := map_set i (w\<lparr>wss_closing := True\<rparr>) (wn_sessions n),
            wn_out := wn_out n @ [WsClose i]\<rparr>))"

definition ws_connect :: "nat \<Rightarrow> 'h \<Rightarrow> 'h ws_net \<Rightarrow> fault + 'h ws_net" where
  "ws_connect i h n =
     bindE (get_ws n i) (\<lambda>w.
     Inr (n\<lparr>wn_sessions := map_set i (w\<lparr>wss_handlers := wss_handlers w @ [h]\<rparr>) (wn_sessions n)\<rparr>))"

definition ws_open :: "nat \<Rightarrow> 'h ws_net \<Rightarrow> 'h ws_net" where
  "ws_open i n = n\<lparr>wn_sessions := map_insert i \<lparr>wss_closing = False, wss_handlers = []\<rparr> (wn_sessions n)\<rparr>"

definition ws_delete :: "nat \<Rightarrow> 'h ws_net \<Rightarrow> 'h ws_net" where
  "ws_delete i n = n\<lparr>wn_sessions := map_erase i (wn_sessions n)\<rparr>"

text \<open>\<open>WebsocketSession::onMessage\<close>, and \<open>clear\<close>: the signal, then \<open>delete this\<close>.\<close>

definition ws_on_message ::
  "('s \<Rightarrow> 'h ws_net) \<Rightarrow> ('h \<Rightarrow> string \<Rightarrow> 's \<Rightarrow> fault + 's) \<Rightarrow> nat \<Rightarrow> string \<Rightarrow> 's \<Rightarrow> fault + 's" where
  "ws_on_message net handle i msg s =
     (case map_find (wn_sessions (net s)) i of
        None \<Rightarrow> Inr s
      | Some w \<Rightarrow> if wss_closing w then Inr s else foldE (\<lambda>t h. handle h msg t) s (wss_handlers w))"

definition ws_clear ::
  "('s \<Rightarrow> 'h ws_net) \<Rightarrow> (('h ws_net \<Rightarrow> 'h ws_net) \<Rightarrow> 's \<Rightarrow> 's) \<Rightarrow> ('h \<Rightarrow> 's \<Rightarrow> fault + 's) \<Rightarrow> nat \<Rightarrow> 's
    \<Rightarrow> fault + 's" where
  "ws_clear net upd handle i s =
     (case map_find (wn_sessions (net s)) i of
        None \<Rightarrow> Inr s
      | Some w \<Rightarrow> bindE (foldE (\<lambda>t h. handle h t) s (wss_handlers w)) (\<lambda>t. Inr (upd (ws_delete i) t)))"

lemma get_ws_Inr [simp]: "get_ws n i = Inr w \<longleftrightarrow> map_find (wn_sessions n) i = Some w"
  by (simp add: get_ws_def split: option.splits)

lemma ws_live:
  "map_find (wn_sessions n) i = Some w \<Longrightarrow> ws_send i msg n = Inr (n\<lparr>wn_out := wn_out n @ [WsSend i msg]\<rparr>)"
  "map_find (wn_sessions n) i = Some w \<Longrightarrow>
     ws_close i n = Inr (n\<lparr>wn_sessions := map_set i (w\<lparr>wss_closing := True\<rparr>) (wn_sessions n),
        wn_out := wn_out n @ [WsClose i]\<rparr>)"
  "map_find (wn_sessions n) i = Some w \<Longrightarrow>
     ws_connect i h n = Inr (n\<lparr>wn_sessions := map_set i (w\<lparr>wss_handlers := wss_handlers w @ [h]\<rparr>) (wn_sessions n)\<rparr>)"
  by (simp_all add: ws_send_def ws_close_def ws_connect_def get_ws_def)

end
