(* ===== verification/Channels.thy ===== *)
theory Channels
  imports Messaging
begin

text \<open>
  \<open>WebsocketServer\<close>, \<open>ReceiverChannel\<close> and \<open>SenderChannel\<close> (flint/src/ws/WebsocketServer.cpp): a
  receiver application opens a channel, senders join it under an id, and the server relays
  messages between the receiver and its senders.

  The channel objects are entries of two heaps, by address. A channel deletes itself when its
  connection has closed. \<open>parse\<close> and \<open>text\<close> are the JSON library.
\<close>

section \<open>State\<close>

record sender_channel =
  sdc_session :: nat
  sdc_senderId :: string
  sdc_receiver :: "nat option"

record receiver_channel =
  rcc_session :: nat
  rcc_channelId :: string
  rcc_senders :: "(string, nat) std_map"

datatype channel_handler = SenderHandler nat | ReceiverHandler nat

record ws_server =
  wv_net :: "channel_handler ws_net"
  wv_scs :: "(nat, sender_channel) std_map"
  wv_rcs :: "(nat, receiver_channel) std_map"
  wv_next :: nat
  wv_receivers :: "(string, nat) std_map"

definition init_ws_server :: ws_server where
  "init_ws_server = \<lparr>wv_net = init_net, wv_scs = [], wv_rcs = [], wv_next = 0, wv_receivers = []\<rparr>"

definition get_sc :: "ws_server \<Rightarrow> nat \<Rightarrow> fault + sender_channel" where
  "get_sc s p = (case map_find (wv_scs s) p of None \<Rightarrow> Inl UseAfterFree | Some c \<Rightarrow> Inr c)"

definition get_rc :: "ws_server \<Rightarrow> nat \<Rightarrow> fault + receiver_channel" where
  "get_rc s p = (case map_find (wv_rcs s) p of None \<Rightarrow> Inl UseAfterFree | Some c \<Rightarrow> Inr c)"

definition set_sc :: "nat \<Rightarrow> sender_channel \<Rightarrow> ws_server \<Rightarrow> ws_server" where
  "set_sc p c s = s\<lparr>wv_scs := map_set p c (wv_scs s)\<rparr>"

definition set_rc :: "nat \<Rightarrow> receiver_channel \<Rightarrow> ws_server \<Rightarrow> ws_server" where
  "set_rc p c s = s\<lparr>wv_rcs := map_set p c (wv_rcs s)\<rparr>"

definition on_net :: "(channel_handler ws_net \<Rightarrow> fault + channel_handler ws_net) \<Rightarrow> ws_server \<Rightarrow> fault + ws_server" where
  "on_net f s = bindE (f (wv_net s)) (\<lambda>n. Inr (s\<lparr>wv_net := n\<rparr>))"

section \<open>The messages the server writes\<close>

definition message_text :: "(json \<Rightarrow> string) \<Rightarrow> string \<Rightarrow> string \<Rightarrow> string" where
  "message_text text senderId msg =
     text (JObj [(''type'', JStr ''message''), (''senderId'', jstr senderId), (''data'', jstr msg)])"

definition connected_text :: "(json \<Rightarrow> string) \<Rightarrow> string \<Rightarrow> string" where
  "connected_text text senderId = text (JObj [(''type'', JStr ''senderConnected''), (''senderId'', jstr senderId)])"

definition disconnected_text :: "(json \<Rightarrow> string) \<Rightarrow> string \<Rightarrow> string" where
  "disconnected_text text senderId = text (JObj [(''type'', JStr ''senderDisconnected''), (''senderId'', jstr senderId)])"

section \<open>ReceiverChannel and SenderChannel\<close>

definition new_SenderChannel :: "nat \<Rightarrow> string \<Rightarrow> nat \<Rightarrow> ws_server \<Rightarrow> fault + nat \<times> ws_server" where
  "new_SenderChannel session senderId channel s =
     (let p = wv_next s
      in bindE (on_net (ws_connect session (SenderHandler p)) s) (\<lambda>s1.
         Inr (p, s1\<lparr>wv_scs := map_insert p \<lparr>sdc_session = session, sdc_senderId = senderId,
                  sdc_receiver = Some channel\<rparr> (wv_scs s1), wv_next := p + 1\<rparr>)))"

definition new_ReceiverChannel :: "nat \<Rightarrow> string \<Rightarrow> ws_server \<Rightarrow> fault + nat \<times> ws_server" where
  "new_ReceiverChannel session channelId s =
     (let p = wv_next s
      in bindE (on_net (ws_connect session (ReceiverHandler p)) s) (\<lambda>s1.
         Inr (p, s1\<lparr>wv_rcs := map_insert p \<lparr>rcc_session = session, rcc_channelId = channelId,
                  rcc_senders = []\<rparr> (wv_rcs s1), wv_next := p + 1\<rparr>)))"

definition rc_send :: "nat \<Rightarrow> string \<Rightarrow> ws_server \<Rightarrow> fault + ws_server" where
  "rc_send p msg s = bindE (get_rc s p) (\<lambda>c. on_net (ws_send (rcc_session c) msg) s)"

definition sc_send :: "nat \<Rightarrow> string \<Rightarrow> ws_server \<Rightarrow> fault + ws_server" where
  "sc_send p msg s = bindE (get_sc s p) (\<lambda>c. on_net (ws_send (sdc_session c) msg) s)"

definition sc_close :: "nat \<Rightarrow> ws_server \<Rightarrow> fault + ws_server" where
  "sc_close p s =
     bindE (get_sc s p) (\<lambda>c.
     on_net (ws_close (sdc_session c)) (set_sc p (c\<lparr>sdc_receiver := None\<rparr>) s))"

definition getSenderChannel :: "receiver_channel \<Rightarrow> string \<Rightarrow> nat option" where
  "getSenderChannel c senderId = map_find (rcc_senders c) senderId"

definition removeSenderChannel :: "(json \<Rightarrow> string) \<Rightarrow> nat \<Rightarrow> string \<Rightarrow> ws_server \<Rightarrow> fault + bool \<times> ws_server" where
  "removeSenderChannel text p senderId s =
     bindE (get_rc s p) (\<lambda>c.
     case map_find (rcc_senders c) senderId of
       None \<Rightarrow> Inr (False, s)
     | Some _ \<Rightarrow>
         bindE (rc_send p (disconnected_text text senderId) s) (\<lambda>s1.
         Inr (True, set_rc p (c\<lparr>rcc_senders := map_erase senderId (rcc_senders c)\<rparr>) s1)))"

definition addSenderChannel :: "(json \<Rightarrow> string) \<Rightarrow> nat \<Rightarrow> string \<Rightarrow> nat \<Rightarrow> ws_server \<Rightarrow> fault + bool \<times> ws_server" where
  "addSenderChannel text p senderId senderSession s =
     bindE (get_rc s p) (\<lambda>c.
     if getSenderChannel c senderId = None then
       bindE (new_SenderChannel senderSession senderId p s) (\<lambda>(q, s1).
       bindE (rc_send p (connected_text text senderId)
         (set_rc p (c\<lparr>rcc_senders := map_insert senderId q (rcc_senders c)\<rparr>) s1)) (\<lambda>s2.
       Inr (True, s2)))
     else bindE (on_net (ws_close senderSession) s) (\<lambda>s1. Inr (False, s1)))"

definition sc_onMessage :: "(json \<Rightarrow> string) \<Rightarrow> nat \<Rightarrow> string \<Rightarrow> ws_server \<Rightarrow> fault + ws_server" where
  "sc_onMessage text p msg s =
     bindE (get_sc s p) (\<lambda>c.
     bindE (deref (sdc_receiver c)) (\<lambda>r.
     rc_send r (message_text text (sdc_senderId c) msg) s))"

definition sc_onClose :: "(json \<Rightarrow> string) \<Rightarrow> nat \<Rightarrow> ws_server \<Rightarrow> fault + ws_server" where
  "sc_onClose text p s =
     bindE (get_sc s p) (\<lambda>c.
     bindE (case sdc_receiver c of
              None \<Rightarrow> Inr s
            | Some r \<Rightarrow> bindE (removeSenderChannel text r (sdc_senderId c) s) (\<lambda>(_, s1). Inr s1)) (\<lambda>s1.
     Inr (s1\<lparr>wv_scs := map_erase p (wv_scs s1)\<rparr>)))"

definition rc_onMessage :: "(string \<Rightarrow> json) \<Rightarrow> nat \<Rightarrow> string \<Rightarrow> ws_server \<Rightarrow> fault + ws_server" where
  "rc_onMessage parse p msg s =
     bindE (get_rc s p) (\<lambda>c.
     let d = parse (cstr msg)
     in bindE (js_member d ''senderId'') (\<lambda>sj.
        bindE (js_string sj) (\<lambda>senderId.
        bindE (js_member d ''data'') (\<lambda>data.
        if ''*:*'' = senderId then
          foldE (\<lambda>t e. bindE (js_string data) (\<lambda>m. sc_send (snd e) m t)) s (rcc_senders c)
        else
          (case getSenderChannel c senderId of
             None \<Rightarrow> Inr s
           | Some q \<Rightarrow> bindE (js_string data) (\<lambda>m. sc_send q m s))))))"

section \<open>WebsocketServer\<close>

definition getReceiverChannel :: "ws_server \<Rightarrow> string \<Rightarrow> nat option" where
  "getReceiverChannel s channelId = map_find (wv_receivers s) channelId"

definition removeReceiverChannel :: "string \<Rightarrow> ws_server \<Rightarrow> bool \<times> ws_server" where
  "removeReceiverChannel channelId s =
     (case map_find (wv_receivers s) channelId of
        Some _ \<Rightarrow> (True, s\<lparr>wv_receivers := map_erase channelId (wv_receivers s)\<rparr>)
      | None \<Rightarrow> (False, s))"

definition addReceiverChannel :: "string \<Rightarrow> nat \<Rightarrow> ws_server \<Rightarrow> fault + bool \<times> ws_server" where
  "addReceiverChannel channelId receiverSession s =
     (if getReceiverChannel s channelId = None then
        bindE (new_ReceiverChannel receiverSession channelId s) (\<lambda>(p, s1).
        Inr (True, s1\<lparr>wv_receivers := map_insert channelId p (wv_receivers s1)\<rparr>))
      else bindE (on_net (ws_close receiverSession) s) (\<lambda>s1. Inr (False, s1)))"

text \<open>\<open>ReceiverChannel::onClose\<close>; its \<open>Close\<close> signal is connected to \<open>removeReceiverChannel\<close>.\<close>

definition rc_onClose :: "nat \<Rightarrow> ws_server \<Rightarrow> fault + ws_server" where
  "rc_onClose p s =
     bindE (get_rc s p) (\<lambda>c.
     bindE (foldE (\<lambda>t e. sc_close (snd e) t) s (rcc_senders c)) (\<lambda>s1.
     let s2 = snd (removeReceiverChannel (rcc_channelId c) (set_rc p (c\<lparr>rcc_senders := []\<rparr>) s1))
     in Inr (s2\<lparr>wv_rcs := map_erase p (wv_rcs s2)\<rparr>)))"

definition onSenderConnected :: "(json \<Rightarrow> string) \<Rightarrow> string \<Rightarrow> string \<Rightarrow> nat \<Rightarrow> ws_server \<Rightarrow> fault + ws_server" where
  "onSenderConnected text channelId senderId senderSession s =
     (case getReceiverChannel s channelId of
        Some p \<Rightarrow> bindE (addSenderChannel text p senderId senderSession s) (\<lambda>(_, s1). Inr s1)
      | None \<Rightarrow> on_net (ws_close senderSession) s)"

definition onReceiverConnected :: "string \<Rightarrow> nat \<Rightarrow> ws_server \<Rightarrow> fault + ws_server" where
  "onReceiverConnected channelId session s =
     bindE (addReceiverChannel channelId session s) (\<lambda>(_, s1). Inr s1)"

text \<open>
  The two regular expressions, case-insensitive, searched for anywhere in the path:
  \<open>/channels/\<close> and a word of letters, digits, underscores and hyphens, and the same followed by
  \<open>/senders/\<close> and such a word. A word never contains the slash that ends it, so the greedy match is
  the longest run of word characters.
\<close>

definition idchar :: "char \<Rightarrow> bool" where
  "idchar c \<longleftrightarrow> (let n = of_char (toupper c) :: nat in (65 \<le> n \<and> n \<le> 90) \<or> isdigit c \<or> c = CHR ''_'' \<or> c = CHR ''-'')"

definition strip_iprefix :: "string \<Rightarrow> string \<Rightarrow> string option" where
  "strip_iprefix pat s = (if istarts_with s pat then Some (drop (length pat) s) else None)"

definition match_receiver_at :: "string \<Rightarrow> string option" where
  "match_receiver_at s =
     (case strip_iprefix ''/channels/'' s of
        None \<Rightarrow> None
      | Some r \<Rightarrow> if takeWhile idchar r = [] then None else Some (takeWhile idchar r))"

definition match_sender_at :: "string \<Rightarrow> (string \<times> string) option" where
  "match_sender_at s =
     (case strip_iprefix ''/channels/'' s of
        None \<Rightarrow> None
      | Some r \<Rightarrow>
          (case strip_iprefix ''/senders/'' (dropWhile idchar r) of
             None \<Rightarrow> None
           | Some q \<Rightarrow> if takeWhile idchar r = [] \<or> takeWhile idchar q = [] then None
                       else Some (takeWhile idchar r, takeWhile idchar q)))"

fun search_at :: "(string \<Rightarrow> 'm option) \<Rightarrow> string \<Rightarrow> 'm option" where
  "search_at f [] = f []"
| "search_at f (c # cs) = (case f (c # cs) of None \<Rightarrow> search_at f cs | Some m \<Rightarrow> Some m)"

definition onWebsocketConnection :: "(json \<Rightarrow> string) \<Rightarrow> string \<Rightarrow> nat \<Rightarrow> ws_server \<Rightarrow> fault + ws_server" where
  "onWebsocketConnection text path session s =
     (if starts_with path ''/channels/'' then
        (case search_at match_sender_at (cstr path) of
           Some (channelId, senderId) \<Rightarrow> onSenderConnected text channelId senderId session s
         | None \<Rightarrow>
             (case search_at match_receiver_at (cstr path) of
                Some channelId \<Rightarrow> onReceiverConnected channelId session s
              | None \<Rightarrow> Inr s))
      else Inr s)"

section \<open>Events\<close>

definition channel_message :: "(string \<Rightarrow> json) \<Rightarrow> (json \<Rightarrow> string) \<Rightarrow> channel_handler \<Rightarrow> string \<Rightarrow> ws_server \<Rightarrow> fault + ws_server" where
  "channel_message parse text h msg s =
     (case h of SenderHandler p \<Rightarrow> sc_onMessage text p msg s | ReceiverHandler p \<Rightarrow> rc_onMessage parse p msg s)"

definition channel_closed :: "(json \<Rightarrow> string) \<Rightarrow> channel_handler \<Rightarrow> ws_server \<Rightarrow> fault + ws_server" where
  "channel_closed text h s =
     (case h of SenderHandler p \<Rightarrow> sc_onClose text p s | ReceiverHandler p \<Rightarrow> rc_onClose p s)"

datatype ws_event = WsOpened nat string | WsMessage nat string | WsClosed nat

fun channel_step :: "(string \<Rightarrow> json) \<Rightarrow> (json \<Rightarrow> string) \<Rightarrow> ws_server \<Rightarrow> ws_event \<Rightarrow> fault + ws_server" where
  "channel_step parse text s (WsOpened i path) =
     (if map_find (wn_sessions (wv_net s)) i \<noteq> None then Inr s
      else onWebsocketConnection text path i (s\<lparr>wv_net := ws_open i (wv_net s)\<rparr>))"
| "channel_step parse text s (WsMessage i msg) = ws_on_message wv_net (channel_message parse text) i msg s"
| "channel_step parse text s (WsClosed i) =
     ws_clear wv_net (\<lambda>f t. t\<lparr>wv_net := f (wv_net t)\<rparr>) (channel_closed text) i s"

end
