(* ===== verification/Relay.thy ===== *)
theory Relay
  imports Channels
begin

text \<open>
  The WebSocket relay of \<open>Channels\<close> is memory safe and routes every message to the right sessions:
  the invariant that ties the table, the channels and the sessions together, its preservation by
  every event, and the routing of messages in both directions.
\<close>

section \<open>The invariant\<close>

text \<open>
  Over the lookups: \<open>S\<close> the sessions, \<open>C\<close> and \<open>R\<close> the sender and receiver channels, \<open>T\<close> the table of
  the server. Every pointer is to a live object that points back; a sender channel that has lost
  its receiver is being closed; a session has at most the one handler that runs on it.
\<close>

definition sender_ok where
  "sender_ok S R n q d \<longleftrightarrow> q < (n :: nat)
   \<and> (\<exists>w. S (sdc_session d) = Some w \<and> wss_handlers w = [SenderHandler q] \<and> (sdc_receiver d = None \<longrightarrow> wss_closing w))
   \<and> (\<forall>r. sdc_receiver d = Some r \<longrightarrow> (\<exists>c. R r = Some c \<and> map_find (rcc_senders c) (sdc_senderId d) = Some q))"

definition receiver_ok where
  "receiver_ok S C T n p c \<longleftrightarrow> p < (n :: nat) \<and> T (rcc_channelId c) = Some p \<and> map_wf (rcc_senders c)
   \<and> (\<exists>w. S (rcc_session c) = Some w \<and> wss_handlers w = [ReceiverHandler p])
   \<and> (\<forall>x q. map_find (rcc_senders c) x = Some q \<longrightarrow> (\<exists>d. C q = Some d \<and> sdc_senderId d = x \<and> sdc_receiver d = Some p))"

definition session_ok where
  "session_ok C R i w \<longleftrightarrow> wss_handlers w = []
   \<or> (\<exists>q d. wss_handlers w = [SenderHandler q] \<and> C q = Some d \<and> sdc_session d = i)
   \<or> (\<exists>p c. wss_handlers w = [ReceiverHandler p] \<and> R p = Some c \<and> rcc_session c = i)"

definition chan_inv where
  "chan_inv S C R T n \<longleftrightarrow>
     (\<forall>q d. C q = Some d \<longrightarrow> sender_ok S R n q d) \<and> (\<forall>p c. R p = Some c \<longrightarrow> receiver_ok S C T n p c)
   \<and> (\<forall>x p. T x = Some p \<longrightarrow> (\<exists>c. R p = Some c \<and> rcc_channelId c = x))
   \<and> (\<forall>i w. S i = Some w \<longrightarrow> session_ok C R i w)"

lemmas chan_inv_defs = chan_inv_def sender_ok_def receiver_ok_def session_ok_def

lemma session_ok_mono:
  "session_ok C R i w \<Longrightarrow> (\<And>q d. C q = Some d \<Longrightarrow> sdc_session d = i \<Longrightarrow> \<exists>d'. C' q = Some d' \<and> sdc_session d' = i) \<Longrightarrow>
   (\<And>p c. R p = Some c \<Longrightarrow> rcc_session c = i \<Longrightarrow> \<exists>c'. R' p = Some c' \<and> rcc_session c' = i) \<Longrightarrow> session_ok C' R' i w"
  unfolding session_ok_def by metis

lemma inv_open:
  "chan_inv S C R T n \<Longrightarrow> S i = None \<Longrightarrow> chan_inv (S(i \<mapsto> \<lparr>wss_closing = False, wss_handlers = []\<rparr>)) C R T n"
  unfolding chan_inv_defs by (auto split: if_splits) (metis option.distinct(1))+

lemma inv_closing:
  "chan_inv S C R T n \<Longrightarrow> S i = Some w \<Longrightarrow> chan_inv (S(i \<mapsto> w\<lparr>wss_closing := True\<rparr>)) C R T n"
  unfolding chan_inv_defs by (auto split: if_splits) (metis option.inject)+

lemma inv_add_receiver:
  assumes inv: "chan_inv S C R T n" and w: "S i = Some w" "wss_handlers w = []" and x: "T x = None"
  shows "chan_inv (S(i \<mapsto> w\<lparr>wss_handlers := [ReceiverHandler n]\<rparr>)) C
     (R(n \<mapsto> \<lparr>rcc_session = i, rcc_channelId = x, rcc_senders = []\<rparr>)) (T(x \<mapsto> n)) (n + 1)"
proof -
  have nR: "R n = None" and nC: "C n = None" using inv unfolding chan_inv_defs by (metis less_irrefl not_None_eq)+
  have s: "C q = Some d \<Longrightarrow> sdc_session d \<noteq> i" for q d using inv w unfolding chan_inv_defs by fastforce
  have r: "R p = Some c \<Longrightarrow> rcc_session c \<noteq> i \<and> rcc_channelId c \<noteq> x" for p c
    using inv w x unfolding chan_inv_defs by fastforce
  show ?thesis unfolding chan_inv_def
  proof (intro conjI allI impI)
    fix q d assume "C q = Some d"
    with inv s nR show "sender_ok (S(i \<mapsto> w\<lparr>wss_handlers := [ReceiverHandler n]\<rparr>))
        (R(n \<mapsto> \<lparr>rcc_session = i, rcc_channelId = x, rcc_senders = []\<rparr>)) (n + 1) q d"
      unfolding chan_inv_def sender_ok_def by (fastforce simp: less_Suc_eq)
  next
    fix p c assume "(R(n \<mapsto> \<lparr>rcc_session = i, rcc_channelId = x, rcc_senders = []\<rparr>)) p = Some c"
    with inv r show "receiver_ok (S(i \<mapsto> w\<lparr>wss_handlers := [ReceiverHandler n]\<rparr>)) C (T(x \<mapsto> n)) (n + 1) p c"
      unfolding chan_inv_def receiver_ok_def by (fastforce simp: less_Suc_eq split: if_splits)
  next
    fix y p assume "(T(x \<mapsto> n)) y = Some p"
    with inv nR show "\<exists>c. (R(n \<mapsto> \<lparr>rcc_session = i, rcc_channelId = x, rcc_senders = []\<rparr>)) p = Some c \<and> rcc_channelId c = y"
      unfolding chan_inv_def by (fastforce split: if_splits)
  next
    fix j v assume v: "(S(i \<mapsto> w\<lparr>wss_handlers := [ReceiverHandler n]\<rparr>)) j = Some v"
    show "session_ok C (R(n \<mapsto> \<lparr>rcc_session = i, rcc_channelId = x, rcc_senders = []\<rparr>)) j v"
    proof (cases "j = i")
      case True
      with v show ?thesis by (auto simp: session_ok_def)
    next
      case False
      with v inv have "session_ok C R j v" by (auto simp: chan_inv_def)
      then show ?thesis by (rule session_ok_mono) (use nR in auto)
    qed
  qed
qed

lemma inv_add_sender:
  assumes inv: "chan_inv S C R T n" and w: "S i = Some w" "wss_handlers w = []" 
    and c: "R p = Some c" and x: "map_find (rcc_senders c) x = None"
  shows "chan_inv (S(i \<mapsto> w\<lparr>wss_handlers := [SenderHandler n]\<rparr>))
     (C(n \<mapsto> \<lparr>sdc_session = i, sdc_senderId = x, sdc_receiver = Some p\<rparr>))
     (R(p \<mapsto> c\<lparr>rcc_senders := map_insert x n (rcc_senders c)\<rparr>)) T (n + 1)"
proof -
  have nR: "R n = None" and nC: "C n = None" using inv unfolding chan_inv_defs by (metis less_irrefl not_None_eq)+
  have s: "C q = Some d \<Longrightarrow> sdc_session d \<noteq> i" for q d using inv w unfolding chan_inv_defs by fastforce
  have r: "R p' = Some c' \<Longrightarrow> rcc_session c' \<noteq> i" for p' c'
    using inv w unfolding chan_inv_defs by fastforce
  have wf: "map_wf (rcc_senders c)" using inv c unfolding chan_inv_defs by blast
  have f: "map_find (map_insert x n (rcc_senders c)) = (map_find (rcc_senders c))(x \<mapsto> n)"
    by (rule map_find_new [OF wf x])
  let ?S = "S(i \<mapsto> w\<lparr>wss_handlers := [SenderHandler n]\<rparr>)"
  let ?C = "C(n \<mapsto> \<lparr>sdc_session = i, sdc_senderId = x, sdc_receiver = Some p\<rparr>)"
  let ?R = "R(p \<mapsto> c\<lparr>rcc_senders := map_insert x n (rcc_senders c)\<rparr>)"
  show ?thesis unfolding chan_inv_def
  proof (intro conjI allI impI)
    fix q d assume d: "?C q = Some d"
    show "sender_ok ?S ?R (n + 1) q d"
    proof (cases "q = n")
      case True
      with d f show ?thesis by (auto simp: sender_ok_def)
    next
      case False
      with d have "C q = Some d" by simp
      with inv have "sender_ok S R n q d" by (auto simp: chan_inv_def)
      then show ?thesis using s [OF \<open>C q = Some d\<close>] c x f unfolding sender_ok_def by fastforce
    qed
  next
    fix p' c' assume c': "?R p' = Some c'"
    show "receiver_ok ?S ?C T (n + 1) p' c'"
    proof (cases "p' = p")
      case True
      with c' have e: "c' = c\<lparr>rcc_senders := map_insert x n (rcc_senders c)\<rparr>" by simp
      have ok: "receiver_ok S C T n p c" using inv c by (auto simp: chan_inv_def)
      have "\<exists>d. ?C q = Some d \<and> sdc_senderId d = y \<and> sdc_receiver d = Some p"
        if "map_find (rcc_senders c') y = Some q" for y q
      proof (cases "y = x")
        case True
        with that e f show ?thesis by simp
      next
        case False
        with that e f have "map_find (rcc_senders c) y = Some q" by simp
        with ok nC show ?thesis unfolding receiver_ok_def by fastforce
      qed
      then show ?thesis using ok e True r [OF c] wf by (simp add: receiver_ok_def)
    next
      case False
      with c' have "R p' = Some c'" by simp
      moreover from this inv have "receiver_ok S C T n p' c'" by (auto simp: chan_inv_def)
      ultimately show ?thesis using r nC unfolding receiver_ok_def by fastforce
    qed
  next
    fix y p' assume "T y = Some p'"
    with inv c show "\<exists>c. ?R p' = Some c \<and> rcc_channelId c = y"
      unfolding chan_inv_def by fastforce
  next
    fix j v assume v: "?S j = Some v"
    show "session_ok ?C ?R j v"
    proof (cases "j = i")
      case True
      with v show ?thesis by (auto simp: session_ok_def)
    next
      case False
      with v inv have "session_ok C R j v" by (auto simp: chan_inv_def)
      then show ?thesis by (rule session_ok_mono) (use nC c in auto)
    qed
  qed
qed


lemma inv_sender_gone:
  assumes inv: "chan_inv S C R T n" and d: "C q = Some d" and r: "sdc_receiver d = None"
  shows "chan_inv (S(sdc_session d := None)) (C(q := None)) R T n"
proof -
  have q: "sender_ok S R n q d" using inv d by (auto simp: chan_inv_def)
  show ?thesis unfolding chan_inv_def
  proof (intro conjI allI impI)
    fix q' d' assume "(C(q := None)) q' = Some d'"
    then have "C q' = Some d'" "q' \<noteq> q" by (auto split: if_splits)
    then have "sender_ok S R n q' d'" using inv by (auto simp: chan_inv_def)
    with q \<open>q' \<noteq> q\<close> show "sender_ok (S(sdc_session d := None)) R n q' d'"
      unfolding sender_ok_def by auto
  next
    fix p c assume "R p = Some c"
    then have ok: "receiver_ok S C T n p c" using inv by (auto simp: chan_inv_def)
    have "map_find (rcc_senders c) y \<noteq> Some q" for y using ok d r unfolding receiver_ok_def by fastforce
    with ok q show "receiver_ok (S(sdc_session d := None)) (C(q := None)) T n p c"
      unfolding receiver_ok_def sender_ok_def by auto
  next
    fix y p assume "T y = Some p"
    with inv show "\<exists>c. R p = Some c \<and> rcc_channelId c = y" by (auto simp: chan_inv_def)
  next
    fix j v assume "(S(sdc_session d := None)) j = Some v"
    then have "session_ok C R j v" "j \<noteq> sdc_session d" using inv by (auto simp: chan_inv_def split: if_splits)
    then show "session_ok (C(q := None)) R j v" by (elim session_ok_mono) (use d in auto)
  qed
qed

lemma inv_sender_leaves:
  assumes inv: "chan_inv S C R T n" and d: "C q = Some d" and r: "sdc_receiver d = Some p" and c: "R p = Some c"
  shows "chan_inv (S(sdc_session d := None)) (C(q := None))
     (R(p \<mapsto> c\<lparr>rcc_senders := map_erase (sdc_senderId d) (rcc_senders c)\<rparr>)) T n"
proof -
  let ?R = "R(p \<mapsto> c\<lparr>rcc_senders := map_erase (sdc_senderId d) (rcc_senders c)\<rparr>)"
  have q: "sender_ok S R n q d" using inv d by (auto simp: chan_inv_def)
  have okp: "receiver_ok S C T n p c" using inv c by (auto simp: chan_inv_def)
  then have wf: "map_wf (rcc_senders c)" by (simp add: receiver_ok_def)
  have key: "map_find (rcc_senders c) (sdc_senderId d) = Some q" using q r c by (auto simp: sender_ok_def)
  have f: "map_find (map_erase (sdc_senderId d) (rcc_senders c)) = (map_find (rcc_senders c))(sdc_senderId d := None)"
    by (rule map_find_del [OF wf])
  have only: "map_find (rcc_senders c') y = Some q \<Longrightarrow> R p' = Some c' \<Longrightarrow> p' = p \<and> y = sdc_senderId d" for c' p' y
    using inv d r by (fastforce simp: chan_inv_def receiver_ok_def)
  show ?thesis unfolding chan_inv_def
  proof (intro conjI allI impI)
    fix q' d' assume "(C(q := None)) q' = Some d'"
    then have d': "C q' = Some d'" "q' \<noteq> q" by (auto split: if_splits)
    then have ok': "sender_ok S R n q' d'" using inv by (auto simp: chan_inv_def)
    have "sdc_senderId d' \<noteq> sdc_senderId d" if "sdc_receiver d' = Some p"
      using ok' that c key d'(2) by (auto simp: sender_ok_def)
    with ok' q d'(2) f c show "sender_ok (S(sdc_session d := None)) ?R n q' d'"
      unfolding sender_ok_def by (auto split: if_splits)
  next
    fix p' c' assume c': "?R p' = Some c'"
    show "receiver_ok (S(sdc_session d := None)) (C(q := None)) T n p' c'"
    proof (cases "p' = p")
      case True
      with c' have e: "c' = c\<lparr>rcc_senders := map_erase (sdc_senderId d) (rcc_senders c)\<rparr>" by simp
      have "\<exists>d'. (C(q := None)) q' = Some d' \<and> sdc_senderId d' = y \<and> sdc_receiver d' = Some p"
        if "map_find (rcc_senders c') y = Some q'" for y q'
        using that e f okp only [OF _ c] by (auto simp: receiver_ok_def split: if_splits)
      with True e okp wf q show ?thesis by (auto simp: receiver_ok_def sender_ok_def)
    next
      case False
      with c' have R': "R p' = Some c'" by simp
      then have ok': "receiver_ok S C T n p' c'" using inv by (auto simp: chan_inv_def)
      have "map_find (rcc_senders c') y \<noteq> Some q" for y using only [OF _ R'] False by blast
      with ok' q show ?thesis unfolding receiver_ok_def sender_ok_def by auto
    qed
  next
    fix y p' assume "T y = Some p'"
    with inv c show "\<exists>c. ?R p' = Some c \<and> rcc_channelId c = y" unfolding chan_inv_def by fastforce
  next
    fix j v assume "(S(sdc_session d := None)) j = Some v"
    then have "session_ok C R j v" "j \<noteq> sdc_session d" using inv by (auto simp: chan_inv_def split: if_splits)
    then show "session_ok (C(q := None)) ?R j v" by (elim session_ok_mono) (use d c in auto)
  qed
qed

text \<open>A receiver channel that closes first cuts its senders off: their sessions are closed.\<close>

lemma inv_sender_cut:
  assumes inv: "chan_inv S C R T n" and d: "C q = Some d" and r: "sdc_receiver d = Some p" and c: "R p = Some c"
    and w: "S (sdc_session d) = Some w"
  shows "chan_inv (S(sdc_session d \<mapsto> w\<lparr>wss_closing := True\<rparr>)) (C(q \<mapsto> d\<lparr>sdc_receiver := None\<rparr>))
     (R(p \<mapsto> c\<lparr>rcc_senders := map_erase (sdc_senderId d) (rcc_senders c)\<rparr>)) T n"
proof -
  let ?S = "S(sdc_session d \<mapsto> w\<lparr>wss_closing := True\<rparr>)"
  let ?C = "C(q \<mapsto> d\<lparr>sdc_receiver := None\<rparr>)"
  let ?R = "R(p \<mapsto> c\<lparr>rcc_senders := map_erase (sdc_senderId d) (rcc_senders c)\<rparr>)"
  have q: "sender_ok S R n q d" using inv d by (auto simp: chan_inv_def)
  then have hw: "wss_handlers w = [SenderHandler q]" using w by (auto simp: sender_ok_def)
  have okp: "receiver_ok S C T n p c" using inv c by (auto simp: chan_inv_def)
  then have wf: "map_wf (rcc_senders c)" by (simp add: receiver_ok_def)
  have key: "map_find (rcc_senders c) (sdc_senderId d) = Some q" using q r c by (auto simp: sender_ok_def)
  have f: "map_find (map_erase (sdc_senderId d) (rcc_senders c)) = (map_find (rcc_senders c))(sdc_senderId d := None)"
    by (rule map_find_del [OF wf])
  have only: "map_find (rcc_senders c') y = Some q \<Longrightarrow> R p' = Some c' \<Longrightarrow> p' = p \<and> y = sdc_senderId d" for c' p' y
    using inv d r by (fastforce simp: chan_inv_def receiver_ok_def)
  have inv': "chan_inv ?S C R T n" by (rule inv_closing [of S C R T n, OF inv w])
  show ?thesis unfolding chan_inv_def
  proof (intro conjI allI impI)
    fix q' d' assume d': "?C q' = Some d'"
    show "sender_ok ?S ?R n q' d'"
    proof (cases "q' = q")
      case True
      with d' q hw show ?thesis by (auto simp: sender_ok_def)
    next
      case False
      with d' have "C q' = Some d'" by simp
      then have ok': "sender_ok S R n q' d'" "sender_ok ?S R n q' d'" using inv inv' by (auto simp: chan_inv_def)
      have "sdc_senderId d' \<noteq> sdc_senderId d" if "sdc_receiver d' = Some p"
        using ok'(1) that c key False by (auto simp: sender_ok_def)
      with ok'(2) f c show ?thesis unfolding sender_ok_def by (metis fun_upd_apply option.inject receiver_channel.select_convs(3)
        receiver_channel.update_convs(3) receiver_channel.surjective)
    qed
  next
    fix p' c' assume c': "?R p' = Some c'"
    show "receiver_ok ?S ?C T n p' c'"
    proof (cases "p' = p")
      case True
      with c' have e: "c' = c\<lparr>rcc_senders := map_erase (sdc_senderId d) (rcc_senders c)\<rparr>" by simp
      have "\<exists>d'. ?C q' = Some d' \<and> sdc_senderId d' = y \<and> sdc_receiver d' = Some p"
        if "map_find (rcc_senders c') y = Some q'" for y q'
        using that e f okp only [OF _ c] by (auto simp: receiver_ok_def split: if_splits)
      moreover have "receiver_ok ?S C T n p c" using inv' c by (auto simp: chan_inv_def)
      ultimately show ?thesis using True e wf by (auto simp: receiver_ok_def)
    next
      case False
      with c' have R': "R p' = Some c'" by simp
      then have ok': "receiver_ok ?S C T n p' c'" using inv' by (auto simp: chan_inv_def)
      have "map_find (rcc_senders c') y \<noteq> Some q" for y using only [OF _ R'] False by blast
      with ok' show ?thesis unfolding receiver_ok_def by (metis fun_upd_apply)
    qed
  next
    fix y p' assume "T y = Some p'"
    with inv c show "\<exists>c. ?R p' = Some c \<and> rcc_channelId c = y" unfolding chan_inv_def by fastforce
  next
    fix j v assume "?S j = Some v"
    then have "session_ok C R j v" using inv' by (auto simp: chan_inv_def split: if_splits)
    then show "session_ok ?C ?R j v" by (rule session_ok_mono) (use d c in auto)
  qed
qed

lemma inv_receiver_gone:
  assumes inv: "chan_inv S C R T n" and c: "R p = Some c" and e: "rcc_senders c = []"
  shows "chan_inv (S(rcc_session c := None)) C (R(p := None)) (T(rcc_channelId c := None)) n"
proof -
  have okp: "receiver_ok S C T n p c" using inv c by (auto simp: chan_inv_def)
  show ?thesis unfolding chan_inv_def
  proof (intro conjI allI impI)
    fix q d assume "C q = Some d"
    then have ok: "sender_ok S R n q d" using inv by (auto simp: chan_inv_def)
    then have "sdc_receiver d \<noteq> Some p" using c e by (auto simp: sender_ok_def)
    with ok okp show "sender_ok (S(rcc_session c := None)) (R(p := None)) n q d"
      by (auto simp: sender_ok_def receiver_ok_def)
  next
    fix p' c' assume "(R(p := None)) p' = Some c'"
    then have "R p' = Some c'" "p' \<noteq> p" by (auto split: if_splits)
    moreover from this have ok: "receiver_ok S C T n p' c'" using inv by (auto simp: chan_inv_def)
    ultimately show "receiver_ok (S(rcc_session c := None)) C (T(rcc_channelId c := None)) n p' c'"
      using okp by (auto simp: receiver_ok_def)
  next
    fix y p' assume "(T(rcc_channelId c := None)) y = Some p'"
    with inv c show "\<exists>c. (R(p := None)) p' = Some c \<and> rcc_channelId c = y"
      unfolding chan_inv_def by (fastforce split: if_splits)
  next
    fix j v assume "(S(rcc_session c := None)) j = Some v"
    then have "session_ok C R j v" "j \<noteq> rcc_session c" using inv by (auto simp: chan_inv_def split: if_splits)
    then show "session_ok C (R(p := None)) j v" by (elim session_ok_mono) (use c in auto)
  qed
qed

section \<open>Every step keeps it\<close>

definition chan_ok :: "ws_server \<Rightarrow> bool" where
  "chan_ok s \<longleftrightarrow> map_wf (wn_sessions (wv_net s)) \<and> map_wf (wv_scs s) \<and> map_wf (wv_rcs s) \<and> map_wf (wv_receivers s)
   \<and> chan_inv (map_find (wn_sessions (wv_net s))) (map_find (wv_scs s)) (map_find (wv_rcs s))
       (map_find (wv_receivers s)) (wv_next s)"

definition emit :: "ws_action list \<Rightarrow> ws_server \<Rightarrow> ws_server" where
  "emit as s = s\<lparr>wv_net := (wv_net s)\<lparr>wn_out := wn_out (wv_net s) @ as\<rparr>\<rparr>"

lemma emit_simps [simp]:
  "wv_scs (emit as s) = wv_scs s" "wv_rcs (emit as s) = wv_rcs s" "wv_receivers (emit as s) = wv_receivers s"
  "wv_next (emit as s) = wv_next s" "wn_sessions (wv_net (emit as s)) = wn_sessions (wv_net s)"
  "wn_out (wv_net (emit as s)) = wn_out (wv_net s) @ as"
  "emit bs (emit as s) = emit (as @ bs) s" "emit [] s = s"
  by (simp_all add: emit_def)

lemma chan_ok_emit [simp]: "chan_ok (emit as s) \<longleftrightarrow> chan_ok s"
  by (simp add: chan_ok_def)

lemma chan_ok_fields:
  assumes "chan_ok s"
  shows "map_wf (wn_sessions (wv_net s))" and "map_wf (wv_scs s)" and "map_wf (wv_rcs s)" and "map_wf (wv_receivers s)"
    and "chan_inv (map_find (wn_sessions (wv_net s))) (map_find (wv_scs s)) (map_find (wv_rcs s))
       (map_find (wv_receivers s)) (wv_next s)"
  using assms by (simp_all add: chan_ok_def)

lemma chan_ok_sender:
  assumes "chan_ok s" and "map_find (wv_scs s) q = Some d"
  shows "sender_ok (map_find (wn_sessions (wv_net s))) (map_find (wv_rcs s)) (wv_next s) q d"
  using assms by (simp add: chan_ok_def chan_inv_def)

lemma chan_ok_receiver:
  assumes "chan_ok s" and "map_find (wv_rcs s) p = Some c"
  shows "receiver_ok (map_find (wn_sessions (wv_net s))) (map_find (wv_scs s)) (map_find (wv_receivers s)) (wv_next s) p c"
  using assms by (simp add: chan_ok_def chan_inv_def)

lemma chan_ok_fresh:
  assumes "chan_ok s"
  shows "map_find (wv_scs s) (wv_next s) = None" and "map_find (wv_rcs s) (wv_next s) = None"
proof -
  show "map_find (wv_scs s) (wv_next s) = None"
    using chan_ok_sender [OF assms, of "wv_next s"] by (cases "map_find (wv_scs s) (wv_next s)") (auto simp: sender_ok_def)
  show "map_find (wv_rcs s) (wv_next s) = None"
    using chan_ok_receiver [OF assms, of "wv_next s"] by (cases "map_find (wv_rcs s) (wv_next s)") (auto simp: receiver_ok_def)
qed

lemma rc_send_live:
  "chan_ok s \<Longrightarrow> map_find (wv_rcs s) p = Some c \<Longrightarrow> rc_send p msg s = Inr (emit [WsSend (rcc_session c) msg] s)"
  using chan_ok_receiver [of s p c] by (auto simp: rc_send_def get_rc_def on_net_def receiver_ok_def ws_live emit_def)

lemma sc_send_live:
  "chan_ok s \<Longrightarrow> map_find (wv_scs s) p = Some c \<Longrightarrow> sc_send p msg s = Inr (emit [WsSend (sdc_session c) msg] s)"
  using chan_ok_sender [of s p c] by (auto simp: sc_send_def get_sc_def on_net_def sender_ok_def ws_live emit_def)

lemma ok_close:
  assumes ok: "chan_ok s" and w: "map_find (wn_sessions (wv_net s)) i = Some w"
  shows "\<exists>s'. on_net (ws_close i) s = Inr s' \<and> chan_ok s'"
  using chan_ok_fields [OF ok] inv_closing [OF chan_ok_fields(5) [OF ok] w]
  by (simp add: on_net_def ws_live [OF w] chan_ok_def map_find_upd [OF w])

lemma ok_add_receiver:
  assumes ok: "chan_ok s" and w: "map_find (wn_sessions (wv_net s)) i = Some w" "wss_handlers w = []"
  shows "\<exists>s'. onReceiverConnected x i s = Inr s' \<and> chan_ok s'"
proof (cases "map_find (wv_receivers s) x")
  case None
  note f = chan_ok_fields [OF ok]
  show ?thesis
    using f inv_add_receiver [OF f(5) w None] w chan_ok_fresh [OF ok] None
    by (simp add: onReceiverConnected_def addReceiverChannel_def getReceiverChannel_def new_ReceiverChannel_def
        on_net_def ws_live [OF w(1)] Let_def chan_ok_def map_find_upd [OF w(1)] map_find_new)
next
  case (Some p)
  then show ?thesis using ok_close [OF ok w(1)]
    by (auto simp: onReceiverConnected_def addReceiverChannel_def getReceiverChannel_def)
qed

lemma ok_add_sender:
  assumes ok: "chan_ok s" and w: "map_find (wn_sessions (wv_net s)) i = Some w" "wss_handlers w = []"
  shows "\<exists>s'. onSenderConnected text x y i s = Inr s' \<and> chan_ok s'"
proof (cases "map_find (wv_receivers s) x")
  case None
  then show ?thesis using ok_close [OF ok w(1)] by (simp add: onSenderConnected_def getReceiverChannel_def)
next
  case (Some p)
  note f = chan_ok_fields [OF ok]
  obtain c where c: "map_find (wv_rcs s) p = Some c" using f(5) Some unfolding chan_inv_def by blast
  show ?thesis
  proof (cases "map_find (rcc_senders c) y")
    case (Some q)
    with c \<open>map_find (wv_receivers s) x = Some p\<close> ok_close [OF ok w(1)] show ?thesis
      by (auto simp: onSenderConnected_def getReceiverChannel_def addSenderChannel_def get_rc_def getSenderChannel_def)
  next
    case None
    let ?n = "wv_next s"
    define s1 where "s1 = s\<lparr>wv_net := (wv_net s)\<lparr>wn_sessions := map_set i (w\<lparr>wss_handlers := [SenderHandler ?n]\<rparr>)
        (wn_sessions (wv_net s))\<rparr>,
      wv_scs := map_insert ?n \<lparr>sdc_session = i, sdc_senderId = y, sdc_receiver = Some p\<rparr> (wv_scs s),
      wv_next := ?n + 1, wv_rcs := map_set p (c\<lparr>rcc_senders := map_insert y ?n (rcc_senders c)\<rparr>) (wv_rcs s)\<rparr>"
    have ok1: "chan_ok s1"
      using f inv_add_sender [OF f(5) w c None] chan_ok_fresh [OF ok]
      by (simp add: chan_ok_def s1_def map_find_upd [OF w(1)] map_find_upd [OF c] map_find_new)
    have c1: "map_find (wv_rcs s1) p = Some (c\<lparr>rcc_senders := map_insert y ?n (rcc_senders c)\<rparr>)"
      by (simp add: s1_def map_find_upd [OF c])
    have "onSenderConnected text x y i s = bindE (rc_send p (connected_text text y) s1) Inr"
      using c w None \<open>map_find (wv_receivers s) x = Some p\<close>
      by (simp add: onSenderConnected_def getReceiverChannel_def addSenderChannel_def get_rc_def getSenderChannel_def
          new_SenderChannel_def on_net_def ws_live [OF w(1)] Let_def set_rc_def s1_def bindE_assoc)
    then show ?thesis using rc_send_live [OF ok1 c1] ok1 by simp
  qed
qed

lemma ok_opened:
  assumes ok: "chan_ok s"
  shows "\<exists>s'. channel_step parse text s (WsOpened i path) = Inr s' \<and> chan_ok s'"
proof (cases "map_find (wn_sessions (wv_net s)) i")
  case (Some w)
  with ok show ?thesis by simp
next
  case None
  note f = chan_ok_fields [OF ok]
  let ?s = "s\<lparr>wv_net := ws_open i (wv_net s)\<rparr>" and ?w = "\<lparr>wss_closing = False, wss_handlers = []\<rparr>"
  have ok1: "chan_ok ?s" using f inv_open [OF f(5) None] None by (simp add: chan_ok_def ws_open_def map_find_new)
  have w: "map_find (wn_sessions (wv_net ?s)) i = Some ?w" using f(1) None by (simp add: ws_open_def map_find_insert)
  show ?thesis
    using None ok1 ok_add_sender [OF ok1 w, of "text"] ok_add_receiver [OF ok1 w]
    by (auto simp: onWebsocketConnection_def split: option.splits)
qed

lemma broadcast_sends:
  assumes ok: "chan_ok s" and live: "\<forall>e \<in> set es. \<exists>d. map_find (wv_scs s) (snd e) = Some d"
  shows "foldE (\<lambda>t e. sc_send (snd e) m t) s es =
    Inr (emit (map (\<lambda>e. WsSend (sdc_session (the (map_find (wv_scs s) (snd e)))) m) es) s)"
  using assms
proof (induction es arbitrary: s)
  case (Cons e es)
  then obtain d where d: "map_find (wv_scs s) (snd e) = Some d" by auto
  have "chan_ok (emit [WsSend (sdc_session d) m] s)" using Cons.prems by simp
  from Cons.IH [OF this] Cons.prems d sc_send_live [OF Cons.prems(1) d] show ?case by simp
qed simp

lemma foldE_fault: "es \<noteq> [] \<Longrightarrow> foldE (\<lambda>t e. Inl f) s es = Inl f"
  by (cases es) simp_all

lemma receiver_ok_senders:
  "receiver_ok S C T n p c \<Longrightarrow> map_find (rcc_senders c) x = Some q \<Longrightarrow>
   \<exists>d. C q = Some d \<and> sdc_senderId d = x \<and> sdc_receiver d = Some p"
  by (simp add: receiver_ok_def)

lemma senders_live:
  assumes ok: "chan_ok s" and c: "map_find (wv_rcs s) p = Some c"
  shows "\<forall>e \<in> set (rcc_senders c). \<exists>d. map_find (wv_scs s) (snd e) = Some d"
proof
  fix e assume e: "e \<in> set (rcc_senders c)"
  have r: "map_wf (rcc_senders c)"
    "\<And>x q. map_find (rcc_senders c) x = Some q \<Longrightarrow> \<exists>d. map_find (wv_scs s) q = Some d"
    using chan_ok_receiver [OF ok c] by (auto simp: receiver_ok_def)
  have "map_find (rcc_senders c) (fst e) = Some (snd e)" using e r(1) by (simp add: map_find_iff)
  then show "\<exists>d. map_find (wv_scs s) (snd e) = Some d" by (rule r(2))
qed

text \<open>A handler that only sends, unless a JSON assertion stops it.\<close>

definition only_sends :: "ws_server \<Rightarrow> fault + ws_server \<Rightarrow> bool" where
  "only_sends s r \<longleftrightarrow> r = Inl BadJson \<or> (\<exists>as. r = Inr (emit as s))"

lemma only_sends_simps [simp]:
  "only_sends s (Inl f) \<longleftrightarrow> f = BadJson" "only_sends s (Inr (emit as s))"
  by (auto simp: only_sends_def)

lemma only_sends_nop [simp]: "only_sends s (Inr s)"
  unfolding only_sends_def by (intro disjI2 exI [of _ "[]"]) simp

lemma only_sends_json:
  "(\<And>x. only_sends s (f x)) \<Longrightarrow> only_sends s (bindE (js_member j k) f)"
  "(\<And>y. only_sends s (g y)) \<Longrightarrow> only_sends s (bindE (js_string j) g)"
  by (cases j; simp add: js_member_def js_string_def)+

lemma ok_receiver_message:
  assumes ok: "chan_ok s" and c: "map_find (wv_rcs s) p = Some c"
  shows "only_sends s (rc_onMessage parse p msg s)"
proof -
  have one: "only_sends s (bindE (js_string j) (\<lambda>m. sc_send q m s))" if "map_find (rcc_senders c) x = Some q" for x q j
  proof (rule only_sends_json)
    fix m
    have "\<exists>d. map_find (wv_scs s) q = Some d"
      using receiver_ok_senders [OF chan_ok_receiver [OF ok c], of x q] that by auto
    then obtain d where "map_find (wv_scs s) q = Some d" by blast
    then show "only_sends s (sc_send q m s)" by (simp add: sc_send_live [OF ok])
  qed
  have all: "only_sends s (foldE (\<lambda>t e. bindE (js_string j) (\<lambda>m. sc_send (snd e) m t)) s (rcc_senders c))" for j
  proof (cases "js_string j")
    case (Inl f)
    then have "f = BadJson" by (cases j) (auto simp: js_string_def)
    with Inl show ?thesis by (cases "rcc_senders c") simp_all
  next
    case (Inr m)
    then show ?thesis by (simp add: broadcast_sends [OF ok senders_live [OF ok c]])
  qed
  show ?thesis
    using c one all by (auto simp: rc_onMessage_def get_rc_def Let_def getSenderChannel_def split: option.splits
        intro!: only_sends_json)
qed

lemma ok_message:
  assumes ok: "chan_ok s"
  shows "only_sends s (channel_step parse text s (WsMessage i msg))"
proof (cases "map_find (wn_sessions (wv_net s)) i")
  case None
  then show ?thesis by (simp add: ws_on_message_def)
next
  case (Some w)
  note f = chan_ok_fields [OF ok]
  have "session_ok (map_find (wv_scs s)) (map_find (wv_rcs s)) i w" using f(5) Some by (simp add: chan_inv_def)
  then consider (none) "wss_handlers w = []"
    | (sender) q d where "wss_handlers w = [SenderHandler q]" "map_find (wv_scs s) q = Some d" "sdc_session d = i"
    | (receiver) p c where "wss_handlers w = [ReceiverHandler p]" "map_find (wv_rcs s) p = Some c" "rcc_session c = i"
    unfolding session_ok_def by blast
  then show ?thesis
  proof cases
    case none
    with Some show ?thesis by (simp add: ws_on_message_def)
  next
    case (sender q d)
    have sok: "sender_ok (map_find (wn_sessions (wv_net s))) (map_find (wv_rcs s)) (wv_next s) q d"
      by (rule chan_ok_sender [OF ok sender(2)])
    show ?thesis
    proof (cases "wss_closing w")
      case True
      with Some show ?thesis by (simp add: ws_on_message_def)
    next
      case False
      with sok sender(3) Some obtain r c where r: "sdc_receiver d = Some r" "map_find (wv_rcs s) r = Some c"
        by (cases "sdc_receiver d") (auto simp: sender_ok_def)
      with False sender Some show ?thesis
        by (simp add: ws_on_message_def channel_message_def sc_onMessage_def get_sc_def rc_send_live [OF ok])
    qed
  next
    case (receiver p c)
    with Some ok_receiver_message [OF ok receiver(2), of parse msg] show ?thesis
      by (simp add: ws_on_message_def channel_message_def)
  qed
qed

text \<open>The sender's connection has closed: it leaves its receiver, if it still has one.\<close>

lemma ok_sender_closed:
  assumes ok: "chan_ok s" and d: "map_find (wv_scs s) q = Some d"
  shows "\<exists>s'. sc_onClose text q s = Inr s' \<and> chan_ok (s'\<lparr>wv_net := ws_delete (sdc_session d) (wv_net s')\<rparr>)"
proof -
  note f = chan_ok_fields [OF ok] and sok = chan_ok_sender [OF ok d]
  show ?thesis
  proof (cases "sdc_receiver d")
    case None
    with f inv_sender_gone [OF f(5) d None] show ?thesis
      using d by (simp add: sc_onClose_def get_sc_def chan_ok_def ws_delete_def map_find_del)
  next
    case (Some r)
    then obtain c where c: "map_find (wv_rcs s) r = Some c" "map_find (rcc_senders c) (sdc_senderId d) = Some q"
      using sok by (auto simp: sender_ok_def)
    show ?thesis
      using f inv_sender_leaves [OF f(5) d Some c(1)] d c Some
      by (simp add: sc_onClose_def get_sc_def removeSenderChannel_def get_rc_def rc_send_live [OF ok c(1)] set_rc_def
          chan_ok_def ws_delete_def map_find_del map_find_upd [OF c(1)] cong: bindE_cong)
  qed
qed

lemma cut_senders:
  assumes "map_wf (wn_sessions (wv_net s))" "map_wf (wv_scs s)" "map_find (wv_rcs s) p = Some c"
    and "chan_inv (map_find (wn_sessions (wv_net s))) (map_find (wv_scs s)) ((map_find (wv_rcs s))(p \<mapsto> c\<lparr>rcc_senders := L\<rparr>)) T n"
  shows "\<exists>s'. foldE (\<lambda>t e. sc_close (snd e) t) s L = Inr s' \<and> map_wf (wn_sessions (wv_net s')) \<and> map_wf (wv_scs s')
    \<and> wv_rcs s' = wv_rcs s \<and> wv_receivers s' = wv_receivers s \<and> wv_next s' = wv_next s
    \<and> chan_inv (map_find (wn_sessions (wv_net s'))) (map_find (wv_scs s')) ((map_find (wv_rcs s))(p \<mapsto> c\<lparr>rcc_senders := []\<rparr>)) T n"
  using assms
proof (induction L arbitrary: s)
  case (Cons e L)
  obtain x q where e: "e = (x, q)" by (cases e)
  let ?R = "(map_find (wv_rcs s))(p \<mapsto> c\<lparr>rcc_senders := e # L\<rparr>)"
  have Rp: "?R p = Some (c\<lparr>rcc_senders := e # L\<rparr>)" by simp
  have "receiver_ok (map_find (wn_sessions (wv_net s))) (map_find (wv_scs s)) T n p (c\<lparr>rcc_senders := e # L\<rparr>)"
    using Cons.prems(4) Rp unfolding chan_inv_def by blast
  then obtain d where d: "map_find (wv_scs s) q = Some d" "sdc_senderId d = x" "sdc_receiver d = Some p"
    using receiver_ok_senders [of _ _ _ _ _ "c\<lparr>rcc_senders := e # L\<rparr>" x q] e by fastforce
  then have "sender_ok (map_find (wn_sessions (wv_net s))) ?R n q d" using Cons.prems(4) unfolding chan_inv_def by blast
  then obtain w where w: "map_find (wn_sessions (wv_net s)) (sdc_session d) = Some w" by (auto simp: sender_ok_def)
  let ?s1 = "s\<lparr>wv_scs := map_set q (d\<lparr>sdc_receiver := None\<rparr>) (wv_scs s),
    wv_net := (wv_net s)\<lparr>wn_sessions := map_set (sdc_session d) (w\<lparr>wss_closing := True\<rparr>) (wn_sessions (wv_net s)),
      wn_out := wn_out (wv_net s) @ [WsClose (sdc_session d)]\<rparr>\<rparr>"
  have step: "sc_close q s = Inr ?s1"
    using d w by (simp add: sc_close_def get_sc_def on_net_def set_sc_def ws_live)
  have erase: "map_erase x ((x, q) # L) = L" by simp
  have "chan_inv (map_find (wn_sessions (wv_net ?s1))) (map_find (wv_scs ?s1))
      ((map_find (wv_rcs s))(p \<mapsto> c\<lparr>rcc_senders := L\<rparr>)) T n"
  proof -
    have "chan_inv ((map_find (wn_sessions (wv_net s)))(sdc_session d \<mapsto> w\<lparr>wss_closing := True\<rparr>))
        ((map_find (wv_scs s))(q \<mapsto> d\<lparr>sdc_receiver := None\<rparr>)) (?R(p \<mapsto> c\<lparr>rcc_senders := L\<rparr>)) T n"
      using inv_sender_cut [OF Cons.prems(4) d(1,3) Rp w] d(2) e by (simp del: fun_upd_apply fun_upd_upd)
    then show ?thesis
      by (simp only: fun_upd_upd) (simp add: map_find_upd [OF d(1)] map_find_upd [OF w])
  qed
  then have "\<exists>s'. foldE (\<lambda>t e. sc_close (snd e) t) ?s1 L = Inr s' \<and> map_wf (wn_sessions (wv_net s')) \<and> map_wf (wv_scs s')
    \<and> wv_rcs s' = wv_rcs s \<and> wv_receivers s' = wv_receivers s \<and> wv_next s' = wv_next s
    \<and> chan_inv (map_find (wn_sessions (wv_net s'))) (map_find (wv_scs s')) ((map_find (wv_rcs s))(p \<mapsto> c\<lparr>rcc_senders := []\<rparr>)) T n"
    using Cons.IH [of ?s1] Cons.prems(1-3) by (simp del: fun_upd_apply)
  with step e show ?case by (simp del: fun_upd_apply)
qed simp

lemma ok_receiver_closed:
  assumes ok: "chan_ok s" and c: "map_find (wv_rcs s) p = Some c"
  shows "\<exists>s'. rc_onClose p s = Inr s' \<and> chan_ok (s'\<lparr>wv_net := ws_delete (rcc_session c) (wv_net s')\<rparr>)"
proof -
  note f = chan_ok_fields [OF ok]
  have "(map_find (wv_rcs s))(p \<mapsto> c\<lparr>rcc_senders := rcc_senders c\<rparr>) = map_find (wv_rcs s)" using c by auto
  with cut_senders [OF f(1,2) c, of "rcc_senders c"] f(5)
  obtain s1 where s1: "foldE (\<lambda>t e. sc_close (snd e) t) s (rcc_senders c) = Inr s1"
    "map_wf (wn_sessions (wv_net s1))" "map_wf (wv_scs s1)"
    "wv_rcs s1 = wv_rcs s" "wv_receivers s1 = wv_receivers s" "wv_next s1 = wv_next s"
    "chan_inv (map_find (wn_sessions (wv_net s1))) (map_find (wv_scs s1)) ((map_find (wv_rcs s))(p \<mapsto> c\<lparr>rcc_senders := []\<rparr>))
      (map_find (wv_receivers s)) (wv_next s)" by auto
  have gone: "chan_inv ((map_find (wn_sessions (wv_net s1)))(rcc_session c := None)) (map_find (wv_scs s1))
      ((map_find (wv_rcs s))(p := None)) ((map_find (wv_receivers s))(rcc_channelId c := None)) (wv_next s)"
    using inv_receiver_gone [OF s1(7), of p "c\<lparr>rcc_senders := []\<rparr>"] by simp
  have t: "map_find (wv_receivers s) (rcc_channelId c) = Some p"
    using chan_ok_receiver [OF ok c] by (simp add: receiver_ok_def)
  have "rc_onClose p s = Inr (s1\<lparr>wv_receivers := map_erase (rcc_channelId c) (wv_receivers s),
      wv_rcs := map_erase p (map_set p (c\<lparr>rcc_senders := []\<rparr>) (wv_rcs s))\<rparr>)"
    using c s1 t by (simp add: rc_onClose_def get_rc_def Let_def removeReceiverChannel_def set_rc_def)
  then show ?thesis
    using f s1 gone by (simp add: chan_ok_def ws_delete_def map_find_del map_find_upd [OF c])
qed

lemma ok_closed:
  assumes ok: "chan_ok s"
  shows "\<exists>s'. channel_step parse text s (WsClosed i) = Inr s' \<and> chan_ok s'"
proof (cases "map_find (wn_sessions (wv_net s)) i")
  case None
  with ok show ?thesis by (simp add: ws_clear_def)
next
  case (Some w)
  note f = chan_ok_fields [OF ok]
  have "session_ok (map_find (wv_scs s)) (map_find (wv_rcs s)) i w" using f(5) Some by (simp add: chan_inv_def)
  then consider (none) "wss_handlers w = []"
    | (sender) q d where "wss_handlers w = [SenderHandler q]" "map_find (wv_scs s) q = Some d" "sdc_session d = i"
    | (receiver) p c where "wss_handlers w = [ReceiverHandler p]" "map_find (wv_rcs s) p = Some c" "rcc_session c = i"
    unfolding session_ok_def by blast
  then show ?thesis
  proof cases
    case none
    have "chan_inv ((map_find (wn_sessions (wv_net s)))(i := None)) (map_find (wv_scs s)) (map_find (wv_rcs s))
        (map_find (wv_receivers s)) (wv_next s)"
    proof -
      have "sdc_session d \<noteq> i" if "map_find (wv_scs s) q = Some d" for q d
        using chan_ok_sender [OF ok that] Some none by (auto simp: sender_ok_def)
      moreover have "rcc_session c \<noteq> i" if "map_find (wv_rcs s) p = Some c" for p c
        using chan_ok_receiver [OF ok that] Some none by (auto simp: receiver_ok_def)
      ultimately show ?thesis using f(5) by (simp add: chan_inv_def sender_ok_def receiver_ok_def)
    qed
    with Some none f show ?thesis by (simp add: ws_clear_def chan_ok_def ws_delete_def map_find_del)
  next
    case (sender q d)
    with Some ok_sender_closed [OF ok sender(2), of "text"] show ?thesis
      by (auto simp: ws_clear_def channel_closed_def)
  next
    case (receiver p c)
    with Some ok_receiver_closed [OF ok receiver(2)] show ?thesis
      by (auto simp: ws_clear_def channel_closed_def)
  qed
qed

section \<open>Properties\<close>

lemma channel_step_ok:
  assumes ok: "chan_ok s"
  shows "channel_step parse text s e = Inl BadJson \<or> (\<exists>s'. channel_step parse text s e = Inr s' \<and> chan_ok s')"
proof (cases e)
  case (WsMessage i msg)
  with ok_message [OF ok, of parse "text" i msg] ok show ?thesis by (auto simp: only_sends_def)
qed (use ok_opened [OF ok] ok_closed [OF ok] in auto)

interpretation channels: fallible_machine "channel_step parse text" chan_ok
  for parse "text"
proof unfold_locales
  fix s e s' assume "chan_ok s" "channel_step parse text s e = Inr s'"
  then show "chan_ok s'" using channel_step_ok [of s parse "text" e] by auto
qed

lemma init_ws_server_ok: "chan_ok init_ws_server"
  by (simp add: chan_ok_def init_ws_server_def init_net_def chan_inv_def)

text \<open>
  C15. The relay is memory safe: from the empty server, no sequence of connections, messages and
  disconnections makes it use a channel or a session that is gone, and the channel table, the
  channels and the sessions keep pointing at each other consistently. All that can stop it is an
  assertion of the JSON library, on a receiver's message that lacks its two strings.
\<close>

theorem relay_memory_safe:
  "case foldE (channel_step parse text) init_ws_server es of Inl f \<Rightarrow> f = BadJson | Inr s \<Rightarrow> chan_ok s"
proof -
  have "chan_ok s \<Longrightarrow> case foldE (channel_step parse text) s es of Inl f \<Rightarrow> f = BadJson | Inr s' \<Rightarrow> chan_ok s'" for s
  proof (induction es arbitrary: s)
    case (Cons e es)
    from channel_step_ok [OF Cons.prems, of parse "text" e] show ?case
      using Cons.IH by auto
  qed simp
  then show ?thesis using init_ws_server_ok by blast
qed

lemma receiver_message_sends:
  assumes run: "foldE (channel_step parse text) init_ws_server es = Inr s"
    and w: "map_find (wn_sessions (wv_net s)) i = Some w" "\<not> wss_closing w" "wss_handlers w = [ReceiverHandler p]"
    and c: "map_find (wv_rcs s) p = Some c"
    and msg: "parse (cstr msg) = JObj ms" "lookup_member ms ''senderId'' = JStr to" "lookup_member ms ''data'' = JStr body"
  shows "channel_step parse text s (WsMessage i msg) = Inr (emit
     (map (\<lambda>e. WsSend (sdc_session (the (map_find (wv_scs s) (snd e)))) (cstr body))
       (filter (\<lambda>e. cstr to = ''*:*'' \<or> fst e = cstr to) (rcc_senders c))) s)"
proof -
  have ok: "chan_ok s" using channels.run_inv [OF init_ws_server_ok run] .
  note live = senders_live [OF ok c]
  have wf: "map_wf (rcc_senders c)" using chan_ok_receiver [OF ok c] by (simp add: receiver_ok_def)
  have only: "filter (\<lambda>e. fst e = x) m = (case map_find m x of None \<Rightarrow> [] | Some q \<Rightarrow> [(x, q)])"
    if "map_wf m" for m :: "(string, nat) std_map" and x
    using that
  proof (induction m)
    case (Cons e m)
    obtain y q where e: "e = (y, q)" by (cases e)
    have "y = x \<Longrightarrow> map_find m x = None" using Cons.prems e by (force simp: map_find_None)
    with Cons e show ?case by auto
  qed simp
  show ?thesis
  proof (cases "cstr to = ''*:*''")
    case True
    then show ?thesis using w c msg broadcast_sends [OF ok live, of "cstr body"]
      by (simp add: ws_on_message_def channel_message_def rc_onMessage_def get_rc_def)
  next
    case False
    show ?thesis
    proof (cases "map_find (rcc_senders c) (cstr to)")
      case None
      with False w c msg only [OF wf, of "cstr to"] show ?thesis
        by (simp add: ws_on_message_def channel_message_def rc_onMessage_def get_rc_def getSenderChannel_def)
    next
      case (Some q)
      then obtain d where "map_find (wv_scs s) q = Some d"
        using receiver_ok_senders [OF chan_ok_receiver [OF ok c] Some] by auto
      with Some False w c msg only [OF wf, of "cstr to"] show ?thesis
        by (simp add: ws_on_message_def channel_message_def rc_onMessage_def get_rc_def getSenderChannel_def
            sc_send_live [OF ok])
    qed
  qed
qed

text \<open>
  C16. A receiver's message reaches its senders and nobody else: addressed to \<open>*:*\<close> it is sent, as
  it is, to every sender of the channel, in the order of their ids, and addressed to one id to
  that sender only, or to nobody if the id is not there.
\<close>

theorem receiver_message_routed:
  assumes run: "foldE (channel_step parse text) init_ws_server es = Inr s"
    and w: "map_find (wn_sessions (wv_net s)) i = Some w" "\<not> wss_closing w" "wss_handlers w = [ReceiverHandler p]"
    and c: "map_find (wv_rcs s) p = Some c"
    and msg: "parse (cstr msg) = JObj ms" "lookup_member ms ''senderId'' = JStr to" "lookup_member ms ''data'' = JStr body"
  shows "channel_step parse text s (WsMessage i msg) = Inr (emit
     (map (\<lambda>e. WsSend (sdc_session (the (map_find (wv_scs s) (snd e)))) (cstr body))
       (filter (\<lambda>e. cstr to = ''*:*'' \<or> fst e = cstr to) (rcc_senders c))) s)"
  by (rule receiver_message_sends [OF assms])

text \<open>
  C17. A sender's message reaches its receiver and nobody else: it is wrapped with the sender's id
  and sent to the receiver whose channel the sender joined.
\<close>

theorem sender_message_routed:
  assumes run: "foldE (channel_step parse text) init_ws_server es = Inr s"
    and w: "map_find (wn_sessions (wv_net s)) i = Some w" "\<not> wss_closing w" "wss_handlers w = [SenderHandler q]"
    and d: "map_find (wv_scs s) q = Some d"
  shows "\<exists>p c. sdc_receiver d = Some p \<and> map_find (wv_rcs s) p = Some c
     \<and> map_find (wv_receivers s) (rcc_channelId c) = Some p
     \<and> channel_step parse text s (WsMessage i msg) =
         Inr (emit [WsSend (rcc_session c) (message_text text (sdc_senderId d) msg)] s)"
proof -
  have ok: "chan_ok s" using channels.run_inv [OF init_ws_server_ok run] .
  have "session_ok (map_find (wv_scs s)) (map_find (wv_rcs s)) i w"
    using chan_ok_fields(5) [OF ok] w(1) by (simp add: chan_inv_def)
  then have di: "sdc_session d = i" using w(3) d by (auto simp: session_ok_def)
  have sok: "sender_ok (map_find (wn_sessions (wv_net s))) (map_find (wv_rcs s)) (wv_next s) q d"
    by (rule chan_ok_sender [OF ok d])
  then obtain p c where p: "sdc_receiver d = Some p" "map_find (wv_rcs s) p = Some c"
    using w(1,2) di by (cases "sdc_receiver d") (auto simp: sender_ok_def)
  moreover have "map_find (wv_receivers s) (rcc_channelId c) = Some p"
    using chan_ok_receiver [OF ok p(2)] by (simp add: receiver_ok_def)
  ultimately show ?thesis using w d
    by (simp add: ws_on_message_def channel_message_def sc_onMessage_def get_sc_def rc_send_live [OF ok])
qed

text \<open>A channel with two senders, for the witnesses.\<close>

definition sample_channel :: "ws_event list" where
  "sample_channel = [WsOpened 1 ''/channels/tv'', WsOpened 2 ''/channels/tv/senders/a'', WsOpened 3 ''/channels/tv/senders/b'']"

definition sample_parse :: "string \<Rightarrow> json" where
  "sample_parse s = JObj [(''senderId'', JStr ''*:*''), (''data'', JStr s)]"

definition sample_server :: ws_server where
  "sample_server = (case foldE (channel_step sample_parse (\<lambda>_. ''text'')) init_ws_server sample_channel of
     Inr s \<Rightarrow> s | Inl _ \<Rightarrow> init_ws_server)"

lemma sample_server_eq:
  "sample_server =
     \<lparr>wv_net = \<lparr>wn_sessions = [(1, \<lparr>wss_closing = False, wss_handlers = [ReceiverHandler 0]\<rparr>),
         (2, \<lparr>wss_closing = False, wss_handlers = [SenderHandler 1]\<rparr>),
         (3, \<lparr>wss_closing = False, wss_handlers = [SenderHandler 2]\<rparr>)],
       wn_out = [WsSend 1 ''text'', WsSend 1 ''text'']\<rparr>,
     wv_scs = [(1, \<lparr>sdc_session = 2, sdc_senderId = ''a'', sdc_receiver = Some 0\<rparr>),
       (2, \<lparr>sdc_session = 3, sdc_senderId = ''b'', sdc_receiver = Some 0\<rparr>)],
     wv_rcs = [(0, \<lparr>rcc_session = 1, rcc_channelId = ''tv'', rcc_senders = [(''a'', 1), (''b'', 2)]\<rparr>)],
     wv_next = 3, wv_receivers = [(''tv'', 0)]\<rparr>"
  by code_simp

lemma sample_server_run:
  "foldE (channel_step sample_parse (\<lambda>_. ''text'')) init_ws_server sample_channel = Inr sample_server"
  by code_simp

theorem receiver_message_routed_witness:
  "channel_step sample_parse (\<lambda>_. ''text'') sample_server (WsMessage 1 ''hi'') =
     Inr (emit [WsSend 2 ''hi'', WsSend 3 ''hi''] sample_server)"
proof -
  have parsed: "sample_parse (cstr ''hi'') = JObj [(''senderId'', JStr ''*:*''), (''data'', JStr ''hi'')]"
    "lookup_member [(''senderId'', JStr ''*:*''), (''data'', JStr ''hi'')] ''senderId'' = JStr ''*:*''"
    "lookup_member [(''senderId'', JStr ''*:*''), (''data'', JStr ''hi'')] ''data'' = JStr ''hi''"
    by (simp_all add: sample_parse_def cstr_def)
  have w: "map_find (wn_sessions (wv_net sample_server)) 1 = Some \<lparr>wss_closing = False, wss_handlers = [ReceiverHandler 0]\<rparr>"
    "\<not> wss_closing \<lparr>wss_closing = False, wss_handlers = [ReceiverHandler 0]\<rparr>"
    "wss_handlers \<lparr>wss_closing = False, wss_handlers = [ReceiverHandler 0]\<rparr> = [ReceiverHandler 0]"
    and c: "map_find (wv_rcs sample_server) 0 =
      Some \<lparr>rcc_session = 1, rcc_channelId = ''tv'', rcc_senders = [(''a'', 1), (''b'', 2)]\<rparr>"
    by (simp_all add: sample_server_eq)
  have "map (\<lambda>e. WsSend (sdc_session (the (map_find (wv_scs sample_server) (snd e)))) (cstr ''hi''))
      (filter (\<lambda>e. cstr ''*:*'' = ''*:*'' \<or> fst e = cstr ''*:*'')
        (rcc_senders \<lparr>rcc_session = 1, rcc_channelId = ''tv'', rcc_senders = [(''a'', 1), (''b'', 2)]\<rparr>)) =
    [WsSend 2 ''hi'', WsSend 3 ''hi'']"
    by (simp add: sample_server_eq cstr_def)
  with receiver_message_routed [OF sample_server_run w c parsed] show ?thesis by (simp only:)
qed

theorem sender_message_routed_witness:
  "channel_step sample_parse (\<lambda>_. ''text'') sample_server (WsMessage 2 ''hi'') =
     Inr (emit [WsSend 1 ''text''] sample_server)"
proof -
  have w: "map_find (wn_sessions (wv_net sample_server)) 2 = Some \<lparr>wss_closing = False, wss_handlers = [SenderHandler 1]\<rparr>"
    "\<not> wss_closing \<lparr>wss_closing = False, wss_handlers = [SenderHandler 1]\<rparr>"
    "wss_handlers \<lparr>wss_closing = False, wss_handlers = [SenderHandler 1]\<rparr> = [SenderHandler 1]"
    and d: "map_find (wv_scs sample_server) 1 = Some \<lparr>sdc_session = 2, sdc_senderId = ''a'', sdc_receiver = Some 0\<rparr>"
    by (simp_all add: sample_server_eq)
  obtain p c where "Some 0 = Some p" "map_find (wv_rcs sample_server) p = Some c"
    and m: "channel_step sample_parse (\<lambda>_. ''text'') sample_server (WsMessage 2 ''hi'') =
      Inr (emit [WsSend (rcc_session c) (message_text (\<lambda>_. ''text'') ''a'' ''hi'')] sample_server)"
    using sender_message_routed [OF sample_server_run w d, of "''hi''"] by (auto simp del: channel_step.simps)
  then have "rcc_session c = 1" by (auto simp: sample_server_eq)
  with m show ?thesis by (simp only: message_text_def)
qed

end
