(* ===== verification/Http.thy ===== *)
theory Http
  imports Messaging
begin

text \<open>
  HTTP requests and the responses the handlers build (flint/src/handler/HttpHandler.cpp and
  \<open>WsServer::response\<close>), and the string functions of Boost.StringAlgo on request paths. The connection
  itself is websocketpp: a request is its method, its resource, its body and its headers (looked up
  by name, the empty string for a header that is absent), a response is what the handler sets.
\<close>

record http_request =
  hq_method :: string
  hq_resource :: string
  hq_body :: string
  hq_host :: string
  hq_header :: "string \<Rightarrow> string"

record http_response =
  hr_status :: "nat option"
  hr_headers :: "(string, string) std_map"
  hr_body :: string

definition no_response :: http_response where
  "no_response = \<lparr>hr_status = None, hr_headers = [], hr_body = []\<rparr>"

definition HTTP_OK :: nat where "HTTP_OK = 200"
definition HTTP_CREATED :: nat where "HTTP_CREATED = 201"
definition HTTP_BAD_REQUEST :: nat where "HTTP_BAD_REQUEST = 400"
definition HTTP_NOT_FOUND :: nat where "HTTP_NOT_FOUND = 404"
definition HTTP_INTERNAL_ERROR :: nat where "HTTP_INTERNAL_ERROR = 500"

lemmas http_codes = HTTP_OK_def HTTP_CREATED_def HTTP_BAD_REQUEST_def HTTP_NOT_FOUND_def HTTP_INTERNAL_ERROR_def

definition replace_header :: "string \<Rightarrow> string \<Rightarrow> (string, string) std_map \<Rightarrow> (string, string) std_map" where
  "replace_header k v m = (if map_find m k = None then map_insert k v m else map_set k v m)"

definition allow_headers :: "(string, string) std_map \<Rightarrow> (string, string) std_map" where
  "allow_headers m =
     replace_header ''Access-Control-Allow-Headers'' ''Content-Type, Authorization, Accept*, X-Requested-With''
     (replace_header ''Access-Control-Allow-Origin'' ''*''
     (replace_header ''Access-Control-Allow-Methods'' ''GET, POST, DELETE, OPTIONS'' m))"

definition response_status :: "nat \<Rightarrow> http_response \<Rightarrow> http_response" where
  "response_status code r = r\<lparr>hr_status := Some code, hr_headers := allow_headers (hr_headers r)\<rparr>"

definition response_body :: "nat \<Rightarrow> (string, string) std_map \<Rightarrow> string \<Rightarrow> http_response \<Rightarrow> http_response" where
  "response_body code headers body r =
     r\<lparr>hr_status := Some code,
       hr_headers := foldl (\<lambda>m e. replace_header (fst e) (snd e) m) (allow_headers (hr_headers r)) headers,
       hr_body := body\<rparr>"

lemma response_fields [simp]:
  "hr_status (response_status code r) = Some code" "hr_body (response_status code r) = hr_body r"
  "hr_status (response_body code h b r) = Some code" "hr_body (response_body code h b r) = b"
  by (simp_all add: response_status_def response_body_def)

section \<open>Paths\<close>

text \<open>\<open>boost::ierase_all\<close>: every occurrence, from left to right, without regard to case.\<close>

function ierase_all :: "string \<Rightarrow> string \<Rightarrow> string" where
  "ierase_all pat [] = []"
| "ierase_all pat (c # cs) =
     (if pat \<noteq> [] \<and> istarts_with (c # cs) pat then ierase_all pat (drop (length pat - 1) cs)
      else c # ierase_all pat cs)"
  by pat_completeness auto
termination by (relation "measure (\<lambda>(_, s). length s)") (auto simp: less_Suc_eq_le)

lemma istarts_with_head: "istarts_with (c # cs) (p # ps) \<Longrightarrow> toupper c = toupper p"
  by (auto simp: istarts_with_def)

lemma ierase_all_step:
  "toupper c \<noteq> toupper p \<Longrightarrow> ierase_all (p # ps) (c # cs) = c # ierase_all (p # ps) cs"
  using istarts_with_head by fastforce

lemma ierase_all_absent: "\<forall>c \<in> set s. toupper c \<noteq> toupper p \<Longrightarrow> ierase_all (p # ps) (s @ t) = s @ ierase_all (p # ps) t"
  by (induction s) (simp_all add: ierase_all_step del: ierase_all.simps(2))

lemma ierase_all_prefix:
  "pat \<noteq> [] \<Longrightarrow> map toupper a = map toupper pat \<Longrightarrow> ierase_all pat (a @ s) = ierase_all pat s"
proof -
  assume p: "pat \<noteq> []" "map toupper a = map toupper pat"
  then have len: "length a = length pat" by (metis length_map)
  then obtain c cs where a: "a = c # cs" using p(1) by (cases a) auto
  have "istarts_with (a @ s) pat" using p len by (simp add: istarts_with_def)
  moreover have "drop (length pat - 1) (cs @ s) = s" using len a by (simp add: drop_append)
  ultimately show ?thesis using p(1) a by simp
qed

text \<open>A path element: not empty, and free of slashes.\<close>

definition path_word :: "string \<Rightarrow> bool" where
  "path_word s \<longleftrightarrow> s \<noteq> [] \<and> CHR ''/'' \<notin> set s"

lemma toupper_slash: "toupper c = CHR ''/'' \<longleftrightarrow> c = CHR ''/''"
proof
  assume e: "toupper c = CHR ''/''"
  show "c = CHR ''/''"
  proof (cases "97 \<le> (of_char c :: nat) \<and> (of_char c :: nat) \<le> 122")
    case True
    then have "(of_char c :: nat) - 32 < 256" by arith
    with True have "(of_char (toupper c) :: nat) = of_char c - 32" by (simp add: toupper_def)
    moreover have "(of_char (toupper c) :: nat) = 47" using e by simp
    moreover have "65 \<le> (of_char c :: nat) - 32" using True by arith
    ultimately show ?thesis by simp
  next
    case False
    with e show ?thesis by (simp add: toupper_def split: if_splits)
  qed
qed (simp add: toupper_def)

lemma toupper_slash_slash: "toupper (CHR ''/'') = CHR ''/''"
  by (simp add: toupper_def)

lemma ierase_path_word:
  "CHR ''/'' \<notin> set w \<Longrightarrow> ierase_all (CHR ''/'' # ps) (w @ t) = w @ ierase_all (CHR ''/'' # ps) t"
  by (rule ierase_all_absent) (auto simp: toupper_slash toupper_slash_slash)

end
