(* ===== verification/Application.thy ===== *)
theory Application
  imports StdMap
begin

text \<open>
  \<open>Application\<close> and \<open>ApplicationManager\<close> (flint/src/flint/application): at most one receiver
  application runs at a time; a launch request while another application is alive is kept pending
  and that application is stopped first.

  The two classes call each other through the signals \<open>AppStarted\<close>, \<open>AppStopped\<close> and
  \<open>DoAppStop\<close>, so their methods are one group of mutually recursive functions over one state: the
  heap of application objects, by address, and the fields of the manager. \<open>onStoped\<close> is
  \<open>delete this\<close>: the object leaves the heap, and a later use of its address is \<open>UseAfterFree\<close>.
  The recursion ends because every round through \<open>onAppStopped\<close> deletes an object.

  \<open>plat\<close> says which applications the platform can launch. A timer is the flag that it is armed.
\<close>

section \<open>State\<close>

record app =
  ap_useIpc :: bool
  ap_appId :: string
  ap_appUrl :: string
  ap_maxInactive :: int
  ap_appInfoRaw :: string
  ap_appState :: string
  ap_additionalData :: string
  ap_wsConnected :: bool
  ap_startTimer :: bool
  ap_stopTimer :: bool
  ap_maxInactiveTimer :: bool
  ap_connected :: bool

datatype platform_call = PlatLaunch string | PlatStop string

record app_manager =
  am_heap :: "(nat, app) std_map"
  am_next :: nat
  am_top :: "nat option"
  am_starting :: "nat option"
  am_stopping :: "nat option"
  am_pending :: "nat list"
  am_calls :: "platform_call list"

definition new_Application :: "string \<Rightarrow> string \<Rightarrow> bool \<Rightarrow> int \<Rightarrow> string \<Rightarrow> app" where
  "new_Application appId appUrl useIpc maxInactive appInfoRaw =
     \<lparr>ap_useIpc = useIpc, ap_appId = appId, ap_appUrl = appUrl, ap_maxInactive = maxInactive,
      ap_appInfoRaw = appInfoRaw, ap_appState = ''stopped'', ap_additionalData = [],
      ap_wsConnected = False, ap_startTimer = False, ap_stopTimer = False,
      ap_maxInactiveTimer = False, ap_connected = False\<rparr>"

definition init_manager :: app_manager where
  "init_manager = \<lparr>am_heap = [], am_next = 0, am_top = None, am_starting = None, am_stopping = None,
     am_pending = [], am_calls = []\<rparr>"

definition get_app :: "app_manager \<Rightarrow> nat \<Rightarrow> fault + app" where
  "get_app s p = (case map_find (am_heap s) p of None \<Rightarrow> Inl UseAfterFree | Some a \<Rightarrow> Inr a)"

definition upd_app :: "(app \<Rightarrow> app) \<Rightarrow> nat \<Rightarrow> app_manager \<Rightarrow> fault + app_manager" where
  "upd_app f p s = bindE (get_app s p) (\<lambda>a. Inr (s\<lparr>am_heap := map_set p (f a) (am_heap s)\<rparr>))"

definition setAppState :: "nat \<Rightarrow> string \<Rightarrow> app_manager \<Rightarrow> fault + app_manager" where
  "setAppState p st = upd_app (\<lambda>a. a\<lparr>ap_appState := st\<rparr>) p"

definition delete_app :: "nat \<Rightarrow> app_manager \<Rightarrow> fault + app_manager" where
  "delete_app p s = bindE (get_app s p) (\<lambda>a. Inr (s\<lparr>am_heap := map_erase p (am_heap s)\<rparr>))"

section \<open>Operations\<close>

definition onStarted :: "nat \<Rightarrow> app_manager \<Rightarrow> fault + app_manager" where
  "onStarted p s = setAppState p ''running'' s"

definition onStoped :: "nat \<Rightarrow> app_manager \<Rightarrow> fault + app_manager" where
  "onStoped p s = bindE (setAppState p ''stopped'' s) (delete_app p)"

lemma heap_size_upd [simp]: "upd_app f p s = Inr s' \<Longrightarrow> length (am_heap s') = length (am_heap s)"
  by (auto simp: upd_app_def)

lemma heap_size_set [simp]: "setAppState p st s = Inr s' \<Longrightarrow> length (am_heap s') = length (am_heap s)"
  by (simp add: setAppState_def)

lemma length_map_erase_present:
  "map_find m k = Some v \<Longrightarrow> length (map_erase k m) < length m"
  by (induction k m rule: map_erase.induct) (auto split: if_splits)

lemma heap_size_stoped: "onStoped p s = Inr s' \<Longrightarrow> length (am_heap s') < length (am_heap s)"
  by (auto simp: onStoped_def delete_app_def get_app_def split: option.splits
      dest!: length_map_erase_present)

function launchApplication :: "(string \<Rightarrow> bool) \<Rightarrow> nat \<Rightarrow> app_manager \<Rightarrow> fault + app_manager"
  and doLaunchApplication :: "(string \<Rightarrow> bool) \<Rightarrow> nat \<Rightarrow> app_manager \<Rightarrow> fault + app_manager"
  and onStarting :: "(string \<Rightarrow> bool) \<Rightarrow> nat \<Rightarrow> app_manager \<Rightarrow> fault + app_manager"
  and started :: "(string \<Rightarrow> bool) \<Rightarrow> nat \<Rightarrow> app_manager \<Rightarrow> fault + app_manager"
  and onAppStarted :: "(string \<Rightarrow> bool) \<Rightarrow> nat \<Rightarrow> app_manager \<Rightarrow> fault + app_manager"
  and stopApplication :: "(string \<Rightarrow> bool) \<Rightarrow> app_manager \<Rightarrow> fault + app_manager"
  and doStopApplication :: "(string \<Rightarrow> bool) \<Rightarrow> nat \<Rightarrow> app_manager \<Rightarrow> fault + app_manager"
  and onStopping :: "(string \<Rightarrow> bool) \<Rightarrow> nat \<Rightarrow> app_manager \<Rightarrow> fault + app_manager"
  and stopped :: "(string \<Rightarrow> bool) \<Rightarrow> nat \<Rightarrow> app_manager \<Rightarrow> fault + app_manager"
  and onAppStopped :: "(string \<Rightarrow> bool) \<Rightarrow> nat \<Rightarrow> app_manager \<Rightarrow> fault + app_manager"
where
  "launchApplication plat p s0 =
     bindE (setAppState p ''starting'' s0) (\<lambda>s.
     bindE (get_app s p) (\<lambda>a.
     let pend = s\<lparr>am_pending := am_pending s @ [p]\<rparr>
     in case am_starting s of
          Some q \<Rightarrow> bindE (get_app s q) (\<lambda>b. if ap_appId b \<noteq> ap_appId a then Inr pend else Inr s)
        | None \<Rightarrow>
            (case am_top s of
               Some q \<Rightarrow> bindE (get_app s q) (\<lambda>b.
                 if ap_appId b \<noteq> ap_appId a then stopApplication plat pend else Inr s)
             | None \<Rightarrow>
                 (case am_stopping s of
                    Some q \<Rightarrow> bindE (get_app s q) (\<lambda>_. Inr pend)
                  | None \<Rightarrow> doLaunchApplication plat p s))))"
| "doLaunchApplication plat p s0 =
     bindE (upd_app (\<lambda>a. a\<lparr>ap_connected := True\<rparr>) p (s0\<lparr>am_starting := Some p\<rparr>)) (\<lambda>s.
     bindE (get_app s p) (\<lambda>a.
     let s1 = s\<lparr>am_calls := am_calls s @ [PlatLaunch (ap_appInfoRaw a)]\<rparr>
     in if plat (ap_appInfoRaw a) then onStarting plat p s1 else stopped plat p s1))"
| "onStarting plat p s0 =
     bindE (setAppState p ''starting'' s0) (\<lambda>s.
     bindE (get_app s p) (\<lambda>a.
     if ap_useIpc a then upd_app (\<lambda>a. a\<lparr>ap_startTimer := True\<rparr>) p s
     else bindE (started plat p s) (\<lambda>s.
          bindE (get_app s p) (\<lambda>a.
          if 0 < ap_maxInactive a then upd_app (\<lambda>a. a\<lparr>ap_maxInactiveTimer := True\<rparr>) p s else Inr s))))"
| "started plat p s0 =
     bindE (upd_app (\<lambda>a. a\<lparr>ap_startTimer := False, ap_wsConnected := (ap_useIpc a \<or> ap_wsConnected a)\<rparr>) p s0) (\<lambda>s.
     bindE (get_app s p) (\<lambda>a.
     if ap_connected a then onAppStarted plat p s else Inr s))"
| "onAppStarted plat p s0 =
     bindE (onStarted p s0) (\<lambda>s.
     let s1 = s\<lparr>am_top := Some p, am_starting := None\<rparr>
     in if am_pending s1 \<noteq> [] then bindE (get_app s1 p) (\<lambda>_. stopApplication plat s1) else Inr s1)"
| "stopApplication plat s =
     (if am_stopping s \<noteq> None then Inr s
      else (case am_top s of
              Some q \<Rightarrow> bindE (doStopApplication plat q s) (\<lambda>s. Inr (s\<lparr>am_top := None\<rparr>))
            | None \<Rightarrow>
                (case am_starting s of
                   Some q \<Rightarrow> bindE (doStopApplication plat q s) (\<lambda>s. Inr (s\<lparr>am_starting := None\<rparr>))
                 | None \<Rightarrow> Inr s)))"
| "doStopApplication plat p s =
     bindE (get_app s p) (\<lambda>a.
     onStopping plat p (s\<lparr>am_stopping := Some p, am_calls := am_calls s @ [PlatStop (ap_appInfoRaw a)]\<rparr>))"
| "onStopping plat p s0 =
     bindE (setAppState p ''stopping'' s0) (\<lambda>s.
     bindE (get_app s p) (\<lambda>a.
     if ap_useIpc a then
       (if ap_wsConnected a then upd_app (\<lambda>a. a\<lparr>ap_stopTimer := True\<rparr>) p s else stopped plat p s)
     else stopped plat p s))"
| "stopped plat p s0 =
     bindE (upd_app (\<lambda>a. a\<lparr>ap_stopTimer := False\<rparr>) p s0) (\<lambda>s.
     bindE (get_app s p) (\<lambda>a.
     if ap_connected a then onAppStopped plat p s else Inr s))"
| "onAppStopped plat p s0 =
     bindE (onStoped p s0) (\<lambda>s.
     let s1 = s\<lparr>am_stopping := None\<rparr>
     in case am_pending s1 of
          [] \<Rightarrow> Inr s1
        | q # qs \<Rightarrow> launchApplication plat q (s1\<lparr>am_pending := qs\<rparr>))"
  by pat_completeness auto
termination
  by (relation "inv_image (less_than <*lex*> less_than)
   (case_sum (case_sum (case_sum (\<lambda>(_, _, s). (length (am_heap s), 9 :: nat))
      (\<lambda>(_, _, s). (length (am_heap s), 8 :: nat)))
      (case_sum (\<lambda>(_, _, s). (length (am_heap s), 7 :: nat))
      (case_sum (\<lambda>(_, _, s). (length (am_heap s), 6 :: nat))
      (\<lambda>(_, _, s). (length (am_heap s), 5 :: nat)))))
    (case_sum (case_sum (\<lambda>(_, s). (length (am_heap s), 4))
      (\<lambda>(_, _, s). (length (am_heap s), 3 :: nat)))
      (case_sum (\<lambda>(_, _, s). (length (am_heap s), 2 :: nat))
      (case_sum (\<lambda>(_, _, s). (length (am_heap s), 1 :: nat))
      (\<lambda>(_, _, s). (length (am_heap s), 0 :: nat))))))")
    (auto simp: onStarted_def dest: heap_size_upd heap_size_set heap_size_stoped)

declare launchApplication.simps [simp del] doLaunchApplication.simps [simp del]
  onStarting.simps [simp del] started.simps [simp del] onAppStarted.simps [simp del]
  stopApplication.simps [simp del] doStopApplication.simps [simp del] onStopping.simps [simp del]
  stopped.simps [simp del] onAppStopped.simps [simp del]

definition stopApplicationByAppId :: "(string \<Rightarrow> bool) \<Rightarrow> string \<Rightarrow> app_manager \<Rightarrow> fault + app_manager" where
  "stopApplicationByAppId plat appId s = stopApplication plat s"

definition onDoAppStop :: "(string \<Rightarrow> bool) \<Rightarrow> nat \<Rightarrow> app_manager \<Rightarrow> fault + app_manager" where
  "onDoAppStop plat p s =
     bindE (get_app s p) (\<lambda>a. stopApplicationByAppId plat (ap_appId a) s)"

definition getStoppingApplication :: "app_manager \<Rightarrow> nat option" where
  "getStoppingApplication s = am_stopping s"

definition getStartingApplication :: "app_manager \<Rightarrow> nat option" where
  "getStartingApplication s = am_starting s"

definition getAliveApplication :: "app_manager \<Rightarrow> nat option" where
  "getAliveApplication s =
     (if am_top s \<noteq> None then am_top s
      else if am_starting s \<noteq> None then am_starting s
      else if am_pending s \<noteq> [] then Some (hd (am_pending s))
      else None)"

text \<open>The timer handlers, for an expiry (\<open>error\<close> not set); a cancelled wait does nothing.\<close>

definition onStopTimeout :: "(string \<Rightarrow> bool) \<Rightarrow> nat \<Rightarrow> app_manager \<Rightarrow> fault + app_manager" where
  "onStopTimeout plat p s = stopped plat p s"

definition onStartTimeout :: "(string \<Rightarrow> bool) \<Rightarrow> nat \<Rightarrow> app_manager \<Rightarrow> fault + app_manager" where
  "onStartTimeout plat p s =
     bindE (get_app s p) (\<lambda>a. if ap_connected a then onDoAppStop plat p s else Inr s)"

definition onMaxInactiveTimeout :: "(string \<Rightarrow> bool) \<Rightarrow> nat \<Rightarrow> app_manager \<Rightarrow> fault + app_manager" where
  "onMaxInactiveTimeout plat p s =
     bindE (upd_app (\<lambda>a. a\<lparr>ap_maxInactiveTimer := False\<rparr>) p s) (\<lambda>s.
     bindE (get_app s p) (\<lambda>a. if ap_connected a then onDoAppStop plat p s else Inr s))"

section \<open>Events\<close>

text \<open>
  What reaches the manager: a launch request (the handlers allocate a new object for each), the
  registration of the receiver, a stop request, the receiver's connection closing while its
  application is being stopped, and the timers. A timer that is not armed does not fire.
\<close>

datatype am_event =
    EvLaunch string string bool int string
  | EvRegister
  | EvStop string
  | EvClosed
  | EvStartTimeout nat
  | EvStopTimeout nat
  | EvInactive nat

definition fire ::
  "(app \<Rightarrow> bool) \<Rightarrow> (app \<Rightarrow> app) \<Rightarrow> nat \<Rightarrow> (app_manager \<Rightarrow> fault + app_manager) \<Rightarrow> app_manager
    \<Rightarrow> fault + app_manager" where
  "fire armed disarm p handler s =
     (case map_find (am_heap s) p of
        None \<Rightarrow> Inr s
      | Some a \<Rightarrow> if armed a then handler (s\<lparr>am_heap := map_set p (disarm a) (am_heap s)\<rparr>) else Inr s)"

fun am_step :: "(string \<Rightarrow> bool) \<Rightarrow> app_manager \<Rightarrow> am_event \<Rightarrow> fault + app_manager" where
  "am_step plat s (EvLaunch appId url useIpc maxInactive info) =
     launchApplication plat (am_next s)
       (s\<lparr>am_heap := map_insert (am_next s) (new_Application appId url useIpc maxInactive info) (am_heap s),
          am_next := am_next s + 1\<rparr>)"
| "am_step plat s EvRegister =
     (case getAliveApplication s of None \<Rightarrow> Inr s | Some p \<Rightarrow> started plat p s)"
| "am_step plat s (EvStop appId) = stopApplicationByAppId plat appId s"
| "am_step plat s EvClosed =
     (case getStoppingApplication s of None \<Rightarrow> Inr s | Some p \<Rightarrow> stopped plat p s)"
| "am_step plat s (EvStartTimeout p) =
     fire ap_startTimer (\<lambda>a. a\<lparr>ap_startTimer := False\<rparr>) p (onStartTimeout plat p) s"
| "am_step plat s (EvStopTimeout p) =
     fire ap_stopTimer (\<lambda>a. a\<lparr>ap_stopTimer := False\<rparr>) p (onStopTimeout plat p) s"
| "am_step plat s (EvInactive p) =
     fire ap_maxInactiveTimer (\<lambda>a. a\<lparr>ap_maxInactiveTimer := False\<rparr>) p (onMaxInactiveTimeout plat p) s"

section \<open>The specification\<close>

text \<open>One application at a time, and the queue of the ids that wait for it to go.\<close>

datatype phase = Idle | Starting string | Running string | Stopping string

fun phase_step :: "phase \<times> string list \<Rightarrow> am_event \<Rightarrow> phase \<times> string list" where
  "phase_step (Idle, q) (EvLaunch x _ _ _ _) = (Starting x, q)"
| "phase_step (Starting y, q) (EvLaunch x _ _ _ _) = (Starting y, if x = y then q else q @ [x])"
| "phase_step (Running y, q) (EvLaunch x _ _ _ _) = (if x = y then (Running y, q) else (Stopping y, q @ [x]))"
| "phase_step (Stopping y, q) (EvLaunch x _ _ _ _) = (Stopping y, q @ [x])"
| "phase_step (Starting y, q) EvRegister = (if q = [] then Running y else Stopping y, q)"
| "phase_step (Running y, q) (EvStop _) = (Stopping y, q)"
| "phase_step (Starting y, q) (EvStop _) = (Idle, q)"
| "phase_step (Stopping y, q) EvClosed = (case q of [] \<Rightarrow> (Idle, []) | x # q' \<Rightarrow> (Starting x, q'))"
| "phase_step (Starting y, q) (EvStartTimeout _) = (Idle, q)"
| "phase_step (Stopping y, q) (EvStopTimeout _) = (case q of [] \<Rightarrow> (Idle, []) | x # q' \<Rightarrow> (Starting x, q'))"
| "phase_step st _ = st"

definition appId_of :: "app_manager \<Rightarrow> nat \<Rightarrow> string" where
  "appId_of s p = (case map_find (am_heap s) p of None \<Rightarrow> [] | Some a \<Rightarrow> ap_appId a)"

definition am_abs :: "app_manager \<Rightarrow> phase \<times> string list" where
  "am_abs s =
     ((case am_top s of
         Some p \<Rightarrow> Running (appId_of s p)
       | None \<Rightarrow>
           (case am_starting s of
              Some p \<Rightarrow> Starting (appId_of s p)
            | None \<Rightarrow> (case am_stopping s of Some p \<Rightarrow> Stopping (appId_of s p) | None \<Rightarrow> Idle))),
      map (appId_of s) (am_pending s))"

text \<open>The application the manager is concerned with, and what is known of it.\<close>

definition current_ok :: "app_manager \<Rightarrow> bool" where
  "current_ok s \<longleftrightarrow>
     (case (am_top s, am_starting s, am_stopping s) of
        (None, None, None) \<Rightarrow> am_pending s = []
      | (Some p, None, None) \<Rightarrow> am_pending s = [] \<and>
          (\<exists>a. map_find (am_heap s) p = Some a \<and> ap_connected a \<and> ap_wsConnected a)
      | (None, Some p, None) \<Rightarrow> p \<notin> set (am_pending s) \<and>
          (\<exists>a. map_find (am_heap s) p = Some a \<and> ap_connected a \<and> \<not> ap_wsConnected a)
      | (None, None, Some p) \<Rightarrow> p \<notin> set (am_pending s) \<and>
          (\<exists>a. map_find (am_heap s) p = Some a \<and> ap_connected a \<and> ap_wsConnected a)
      | _ \<Rightarrow> False)"

definition am_inv :: "app_manager \<Rightarrow> bool" where
  "am_inv s \<longleftrightarrow>
     map_wf (am_heap s) \<and> (\<forall>p a. map_find (am_heap s) p = Some a \<longrightarrow> p < am_next s \<and> ap_useIpc a
        \<and> (ap_startTimer a \<longrightarrow> am_starting s = Some p) \<and> (ap_stopTimer a \<longrightarrow> am_stopping s = Some p)
        \<and> \<not> ap_maxInactiveTimer a)
   \<and> distinct (am_pending s)
   \<and> (\<forall>p \<in> set (am_pending s). \<exists>a. map_find (am_heap s) p = Some a \<and> \<not> ap_wsConnected a \<and> \<not> ap_connected a)
   \<and> current_ok s"

text \<open>
  The events the implementation is up to: an application that uses IPC, a registration of the
  application that is starting or running, a timer that is armed, and no stop of a starting
  application while another one waits.
\<close>

definition calm :: "app_manager \<Rightarrow> am_event \<Rightarrow> bool" where
  "calm s e \<longleftrightarrow>
     (case e of
        EvLaunch _ _ useIpc _ _ \<Rightarrow> useIpc
      | EvRegister \<Rightarrow> am_stopping s = None
      | EvStop _ \<Rightarrow> am_starting s = None \<or> am_pending s = []
      | EvStartTimeout p \<Rightarrow> am_pending s = [] \<and> (case map_find (am_heap s) p of None \<Rightarrow> False | Some a \<Rightarrow> ap_startTimer a)
      | EvStopTimeout p \<Rightarrow> (case map_find (am_heap s) p of None \<Rightarrow> False | Some a \<Rightarrow> ap_stopTimer a)
      | _ \<Rightarrow> True)"

text \<open>
  The calls of the platform: a launch when no application is open, and a stop of the application that
  is. \<open>calls_ok\<close> says that the calls made so far are of this kind, of applications the platform can
  launch, and leave open the application that is starting or running.
\<close>

fun call_info :: "platform_call \<Rightarrow> string" where
  "call_info (PlatLaunch i) = i"
| "call_info (PlatStop i) = i"

fun call_step :: "string option option \<Rightarrow> platform_call \<Rightarrow> string option option" where
  "call_step (Some None) (PlatLaunch i) = Some (Some i)"
| "call_step (Some (Some i)) (PlatStop j) = (if i = j then Some None else None)"
| "call_step _ _ = None"

definition open_app :: "app_manager \<Rightarrow> string option" where
  "open_app s =
     (case am_top s of
        Some p \<Rightarrow> map_option ap_appInfoRaw (map_find (am_heap s) p)
      | None \<Rightarrow> (case am_starting s of Some p \<Rightarrow> map_option ap_appInfoRaw (map_find (am_heap s) p) | None \<Rightarrow> None))"

definition calls_ok :: "(string \<Rightarrow> bool) \<Rightarrow> app_manager \<Rightarrow> bool" where
  "calls_ok plat s \<longleftrightarrow> foldl call_step (Some None) (am_calls s) = Some (open_app s) \<and> (\<forall>c \<in> set (am_calls s). plat (call_info c))"

definition infos_ok :: "(string \<Rightarrow> bool) \<Rightarrow> app_manager \<Rightarrow> bool" where
  "infos_ok plat s \<longleftrightarrow> (\<forall>p a. map_find (am_heap s) p = Some a \<longrightarrow> plat (ap_appInfoRaw a))"

fun launchable :: "(string \<Rightarrow> bool) \<Rightarrow> am_event \<Rightarrow> bool" where
  "launchable plat (EvLaunch _ _ _ _ info) \<longleftrightarrow> plat info"
| "launchable plat _ \<longleftrightarrow> True"

section \<open>What the methods compute\<close>

lemma map_set_set [simp]: "map_set k v (map_set k w m) = map_set k v m"
  by (induction k w m rule: map_set.induct) auto

lemma map_set_same: "map_find m k = Some v \<Longrightarrow> map_set k v m = m"
  by (induction m) (auto split: if_splits)

lemma map_erase_set [simp]: "map_erase k (map_set k v m) = map_erase k m"
  by (induction k v m rule: map_set.induct) auto

lemma get_app_Some [simp]: "map_find (am_heap s) p = Some a \<Longrightarrow> get_app s p = Inr a"
  by (simp add: get_app_def)

lemma upd_app_Some [simp]:
  "map_find (am_heap s) p = Some a \<Longrightarrow> upd_app f p s = Inr (s\<lparr>am_heap := map_set p (f a) (am_heap s)\<rparr>)"
  by (simp add: upd_app_def)

lemma doLaunch_ipc:
  assumes "map_find (am_heap s) p = Some a" and "ap_useIpc a" and "plat (ap_appInfoRaw a)"
  shows "doLaunchApplication plat p s =
    Inr (s\<lparr>am_starting := Some p, am_calls := am_calls s @ [PlatLaunch (ap_appInfoRaw a)],
      am_heap := map_set p (a\<lparr>ap_connected := True, ap_appState := ''starting'', ap_startTimer := True\<rparr>)
        (am_heap s)\<rparr>)"
  using assms by (simp add: doLaunchApplication.simps onStarting.simps setAppState_def map_find_set)

lemma doStop_connected:
  assumes "map_find (am_heap s) p = Some a" and "ap_useIpc a" and "ap_wsConnected a"
  shows "doStopApplication plat p s =
    Inr (s\<lparr>am_stopping := Some p, am_calls := am_calls s @ [PlatStop (ap_appInfoRaw a)],
      am_heap := map_set p (a\<lparr>ap_appState := ''stopping'', ap_stopTimer := True\<rparr>) (am_heap s)\<rparr>)"
  using assms by (simp add: doStopApplication.simps onStopping.simps setAppState_def map_find_set)

lemma stopped_connected:
  assumes "map_find (am_heap s) p = Some a" and "ap_connected a"
  shows "stopped plat p s =
    (let s1 = s\<lparr>am_heap := map_erase p (am_heap s), am_stopping := None\<rparr>
     in case am_pending s of [] \<Rightarrow> Inr s1 | q # qs \<Rightarrow> launchApplication plat q (s1\<lparr>am_pending := qs\<rparr>))"
  using assms
  by (simp add: stopped.simps onAppStopped.simps onStoped_def delete_app_def setAppState_def
      map_find_set Let_def)

lemma launch_idle:
  assumes "am_top s = None" and "am_starting s = None" and "am_stopping s = None"
    and "map_find (am_heap s) p = Some a" and "ap_useIpc a" and "plat (ap_appInfoRaw a)"
  shows "launchApplication plat p s =
    Inr (s\<lparr>am_starting := Some p, am_calls := am_calls s @ [PlatLaunch (ap_appInfoRaw a)],
      am_heap := map_set p (a\<lparr>ap_connected := True, ap_appState := ''starting'', ap_startTimer := True\<rparr>)
        (am_heap s)\<rparr>)"
  using assms by (simp add: launchApplication.simps setAppState_def map_find_set doLaunch_ipc)

section \<open>The implementation follows the specification\<close>

lemma am_inv_cases:
  assumes "am_inv s"
  obtains (idle) "am_top s = None" "am_starting s = None" "am_stopping s = None" "am_pending s = []"
    | (running) p a where "am_top s = Some p" "am_starting s = None" "am_stopping s = None" "am_pending s = []"
        "map_find (am_heap s) p = Some a" "ap_connected a" "ap_wsConnected a" "ap_useIpc a"
    | (starting) p a where "am_top s = None" "am_starting s = Some p" "am_stopping s = None"
        "map_find (am_heap s) p = Some a" "ap_connected a" "\<not> ap_wsConnected a" "ap_useIpc a" "p \<notin> set (am_pending s)"
    | (stopping) p a where "am_top s = None" "am_starting s = None" "am_stopping s = Some p"
        "map_find (am_heap s) p = Some a" "ap_connected a" "ap_wsConnected a" "ap_useIpc a" "p \<notin> set (am_pending s)"
  using assms unfolding am_inv_def current_ok_def
  by (cases "am_top s"; cases "am_starting s"; cases "am_stopping s") auto

lemma am_inv_wf: "am_inv s \<Longrightarrow> map_wf (am_heap s)"
  by (simp add: am_inv_def)

lemma fresh_address:
  assumes "am_inv s"
  shows "map_find (am_heap s) (am_next s) = None"
  using assms by (cases "map_find (am_heap s) (am_next s)") (auto simp: am_inv_def)

text \<open>Allocating the object of a launch request: it is on the heap and nothing refers to it.\<close>

definition alloc_app :: "app \<Rightarrow> app_manager \<Rightarrow> app_manager" where
  "alloc_app a s = s\<lparr>am_heap := map_insert (am_next s) a (am_heap s), am_next := am_next s + 1\<rparr>"

lemma alloc_find:
  assumes "am_inv s"
  shows "map_find (am_heap (alloc_app a s)) p = (if p = am_next s then Some a else map_find (am_heap s) p)"
  using fresh_address [OF assms] am_inv_wf [OF assms] by (simp add: alloc_app_def map_find_insert)

lemma alloc_fields [simp]:
  "am_top (alloc_app a s) = am_top s" "am_starting (alloc_app a s) = am_starting s"
  "am_stopping (alloc_app a s) = am_stopping s" "am_pending (alloc_app a s) = am_pending s"
  "am_next (alloc_app a s) = am_next s + 1" "am_calls (alloc_app a s) = am_calls s"
  by (simp_all add: alloc_app_def)

lemma alloc_wf: "am_inv s \<Longrightarrow> map_wf (am_heap (alloc_app a s))"
  by (simp add: alloc_app_def am_inv_wf)

lemmas log_defs = infos_ok_def calls_ok_def open_app_def

lemma step_launch:
  assumes inv: "am_inv s" and plat: "infos_ok plat s" "plat info"
  shows "\<exists>s'. am_step plat s (EvLaunch x u True mi info) = Inr s' \<and> am_inv s'
    \<and> am_abs s' = phase_step (am_abs s) (EvLaunch x u True mi info)
    \<and> infos_ok plat s' \<and> (calls_ok plat s \<longrightarrow> calls_ok plat s')"
proof -
  let ?n = "am_next s" and ?a = "new_Application x u True mi info"
  let ?s = "alloc_app ?a s"
  note f = alloc_find [OF inv, of ?a] and wf = alloc_wf [OF inv, of ?a]
  have na: "ap_appInfoRaw ?a = info" "ap_useIpc ?a" "ap_appId ?a = x" "\<not> ap_connected ?a" "\<not> ap_wsConnected ?a"
    "\<not> ap_startTimer ?a" "\<not> ap_stopTimer ?a" "\<not> ap_maxInactiveTimer ?a"
    by (simp_all add: new_Application_def)
  have step: "am_step plat s (EvLaunch x u True mi info) = launchApplication plat ?n ?s"
    by (simp add: alloc_app_def)
  have old: "map_find (am_heap s) p = Some a \<Longrightarrow> p < am_next s" for p a
    using inv by (auto simp: am_inv_def)
  have pend: "p \<in> set (am_pending s) \<Longrightarrow> p < am_next s" for p
    using inv by (auto simp: am_inv_def)
  have new: "am_next s \<notin> set (am_pending s)" using pend by blast
  from inv show ?thesis
  proof (cases rule: am_inv_cases)
    case idle
    let ?a' = "?a\<lparr>ap_connected := True, ap_appState := ''starting'', ap_startTimer := True\<rparr>"
    have "launchApplication plat ?n ?s = Inr (?s\<lparr>am_starting := Some ?n,
        am_calls := am_calls ?s @ [PlatLaunch (ap_appInfoRaw ?a)], am_heap := map_set ?n ?a' (am_heap ?s)\<rparr>)"
      using idle f na plat by (intro launch_idle) simp_all
    then show ?thesis
      using idle inv f na wf old plat unfolding step
      by (auto simp: am_inv_def current_ok_def map_find_set am_abs_def appId_of_def log_defs less_Suc_eq)
  next
    case (running p a)
    then have p: "p \<noteq> ?n" using old by blast
    show ?thesis
    proof (cases "ap_appId a = x")
      case True
      have "launchApplication plat ?n ?s = Inr (?s\<lparr>am_heap := map_set ?n (?a\<lparr>ap_appState := ''starting''\<rparr>) (am_heap ?s)\<rparr>)"
        using running True f p na by (simp add: launchApplication.simps setAppState_def map_find_set)
      then show ?thesis
        using running inv f na wf old plat p True unfolding step
        by (auto simp: am_inv_def current_ok_def map_find_set am_abs_def appId_of_def log_defs less_Suc_eq)
    next
      case False
      let ?h = "map_set ?n (?a\<lparr>ap_appState := ''starting''\<rparr>) (am_heap ?s)"
      let ?s1 = "?s\<lparr>am_heap := ?h, am_pending := am_pending ?s @ [?n]\<rparr>"
      have p1: "map_find (am_heap ?s1) p = Some a" using running f p by (simp add: map_find_set)
      note d = doStop_connected [where plat = plat, OF p1 running(8, 7)]
      have "launchApplication plat ?n ?s = stopApplication plat ?s1"
        using running False f p na by (simp add: launchApplication.simps setAppState_def map_find_set)
      then show ?thesis
        using running inv f na wf old plat p False d unfolding step
        by (auto simp: stopApplication.simps am_inv_def current_ok_def map_find_set am_abs_def
            appId_of_def log_defs less_Suc_eq)
    qed
  next
    case (starting p a)
    then have p: "p \<noteq> ?n" using old by blast
    have "launchApplication plat ?n ?s =
        (let s1 = ?s\<lparr>am_heap := map_set ?n (?a\<lparr>ap_appState := ''starting''\<rparr>) (am_heap ?s)\<rparr>
         in Inr (if ap_appId a = x then s1 else s1\<lparr>am_pending := am_pending s1 @ [?n]\<rparr>))"
      using starting f p na by (simp add: launchApplication.simps setAppState_def map_find_set Let_def)
    then show ?thesis
      using starting inv f na wf old plat p pend new unfolding step
      by (auto simp: am_inv_def current_ok_def map_find_set am_abs_def appId_of_def log_defs less_Suc_eq Let_def)
  next
    case (stopping p a)
    then have p: "p \<noteq> ?n" using old by blast
    have "launchApplication plat ?n ?s =
        (let s1 = ?s\<lparr>am_heap := map_set ?n (?a\<lparr>ap_appState := ''starting''\<rparr>) (am_heap ?s)\<rparr>
         in Inr (s1\<lparr>am_pending := am_pending s1 @ [?n]\<rparr>))"
      using stopping f p na by (simp add: launchApplication.simps setAppState_def map_find_set Let_def)
    then show ?thesis
      using stopping inv f na wf old plat p pend new unfolding step
      by (auto simp: am_inv_def current_ok_def map_find_set am_abs_def appId_of_def log_defs less_Suc_eq Let_def)
  qed
qed

lemma step_register:
  assumes inv: "am_inv s" and c: "calm s EvRegister"
  shows "\<exists>s'. am_step plat s EvRegister = Inr s' \<and> am_inv s' \<and> am_abs s' = phase_step (am_abs s) EvRegister
    \<and> (infos_ok plat s \<longrightarrow> infos_ok plat s' \<and> (calls_ok plat s \<longrightarrow> calls_ok plat s'))"
  using inv
proof (cases rule: am_inv_cases)
  case idle
  then show ?thesis using inv by (simp add: getAliveApplication_def am_abs_def)
next
  case (running p a)
  let ?b = "a\<lparr>ap_startTimer := False, ap_wsConnected := True, ap_appState := ''running''\<rparr>"
  have "am_step plat s EvRegister = Inr (s\<lparr>am_heap := map_set p ?b (am_heap s), am_top := Some p, am_starting := None\<rparr>)"
    using running by (simp add: getAliveApplication_def started.simps onAppStarted.simps onStarted_def
        setAppState_def map_find_set Let_def)
  then show ?thesis
    using running inv by (auto simp: am_inv_def current_ok_def map_find_set am_abs_def appId_of_def log_defs)
next
  case (starting p a)
  let ?b = "a\<lparr>ap_startTimer := False, ap_wsConnected := True, ap_appState := ''running''\<rparr>"
  let ?s1 = "s\<lparr>am_heap := map_set p ?b (am_heap s), am_top := Some p, am_starting := None\<rparr>"
  have "am_step plat s EvRegister = (if am_pending s \<noteq> [] then stopApplication plat ?s1 else Inr ?s1)"
    using starting by (simp add: getAliveApplication_def started.simps onAppStarted.simps onStarted_def
        setAppState_def map_find_set Let_def)
  moreover have "doStopApplication plat p ?s1 =
      Inr (?s1\<lparr>am_stopping := Some p, am_calls := am_calls ?s1 @ [PlatStop (ap_appInfoRaw ?b)],
        am_heap := map_set p (?b\<lparr>ap_appState := ''stopping'', ap_stopTimer := True\<rparr>) (am_heap ?s1)\<rparr>)"
    using starting by (intro doStop_connected) (simp_all add: map_find_set)
  ultimately show ?thesis
    using starting inv
    by (auto simp: stopApplication.simps am_inv_def current_ok_def map_find_set am_abs_def appId_of_def log_defs)
next
  case (stopping p a)
  with c show ?thesis by (simp add: calm_def)
qed

lemma stop_starting:
  assumes inv: "am_inv s" and plat: "infos_ok plat s" and st: "am_starting s = Some p" and e: "am_pending s = []"
    and a: "map_find (am_heap s) p = Some a" "ap_connected b" "\<not> ap_wsConnected b" "ap_useIpc b"
    and i: "ap_appInfoRaw b = ap_appInfoRaw a"
  shows "\<exists>s'. stopApplication plat (s\<lparr>am_heap := map_set p b (am_heap s)\<rparr>) = Inr s' \<and> am_inv s' \<and> am_abs s' = (Idle, [])
    \<and> infos_ok plat s' \<and> (calls_ok plat s \<longrightarrow> calls_ok plat s')"
proof -
  let ?s = "s\<lparr>am_heap := map_set p b (am_heap s)\<rparr>"
  from inv st have n: "am_top s = None" "am_stopping s = None"
    by (cases rule: am_inv_cases; simp)+
  have "doStopApplication plat p ?s = Inr (?s\<lparr>am_stopping := None,
      am_calls := am_calls s @ [PlatStop (ap_appInfoRaw b)], am_heap := map_erase p (am_heap s)\<rparr>)"
    using a e by (simp add: doStopApplication.simps onStopping.simps stopped.simps onAppStopped.simps
        onStoped_def delete_app_def setAppState_def map_find_set Let_def)
  with n st e inv a i plat show ?thesis
    by (auto simp: stopApplication.simps am_inv_def current_ok_def map_find_erase am_abs_def log_defs)
qed

lemma step_stop:
  assumes inv: "am_inv s" and plat: "infos_ok plat s" and c: "calm s (EvStop x)"
  shows "\<exists>s'. am_step plat s (EvStop x) = Inr s' \<and> am_inv s' \<and> am_abs s' = phase_step (am_abs s) (EvStop x)
    \<and> infos_ok plat s' \<and> (calls_ok plat s \<longrightarrow> calls_ok plat s')"
  using inv
proof (cases rule: am_inv_cases)
  case idle
  then show ?thesis using inv plat by (simp add: stopApplicationByAppId_def stopApplication.simps am_abs_def)
next
  case (running p a)
  note d = doStop_connected [where plat = plat, OF running(5, 8, 7)]
  show ?thesis
    using running inv plat d
    by (auto simp: stopApplicationByAppId_def stopApplication.simps am_inv_def current_ok_def
        map_find_set am_abs_def appId_of_def log_defs)
next
  case (starting p a)
  with c have e: "am_pending s = []" by (simp add: calm_def)
  have "map_set p a (am_heap s) = am_heap s"
    using starting(4) by (rule map_set_same)
  then show ?thesis
    using stop_starting [OF inv plat starting(2) e starting(4-7) refl] starting e
    by (simp add: stopApplicationByAppId_def am_abs_def)
next
  case (stopping p a)
  then show ?thesis using inv plat by (simp add: stopApplicationByAppId_def stopApplication.simps am_abs_def)
qed

lemma release:
  assumes inv: "am_inv s" and st: "am_stopping s = Some p" and b: "ap_connected b" and plat: "infos_ok plat s"
    and i: "map_find (am_heap s) p = Some a" "ap_appInfoRaw b = ap_appInfoRaw a"
  shows "\<exists>s'. stopped plat p (s\<lparr>am_heap := map_set p b (am_heap s)\<rparr>) = Inr s' \<and> am_inv s'
    \<and> am_abs s' = (case snd (am_abs s) of [] \<Rightarrow> (Idle, []) | x # q \<Rightarrow> (Starting x, q))
    \<and> infos_ok plat s' \<and> (calls_ok plat s \<longrightarrow> calls_ok plat s')"
proof -
  from inv st obtain a' where n: "am_top s = None" "am_starting s = None"
    and a: "map_find (am_heap s) p = Some a'" and p: "p \<notin> set (am_pending s)"
    by (cases rule: am_inv_cases) auto
  have wf: "map_wf (am_heap s)" using inv by (rule am_inv_wf)
  let ?s1 = "s\<lparr>am_heap := map_erase p (am_heap s), am_stopping := None\<rparr>"
  have r: "stopped plat p (s\<lparr>am_heap := map_set p b (am_heap s)\<rparr>) =
    (case am_pending s of [] \<Rightarrow> Inr ?s1 | q # qs \<Rightarrow> launchApplication plat q (?s1\<lparr>am_pending := qs\<rparr>))"
    using stopped_connected [of "s\<lparr>am_heap := map_set p b (am_heap s)\<rparr>" p b plat] a b
    by (simp add: map_find_set Let_def)
  show ?thesis
  proof (cases "am_pending s")
    case Nil
    with r n inv wf st plat show ?thesis
      by (auto simp: am_inv_def current_ok_def map_find_erase am_abs_def log_defs)
  next
    case (Cons q qs)
    with p have qp: "q \<noteq> p" by auto
    from Cons inv obtain c where c: "map_find (am_heap s) q = Some c" "ap_useIpc c" "\<not> ap_wsConnected c"
      by (auto simp: am_inv_def)
    have "launchApplication plat q (?s1\<lparr>am_pending := qs\<rparr>) = Inr ((?s1\<lparr>am_pending := qs\<rparr>)\<lparr>
        am_starting := Some q, am_calls := am_calls s @ [PlatLaunch (ap_appInfoRaw c)],
        am_heap := map_set q (c\<lparr>ap_connected := True, ap_appState := ''starting'', ap_startTimer := True\<rparr>)
          (map_erase p (am_heap s))\<rparr>)"
      using plat launch_idle [of "?s1\<lparr>am_pending := qs\<rparr>" q c plat] n c qp wf by (simp add: map_find_erase infos_ok_def)
    with r Cons n inv wf c qp p st plat show ?thesis
      by (auto simp: am_inv_def current_ok_def map_find_erase map_find_set am_abs_def appId_of_def log_defs)
  qed
qed

lemma step_closed:
  assumes inv: "am_inv s" and plat: "infos_ok plat s"
  shows "\<exists>s'. am_step plat s EvClosed = Inr s' \<and> am_inv s' \<and> am_abs s' = phase_step (am_abs s) EvClosed
    \<and> infos_ok plat s' \<and> (calls_ok plat s \<longrightarrow> calls_ok plat s')"
  using inv
proof (cases rule: am_inv_cases)
  case (stopping p a)
  have "map_set p a (am_heap s) = am_heap s" using stopping(4) by (rule map_set_same)
  with release [OF inv stopping(3, 5) plat stopping(4) refl] show ?thesis
    using stopping by (auto simp: getStoppingApplication_def am_abs_def split: list.splits)
qed (use inv plat in \<open>simp_all add: getStoppingApplication_def am_abs_def\<close>)

lemma step_stop_timeout:
  assumes inv: "am_inv s" and plat: "infos_ok plat s" and c: "calm s (EvStopTimeout p)"
  shows "\<exists>s'. am_step plat s (EvStopTimeout p) = Inr s' \<and> am_inv s'
    \<and> am_abs s' = phase_step (am_abs s) (EvStopTimeout p)
    \<and> infos_ok plat s' \<and> (calls_ok plat s \<longrightarrow> calls_ok plat s')"
proof -
  from c obtain a where a: "map_find (am_heap s) p = Some a" "ap_stopTimer a"
    by (auto simp: calm_def split: option.splits)
  with inv have st: "am_stopping s = Some p" by (auto simp: am_inv_def)
  with inv a have n: "am_top s = None" "am_starting s = None" "ap_connected a"
    by (cases rule: am_inv_cases; simp)+
  with release [OF inv st _ plat a(1), of "a\<lparr>ap_stopTimer := False\<rparr>"] a show ?thesis
    using st by (auto simp: fire_def onStopTimeout_def am_abs_def split: list.splits)
qed

lemma step_start_timeout:
  assumes inv: "am_inv s" and plat: "infos_ok plat s" and c: "calm s (EvStartTimeout p)"
  shows "\<exists>s'. am_step plat s (EvStartTimeout p) = Inr s' \<and> am_inv s'
    \<and> am_abs s' = phase_step (am_abs s) (EvStartTimeout p)
    \<and> infos_ok plat s' \<and> (calls_ok plat s \<longrightarrow> calls_ok plat s')"
proof -
  from c obtain a where a: "map_find (am_heap s) p = Some a" "ap_startTimer a" and e: "am_pending s = []"
    by (auto simp: calm_def split: option.splits)
  with inv have st: "am_starting s = Some p" by (auto simp: am_inv_def)
  with inv a have n: "am_top s = None" "am_stopping s = None" "ap_connected a" "\<not> ap_wsConnected a" "ap_useIpc a"
    by (cases rule: am_inv_cases; simp)+
  let ?b = "a\<lparr>ap_startTimer := False\<rparr>"
  have "am_step plat s (EvStartTimeout p) = stopApplication plat (s\<lparr>am_heap := map_set p ?b (am_heap s)\<rparr>)"
    using a n by (simp add: fire_def onStartTimeout_def onDoAppStop_def stopApplicationByAppId_def map_find_set)
  with stop_starting [OF inv plat st e a(1), of ?b] n e st show ?thesis
    by (auto simp: am_abs_def)
qed

lemma step_inactive:
  assumes inv: "am_inv s"
  shows "am_step plat s (EvInactive p) = Inr s"
  using inv by (auto simp: fire_def am_inv_def split: option.splits)

lemma phase_step_inactive [simp]: "phase_step st (EvInactive p) = st"
  by (cases "(st, EvInactive p)" rule: phase_step.cases) auto

lemma am_step_logged:
  assumes "am_inv s" and "calm s e" and "infos_ok plat s" and "launchable plat e"
  shows "\<exists>s'. am_step plat s e = Inr s' \<and> am_inv s' \<and> am_abs s' = phase_step (am_abs s) e
    \<and> infos_ok plat s' \<and> (calls_ok plat s \<longrightarrow> calls_ok plat s')"
proof (cases e)
  case (EvLaunch x u ipc mi info)
  with assms(2) have ipc by (simp add: calm_def)
  with EvLaunch assms(4) step_launch [OF assms(1, 3), of info] show ?thesis by simp
next
  case (EvInactive p)
  with step_inactive [OF assms(1)] assms(1,3) show ?thesis by simp
next
  case EvRegister
  with step_register [OF assms(1), of plat] assms(2,3) show ?thesis by simp
next
  case (EvStop x)
  with step_stop [OF assms(1,3)] assms(2) show ?thesis by simp
next
  case EvClosed
  with step_closed [OF assms(1,3)] show ?thesis by simp
next
  case (EvStartTimeout p)
  with step_start_timeout [OF assms(1,3)] assms(2) show ?thesis by simp
next
  case (EvStopTimeout p)
  with step_stop_timeout [OF assms(1,3)] assms(2) show ?thesis by simp
qed

lemma infos_total: "(\<And>i. plat i) \<Longrightarrow> infos_ok plat s \<and> launchable plat e"
  by (cases e) (simp_all add: infos_ok_def)

lemma am_step_refines:
  assumes "am_inv s" and "calm s e" and "\<And>i. plat i"
  shows "\<exists>s'. am_step plat s e = Inr s' \<and> am_inv s' \<and> am_abs s' = phase_step (am_abs s) e"
  using am_step_logged [OF assms(1,2), of plat] infos_total [of plat s e] assms(3) by blast

text \<open>The machine of calm events: an event that is not calm is left out.\<close>

definition calm_step :: "app_manager \<Rightarrow> am_event \<Rightarrow> fault + app_manager" where
  "calm_step s e = (if calm s e then am_step (\<lambda>_. True) s e else Inr s)"

interpretation apps: safe_machine calm_step am_inv
  by unfold_locales (use am_step_refines in \<open>fastforce simp: calm_step_def split: if_splits\<close>)+

lemma init_manager_inv: "am_inv init_manager"
  by (simp add: init_manager_def am_inv_def current_ok_def)

text \<open>Runs in which every event is calm when it comes.\<close>

fun calm_run :: "(string \<Rightarrow> bool) \<Rightarrow> app_manager \<Rightarrow> am_event list \<Rightarrow> bool" where
  "calm_run plat s [] \<longleftrightarrow> True"
| "calm_run plat s (e # es) \<longleftrightarrow>
     calm s e \<and> (case am_step plat s e of Inl _ \<Rightarrow> True | Inr s' \<Rightarrow> calm_run plat s' es)"

lemma run_refines:
  assumes plat: "\<And>i. plat i"
  shows "am_inv s \<Longrightarrow> calm_run plat s es \<Longrightarrow>
    \<exists>s'. foldE (am_step plat) s es = Inr s' \<and> am_inv s' \<and> am_abs s' = foldl phase_step (am_abs s) es"
proof (induction es arbitrary: s)
  case (Cons e es)
  then obtain t where t: "am_step plat s e = Inr t" "am_inv t" "am_abs t = phase_step (am_abs s) e"
    using am_step_refines [OF Cons.prems(1), of e plat] plat by auto
  moreover have "calm_run plat t es" using Cons.prems(2) t(1) by simp
  ultimately show ?case using Cons.IH [OF t(2)] by (simp add: t(3))
qed simp

lemma run_logged:
  "am_inv s \<Longrightarrow> infos_ok plat s \<Longrightarrow> calls_ok plat s \<Longrightarrow> calm_run plat s es \<Longrightarrow> \<forall>e \<in> set es. launchable plat e \<Longrightarrow>
    \<exists>s'. foldE (am_step plat) s es = Inr s' \<and> am_inv s' \<and> am_abs s' = foldl phase_step (am_abs s) es \<and> calls_ok plat s'"
proof (induction es arbitrary: s)
  case (Cons e es)
  then obtain t where t: "am_step plat s e = Inr t" "am_inv t" "am_abs t = phase_step (am_abs s) e" "infos_ok plat t" "calls_ok plat t"
    using am_step_logged [OF Cons.prems(1), of e plat] by auto
  moreover have "calm_run plat t es" using Cons.prems(4) t(1) by simp
  ultimately show ?case using Cons.IH [OF t(2,4,5)] Cons.prems(5) by (simp add: t(3))
qed simp

lemma call_step_None [simp]: "foldl call_step None cs = None"
  by (induction cs) auto

text \<open>
  The contract of a platform the manager drives. \<open>runs app u\<close> says that the state \<open>u\<close> of the platform
  is the one in which it runs \<open>app\<close> and nothing else; \<open>good\<close> says which applications it can launch. Then
  the calls of the manager, whatever calm events it gets, leave the platform running the application
  the manager believes to be open.
\<close>

locale app_platform =
  fixes call :: "'u \<Rightarrow> platform_call \<Rightarrow> fault + 'u"
    and runs :: "string option \<Rightarrow> 'u \<Rightarrow> bool"
    and good :: "string \<Rightarrow> bool"
  assumes launch_runs: "good i \<Longrightarrow> runs None u \<Longrightarrow> \<exists>u'. call u (PlatLaunch i) = Inr u' \<and> runs (Some i) u'"
    and stop_runs: "good i \<Longrightarrow> runs (Some i) u \<Longrightarrow> \<exists>u'. call u (PlatStop i) = Inr u' \<and> runs None u'"
begin

lemma call_runs:
  assumes "call_step (Some app) c = Some app'" and "good (call_info c)" and "runs app u"
  shows "\<exists>u'. call u c = Inr u' \<and> runs app' u'"
proof (cases app)
  case None
  with assms launch_runs show ?thesis by (cases c) auto
next
  case (Some i)
  with assms stop_runs show ?thesis by (cases c) (auto split: if_splits)
qed

lemma calls_run:
  "runs app u \<Longrightarrow> foldl call_step (Some app) cs = Some app' \<Longrightarrow> \<forall>c \<in> set cs. good (call_info c) \<Longrightarrow>
    \<exists>u'. foldE call u cs = Inr u' \<and> runs app' u'"
proof (induction cs arbitrary: app u)
  case (Cons c cs)
  obtain app1 where c: "call_step (Some app) c = Some app1" using Cons.prems(2) by (cases "call_step (Some app) c") auto
  obtain u1 where "call u c = Inr u1" "runs app1 u1" using call_runs [OF c _ Cons.prems(1)] Cons.prems(3) by auto
  with Cons.IH [of app1 u1] Cons.prems(2,3) c show ?case by auto
qed auto

lemma manager_drives:
  assumes "calm_run good init_manager es" and "\<forall>e \<in> set es. launchable good e" and "runs None u0"
  shows "\<exists>s u. foldE (am_step good) init_manager es = Inr s \<and> foldE call u0 (am_calls s) = Inr u \<and> runs (open_app s) u
    \<and> (open_app s = None \<longleftrightarrow> (\<exists>q. fst (am_abs s) = Idle \<or> fst (am_abs s) = Stopping q))"
proof -
  have "infos_ok good init_manager" "calls_ok good init_manager"
    by (simp_all add: infos_ok_def calls_ok_def open_app_def init_manager_def)
  with run_logged [OF init_manager_inv _ _ assms(1,2)]
  obtain s where s: "foldE (am_step good) init_manager es = Inr s" "am_inv s" "calls_ok good s" by blast
  have "open_app s = None \<longleftrightarrow> (\<exists>q. fst (am_abs s) = Idle \<or> fst (am_abs s) = Stopping q)"
    using s(2) by (cases rule: am_inv_cases) (auto simp: open_app_def am_abs_def)
  moreover obtain u where "foldE call u0 (am_calls s) = Inr u" "runs (open_app s) u"
    using calls_run [OF assms(3)] s(3) unfolding calls_ok_def by blast
  ultimately show ?thesis using s(1) by (intro exI [of _ s] exI [of _ u] conjI)
qed

end

section \<open>Properties\<close>

text \<open>
  C11. The application manager implements the one-at-a-time queue: from the empty manager, with a
  platform that launches every application, any sequence of calm events (however long) is handled
  without touching a deleted application, keeps the manager's invariant, and leaves the current
  application and the queue of waiting ones as \<open>phase_step\<close> specifies: a waiting application is
  launched when the one before it is gone, in the order of the requests.
\<close>

theorem app_manager_refines:
  assumes "calm_run (\<lambda>_. True) init_manager es"
  shows "\<exists>s. foldE (am_step (\<lambda>_. True)) init_manager es = Inr s \<and> am_inv s
    \<and> am_abs s = foldl phase_step (Idle, []) es"
proof -
  have "am_abs init_manager = (Idle, [])" by (simp add: init_manager_def am_abs_def)
  with run_refines [OF _ init_manager_inv assms] show ?thesis by simp
qed

theorem app_manager_refines_witness:
  "\<exists>s. foldE (am_step (\<lambda>_. True)) init_manager
      [EvLaunch ''a'' [] True 0 ''A'', EvRegister, EvLaunch ''b'' [] True 0 ''B'', EvClosed, EvRegister]
    = Inr s \<and> am_abs s = (Running ''b'', [])"
proof -
  have "calm_run (\<lambda>_. True) init_manager
      [EvLaunch ''a'' [] True 0 ''A'', EvRegister, EvLaunch ''b'' [] True 0 ''B'', EvClosed, EvRegister]"
    by code_simp
  from app_manager_refines [OF this] show ?thesis by auto
qed

text \<open>
  Switching away from an application that does not use IPC is a use after free: it is stopped
  and deleted at once, and the pending application is launched while the manager still refers to
  the deleted one as the running application.
\<close>

theorem switch_from_non_ipc_faults:
  assumes wf: "map_wf (am_heap s)" and t: "am_top s = Some q" "am_starting s = None" "am_stopping s = None" "am_pending s = []"
    and q: "map_find (am_heap s) q = Some b" "\<not> ap_useIpc b" "ap_connected b"
    and p: "map_find (am_heap s) p = Some a" "p \<noteq> q" "ap_appId a \<noteq> ap_appId b"
  shows "launchApplication plat p s = Inl UseAfterFree"
proof -
  let ?s1 = "s\<lparr>am_heap := map_set p (a\<lparr>ap_appState := ''starting''\<rparr>) (am_heap s), am_pending := [p]\<rparr>"
  let ?s2 = "?s1\<lparr>am_calls := am_calls s @ [PlatStop (ap_appInfoRaw b)],
      am_heap := map_erase q (am_heap ?s1), am_stopping := None\<rparr>"
  have "launchApplication plat p s = stopApplication plat ?s1"
    using t q p by (simp add: launchApplication.simps [of plat p s] setAppState_def map_find_set)
  also have "\<dots> = bindE (doStopApplication plat q ?s1) (\<lambda>s. Inr (s\<lparr>am_top := None\<rparr>))"
    using t by (simp add: stopApplication.simps)
  also have "doStopApplication plat q ?s1 = launchApplication plat p (?s2\<lparr>am_pending := []\<rparr>)"
    using q p(2) by (simp add: doStopApplication.simps onStopping.simps stopped.simps onAppStopped.simps
        onStoped_def delete_app_def setAppState_def map_find_set Let_def)
  also have "launchApplication plat p (?s2\<lparr>am_pending := []\<rparr>) = Inl UseAfterFree"
    by (subst launchApplication.simps)
      (use t p wf in \<open>simp add: setAppState_def map_find_set map_find_erase get_app_def upd_app_def\<close>)
  finally show ?thesis by simp
qed

theorem switch_from_non_ipc_faults_witness:
  "launchApplication (\<lambda>_. True) 1
     \<lparr>am_heap = [(0, (new_Application ''a'' [] False 0 [])\<lparr>ap_connected := True\<rparr>),
                 (1, new_Application ''b'' [] True 0 [])],
      am_next = 2, am_top = Some 0, am_starting = None, am_stopping = None, am_pending = [], am_calls = []\<rparr>
   = Inl UseAfterFree"
  by (rule switch_from_non_ipc_faults [where q = 0
        and b = "(new_Application ''a'' [] False 0 [])\<lparr>ap_connected := True\<rparr>" and a = "new_Application ''b'' [] True 0 []"])
    (simp_all add: new_Application_def)

text \<open>
  Stopping an application that has not registered yet, while another one waits, is a use after
  free as well (a stop request or the 30 second start timeout): the waiting application is
  launched while the manager still refers to the deleted one as the starting application.
\<close>

theorem stop_starting_with_pending_faults:
  assumes inv: "am_inv s" and st: "am_starting s = Some q" and pend: "am_pending s \<noteq> []"
  shows "am_step plat s (EvStop x) = Inl UseAfterFree"
  using inv
proof (cases rule: am_inv_cases)
  case (starting q' b)
  with st have q: "q' = q" by simp
  from pend obtain p ps where ps: "am_pending s = p # ps" by (cases "am_pending s") auto
  with inv obtain a where p: "map_find (am_heap s) p = Some a" by (auto simp: am_inv_def)
  from starting ps q have pq: "p \<noteq> q" by auto
  let ?s1 = "s\<lparr>am_calls := am_calls s @ [PlatStop (ap_appInfoRaw b)],
      am_heap := map_erase q (am_heap s), am_stopping := None, am_pending := ps\<rparr>"
  have "doStopApplication plat q s = launchApplication plat p ?s1"
    using starting q ps by (simp add: doStopApplication.simps onStopping.simps stopped.simps onAppStopped.simps
        onStoped_def delete_app_def setAppState_def map_find_set Let_def)
  moreover have "launchApplication plat p ?s1 = Inl UseAfterFree"
    using starting q p pq am_inv_wf [OF inv]
    by (simp add: launchApplication.simps [of plat p ?s1] setAppState_def map_find_set map_find_erase
        get_app_def upd_app_def)
  ultimately show ?thesis
    using starting q by (simp add: stopApplicationByAppId_def stopApplication.simps)
qed (use st pend in auto)

theorem stop_starting_with_pending_faults_witness:
  "am_step (\<lambda>_. True)
     \<lparr>am_heap = [(0, (new_Application ''a'' [] True 0 [])\<lparr>ap_connected := True, ap_startTimer := True\<rparr>),
                 (1, new_Application ''b'' [] True 0 [])],
      am_next = 2, am_top = None, am_starting = Some 0, am_stopping = None, am_pending = [1], am_calls = []\<rparr>
     (EvStop ''a'') = Inl UseAfterFree"
  by (rule stop_starting_with_pending_faults [where q = 0])
    (auto simp: am_inv_def current_ok_def new_Application_def split: if_splits)

text \<open>
  A launch the platform refuses poisons the manager: the request itself returns, with the
  deleted application still recorded as starting, and every later launch request faults.
\<close>

theorem failed_launch_poisons:
  assumes "\<not> plat info"
  shows "\<exists>s. am_step plat init_manager (EvLaunch x u ipc mi info) = Inr s \<and> am_starting s = Some 0
    \<and> am_step plat s (EvLaunch y v ipc' mi' info') = Inl UseAfterFree"
proof -
  let ?s = "init_manager\<lparr>am_next := 1, am_starting := Some 0, am_calls := [PlatLaunch info]\<rparr>"
  have "am_step plat init_manager (EvLaunch x u ipc mi info) = Inr ?s"
    using assms by (simp add: init_manager_def new_Application_def launchApplication.simps doLaunchApplication.simps
        stopped.simps onAppStopped.simps onStoped_def delete_app_def setAppState_def Let_def)
  moreover have "am_step plat ?s (EvLaunch y v ipc' mi' info') = Inl UseAfterFree"
    by (simp add: init_manager_def new_Application_def launchApplication.simps setAppState_def get_app_def
        upd_app_def)
  ultimately show ?thesis by (intro exI [of _ ?s]) (simp add: init_manager_def)
qed

theorem failed_launch_poisons_witness:
  "\<exists>s. am_step (\<lambda>i. i \<noteq> ''bad'') init_manager (EvLaunch ''a'' [] True 0 ''bad'') = Inr s
    \<and> am_starting s = Some 0
    \<and> am_step (\<lambda>i. i \<noteq> ''bad'') s (EvLaunch ''b'' [] True 0 ''ok'') = Inl UseAfterFree"
  by (rule failed_launch_poisons) simp

end
