(* ===== verification/Session.thy ===== *)
theory Session
  imports StdMap
begin

text \<open>
  \<open>SessionManager\<close>, \<open>Session\<close>, \<open>SenderSession\<close> and \<open>ReceiverSession\<close> (flint/src/flint/session):
  the sender sessions by token, the receiver session, and the ten-second timer each session
  carries. A session object is an entry of a heap, by address; it deletes itself when its timer
  fires. Time is counted in seconds, and the timers due at a second fire in the order of their
  addresses. \<open>uuid\<close> gives the tokens (\<open>UUID::generateUUID\<close>); calls of the session listener are
  recorded in order.
\<close>

section \<open>State\<close>

record session_obj =
  so_token :: string
  so_appId :: string
  so_receiver :: bool
  so_deadline :: nat

datatype listener_call =
    SenderConnected string
  | SenderDisconnected string
  | ReceiverDisconnected string

record session_manager =
  sm_heap :: "(nat, session_obj) std_map"
  sm_next :: nat
  sm_senders :: "(string, nat) std_map"
  sm_receiver :: "nat option"
  sm_listener :: bool
  sm_calls :: "listener_call list"
  sm_now :: nat

definition init_sessions :: session_manager where
  "init_sessions = \<lparr>sm_heap = [], sm_next = 0, sm_senders = [], sm_receiver = None, sm_listener = False,
     sm_calls = [], sm_now = 0\<rparr>"

definition SESSION_SECONDS :: nat where
  "SESSION_SECONDS = 10"

definition get_session :: "session_manager \<Rightarrow> nat \<Rightarrow> fault + session_obj" where
  "get_session s p = (case map_find (sm_heap s) p of None \<Rightarrow> Inl UseAfterFree | Some o' \<Rightarrow> Inr o')"

definition triggerTimer :: "nat \<Rightarrow> session_manager \<Rightarrow> fault + session_manager" where
  "triggerTimer p s =
     bindE (get_session s p) (\<lambda>so.
     Inr (s\<lparr>sm_heap := map_set p (so\<lparr>so_deadline := sm_now s + SESSION_SECONDS\<rparr>) (sm_heap s)\<rparr>))"

definition notify :: "listener_call \<Rightarrow> session_manager \<Rightarrow> session_manager" where
  "notify c s = (if sm_listener s then s\<lparr>sm_calls := sm_calls s @ [c]\<rparr> else s)"

definition new_session :: "string \<Rightarrow> string \<Rightarrow> bool \<Rightarrow> session_manager \<Rightarrow> nat \<times> session_manager" where
  "new_session token appId receiver s =
     (sm_next s,
      s\<lparr>sm_heap := map_insert (sm_next s)
           \<lparr>so_token = token, so_appId = appId, so_receiver = receiver, so_deadline = 0\<rparr> (sm_heap s),
        sm_next := sm_next s + 1\<rparr>)"

section \<open>Senders\<close>

definition getSender :: "session_manager \<Rightarrow> string \<Rightarrow> nat option" where
  "getSender s token = map_find (sm_senders s) token"

definition checkSender :: "session_manager \<Rightarrow> string \<Rightarrow> bool" where
  "checkSender s token \<longleftrightarrow> length (filter (\<lambda>e. fst e = token) (sm_senders s)) = 1"

definition removeSender :: "string \<Rightarrow> session_manager \<Rightarrow> bool \<times> session_manager" where
  "removeSender token s =
     (case map_find (sm_senders s) token of
        Some _ \<Rightarrow> (True, s\<lparr>sm_senders := map_erase token (sm_senders s)\<rparr>)
      | None \<Rightarrow> (False, s))"

definition addSender :: "string \<Rightarrow> nat \<Rightarrow> session_manager \<Rightarrow> bool \<times> session_manager" where
  "addSender token p s =
     (if \<not> checkSender s token then (True, s\<lparr>sm_senders := map_insert token p (sm_senders s)\<rparr>)
      else (False, s))"

definition createSender :: "(nat \<Rightarrow> string) \<Rightarrow> string \<Rightarrow> session_manager \<Rightarrow> fault + nat \<times> session_manager" where
  "createSender uuid appId s =
     (let token = uuid (sm_next s);
          (p, s1) = new_session token appId False s;
          (_, s2) = addSender token p s1;
          s3 = notify (SenderConnected token) s2
      in bindE (triggerTimer p s3) (\<lambda>s4. Inr (p, s4)))"

definition touchSender :: "string \<Rightarrow> session_manager \<Rightarrow> fault + bool \<times> session_manager" where
  "touchSender token s =
     (case getSender s token of
        Some p \<Rightarrow> bindE (triggerTimer p s) (\<lambda>s1. Inr (True, s1))
      | None \<Rightarrow> Inr (False, s))"

definition disconnectSender :: "string \<Rightarrow> session_manager \<Rightarrow> bool \<times> session_manager" where
  "disconnectSender token s =
     (let (res, s1) = removeSender token s
      in if res then (True, notify (SenderDisconnected token) s1) else (False, s1))"

definition onSenderTimeout :: "string \<Rightarrow> session_manager \<Rightarrow> session_manager" where
  "onSenderTimeout token s = snd (disconnectSender token s)"

section \<open>The receiver\<close>

definition createReceiver :: "(nat \<Rightarrow> string) \<Rightarrow> string \<Rightarrow> session_manager \<Rightarrow> fault + bool \<times> session_manager" where
  "createReceiver uuid appId s =
     (if sm_receiver s \<noteq> None then Inr (False, s)
      else
        let (p, s1) = new_session (uuid (sm_next s)) appId True s
        in bindE (triggerTimer p (s1\<lparr>sm_receiver := Some p\<rparr>)) (\<lambda>s2. Inr (True, s2)))"

definition touchReceiver :: "string \<Rightarrow> session_manager \<Rightarrow> fault + bool \<times> session_manager" where
  "touchReceiver appId s =
     (case sm_receiver s of
        Some p \<Rightarrow> bindE (triggerTimer p s) (\<lambda>s1. Inr (True, s1))
      | None \<Rightarrow> Inr (False, s))"

definition disconnectReceiver :: "string \<Rightarrow> session_manager \<Rightarrow> fault + bool \<times> session_manager" where
  "disconnectReceiver appId s =
     (case sm_receiver s of
        Some p \<Rightarrow> bindE (get_session s p) (\<lambda>so.
          if so_appId so = appId then Inr (True, s\<lparr>sm_receiver := None\<rparr>) else Inr (False, s))
      | None \<Rightarrow> Inr (False, s))"

definition onReceiverTimeout :: "string \<Rightarrow> session_manager \<Rightarrow> fault + session_manager" where
  "onReceiverTimeout token s =
     (case sm_receiver s of
        None \<Rightarrow> Inr s
      | Some p \<Rightarrow> bindE (get_session s p) (\<lambda>so.
          if token = so_token so
          then Inr ((notify (ReceiverDisconnected (so_appId so)) s)\<lparr>sm_receiver := None\<rparr>)
          else Inr s))"

fun notify_senders :: "(string, nat) std_map \<Rightarrow> session_manager \<Rightarrow> fault + session_manager" where
  "notify_senders [] s = Inr s"
| "notify_senders ((t, p) # it) s =
     bindE (get_session s p) (\<lambda>so. notify_senders it (notify (SenderConnected (so_token so)) s))"

definition setSessionListender :: "bool \<Rightarrow> session_manager \<Rightarrow> fault + session_manager" where
  "setSessionListender listener s =
     (let s1 = s\<lparr>sm_listener := listener\<rparr>
      in if listener then notify_senders (sm_senders s1) s1 else Inr s1)"

section \<open>Timers\<close>

text \<open>\<open>Session::onTimeout\<close> for an expiry: the \<open>Timeout\<close> signal, then \<open>delete this\<close>.\<close>

definition onTimeout :: "nat \<Rightarrow> session_manager \<Rightarrow> fault + session_manager" where
  "onTimeout p s =
     bindE (get_session s p) (\<lambda>so.
     bindE (if so_receiver so then onReceiverTimeout (so_token so) s
            else Inr (onSenderTimeout (so_token so) s)) (\<lambda>s1.
     Inr (s1\<lparr>sm_heap := map_erase p (sm_heap s1)\<rparr>)))"

definition due :: "session_manager \<Rightarrow> nat list" where
  "due s = map fst (filter (\<lambda>e. so_deadline (snd e) = sm_now s) (sm_heap s))"

definition second :: "session_manager \<Rightarrow> fault + session_manager" where
  "second s =
     (let s1 = s\<lparr>sm_now := sm_now s + 1\<rparr>
      in foldE (\<lambda>t p. onTimeout p t) s1 (due s1))"

datatype session_event =
    SCreateSender string
  | STouchSender string
  | SDisconnectSender string
  | SCreateReceiver string
  | STouchReceiver string
  | SDisconnectReceiver string
  | SListener bool
  | SSecond

fun session_step :: "(nat \<Rightarrow> string) \<Rightarrow> session_manager \<Rightarrow> session_event \<Rightarrow> fault + session_manager" where
  "session_step uuid s (SCreateSender appId) = bindE (createSender uuid appId s) (\<lambda>(_, s1). Inr s1)"
| "session_step uuid s (STouchSender t) = bindE (touchSender t s) (\<lambda>(_, s1). Inr s1)"
| "session_step uuid s (SDisconnectSender t) = Inr (snd (disconnectSender t s))"
| "session_step uuid s (SCreateReceiver appId) = bindE (createReceiver uuid appId s) (\<lambda>(_, s1). Inr s1)"
| "session_step uuid s (STouchReceiver appId) = bindE (touchReceiver appId s) (\<lambda>(_, s1). Inr s1)"
| "session_step uuid s (SDisconnectReceiver appId) = bindE (disconnectReceiver appId s) (\<lambda>(_, s1). Inr s1)"
| "session_step uuid s (SListener b) = setSessionListender b s"
| "session_step uuid s SSecond = second s"

section \<open>The sender table is a registry\<close>

lemma checkSender_iff: "map_wf (sm_senders s) \<Longrightarrow> checkSender s t \<longleftrightarrow> getSender s t \<noteq> None"
proof -
  have "map_wf m \<Longrightarrow> length (filter (\<lambda>e. fst e = t) m) = (if map_find m t = None then 0 else 1)"
    for m :: "(string, nat) std_map"
  proof (induction m)
    case (Cons e m)
    obtain a b where e: "e = (a, b)" by (cases e)
    have "a = t \<Longrightarrow> map_find m t = None" using Cons.prems e by (force simp: map_find_None)
    with Cons e show ?case by auto
  qed simp
  then show "map_wf (sm_senders s) \<Longrightarrow> checkSender s t \<longleftrightarrow> getSender s t \<noteq> None"
    by (simp add: checkSender_def getSender_def)
qed

interpretation sender_table: registry getSender "\<lambda>t p s. snd (addSender t p s)"
  "\<lambda>t s. snd (removeSender t s)" "(=)" "\<lambda>s. map_wf (sm_senders s)"
proof unfold_locales
  show "equivp ((=) :: string \<Rightarrow> string \<Rightarrow> bool)" by (rule identity_equivp)
qed (auto simp: addSender_def removeSender_def checkSender_iff getSender_def map_find_insert
    map_find_erase map_erase_absent split: option.splits)

section \<open>The invariant\<close>

text \<open>
  Every pointer the manager holds is to a live session of the right kind, and every session but
  those in \<open>D\<close>, whose timers are about to fire, has between one and ten seconds left.
\<close>

definition sessions_ok :: "(nat \<Rightarrow> string) \<Rightarrow> nat set \<Rightarrow> session_manager \<Rightarrow> bool" where
  "sessions_ok uuid D s \<longleftrightarrow>
     map_wf (sm_heap s) \<and> map_wf (sm_senders s)
   \<and> (\<forall>p so. map_find (sm_heap s) p = Some so \<longrightarrow> p < sm_next s \<and> so_token so = uuid p
        \<and> so_deadline so \<le> sm_now s + SESSION_SECONDS \<and> (sm_now s < so_deadline so \<or> p \<in> D))
   \<and> (\<forall>t p. map_find (sm_senders s) t = Some p \<longrightarrow>
        (\<exists>so. map_find (sm_heap s) p = Some so \<and> so_token so = t \<and> \<not> so_receiver so))
   \<and> (\<forall>p. sm_receiver s = Some p \<longrightarrow> (\<exists>so. map_find (sm_heap s) p = Some so \<and> so_receiver so))"

lemma get_session_Inr [simp]: "get_session s p = Inr so \<longleftrightarrow> map_find (sm_heap s) p = Some so"
  by (simp add: get_session_def split: option.splits)

lemma notify_simps [simp]:
  "sm_heap (notify c s) = sm_heap s" "sm_next (notify c s) = sm_next s"
  "sm_senders (notify c s) = sm_senders s" "sm_receiver (notify c s) = sm_receiver s"
  "sm_listener (notify c s) = sm_listener s" "sm_now (notify c s) = sm_now s"
  "sm_calls (notify c s) = sm_calls s @ (if sm_listener s then [c] else [])"
  by (simp_all add: notify_def)

lemma triggerTimer_live:
  "map_find (sm_heap s) p = Some so \<Longrightarrow>
   triggerTimer p s = Inr (s\<lparr>sm_heap := map_set p (so\<lparr>so_deadline := sm_now s + SESSION_SECONDS\<rparr>) (sm_heap s)\<rparr>)"
  by (simp add: triggerTimer_def get_session_def)

lemma sessions_ok_fresh: "sessions_ok uuid D s \<Longrightarrow> map_find (sm_heap s) (sm_next s) = None"
  by (rule ccontr) (auto simp: sessions_ok_def)

lemma seconds_pos [simp]: "0 < SESSION_SECONDS"
  by (simp add: SESSION_SECONDS_def)

lemma touch_ok:
  "sessions_ok uuid D s \<Longrightarrow> map_find (sm_heap s) p = Some so \<Longrightarrow>
   sessions_ok uuid D (s\<lparr>sm_heap := map_set p (so\<lparr>so_deadline := sm_now s + SESSION_SECONDS\<rparr>) (sm_heap s)\<rparr>)"
  unfolding sessions_ok_def by (auto simp: map_find_set) (metis option.inject)+

lemma drop_sender_ok:
  "sessions_ok uuid D s \<Longrightarrow> sessions_ok uuid D (snd (disconnectSender t s))"
  unfolding sessions_ok_def
  by (auto simp: disconnectSender_def removeSender_def map_find_erase split: option.splits)

section \<open>The specification\<close>

text \<open>
  A sender is a token with the seconds it has left; the receiver an application id with the
  seconds it has left. \<open>sp_fresh\<close> numbers the tokens given out.
\<close>

record session_spec =
  sp_fresh :: nat
  sp_senders :: "string \<Rightarrow> nat option"
  sp_receiver :: "(string \<times> nat) option"

definition one_second :: "nat option \<Rightarrow> nat option" where
  "one_second r = (case r of None \<Rightarrow> None | Some n \<Rightarrow> if n \<le> 1 then None else Some (n - 1))"

fun spec_step :: "(nat \<Rightarrow> string) \<Rightarrow> session_spec \<Rightarrow> session_event \<Rightarrow> session_spec" where
  "spec_step uuid a (SCreateSender appId) =
     a\<lparr>sp_fresh := sp_fresh a + 1, sp_senders := (sp_senders a)(uuid (sp_fresh a) \<mapsto> 10)\<rparr>"
| "spec_step uuid a (STouchSender t) =
     a\<lparr>sp_senders := (if sp_senders a t = None then sp_senders a else (sp_senders a)(t \<mapsto> 10))\<rparr>"
| "spec_step uuid a (SDisconnectSender t) = a\<lparr>sp_senders := (sp_senders a)(t := None)\<rparr>"
| "spec_step uuid a (SCreateReceiver appId) =
     (if sp_receiver a = None then a\<lparr>sp_fresh := sp_fresh a + 1, sp_receiver := Some (appId, 10)\<rparr> else a)"
| "spec_step uuid a (STouchReceiver appId) = a\<lparr>sp_receiver := map_option (\<lambda>(x, _). (x, 10)) (sp_receiver a)\<rparr>"
| "spec_step uuid a (SDisconnectReceiver appId) =
     a\<lparr>sp_receiver := (case sp_receiver a of None \<Rightarrow> None | Some (x, n) \<Rightarrow> if x = appId then None else Some (x, n))\<rparr>"
| "spec_step uuid a (SListener b) = a"
| "spec_step uuid a SSecond =
     a\<lparr>sp_senders := (\<lambda>t. one_second (sp_senders a t)),
       sp_receiver := (case sp_receiver a of None \<Rightarrow> None | Some (x, n) \<Rightarrow> map_option (Pair x) (one_second (Some n)))\<rparr>"

definition session_left :: "session_manager \<Rightarrow> nat \<Rightarrow> nat" where
  "session_left s p = (case map_find (sm_heap s) p of None \<Rightarrow> 0 | Some so \<Rightarrow> so_deadline so - sm_now s)"

definition session_app :: "session_manager \<Rightarrow> nat \<Rightarrow> string" where
  "session_app s p = (case map_find (sm_heap s) p of None \<Rightarrow> [] | Some so \<Rightarrow> so_appId so)"

definition session_abs :: "session_manager \<Rightarrow> session_spec" where
  "session_abs s =
     \<lparr>sp_fresh = sm_next s, sp_senders = (\<lambda>t. map_option (session_left s) (getSender s t)),
      sp_receiver = map_option (\<lambda>p. (session_app s p, session_left s p)) (sm_receiver s)\<rparr>"

lemmas session_abs_defs = session_abs_def session_left_def session_app_def getSender_def

section \<open>Each operation implements its specification\<close>

lemma ok_wf: "sessions_ok uuid D s \<Longrightarrow> map_wf (sm_heap s) \<and> map_wf (sm_senders s)"
  by (simp add: sessions_ok_def)

lemma ok_heap:
  "sessions_ok uuid D s \<Longrightarrow> map_find (sm_heap s) p = Some so \<Longrightarrow>
   p < sm_next s \<and> so_token so = uuid p \<and> so_deadline so \<le> sm_now s + SESSION_SECONDS
     \<and> (sm_now s < so_deadline so \<or> p \<in> D)"
  by (simp add: sessions_ok_def)

lemma ok_sender:
  assumes "sessions_ok uuid D s" and "map_find (sm_senders s) t = Some p"
  obtains so where "map_find (sm_heap s) p = Some so" and "so_token so = t" and "\<not> so_receiver so"
    and "t = uuid p" and "p < sm_next s"
  using assms unfolding sessions_ok_def by metis

lemma ok_receiver:
  assumes "sessions_ok uuid D s" and "sm_receiver s = Some p"
  obtains so where "map_find (sm_heap s) p = Some so" and "so_receiver so" and "p < sm_next s"
  using assms unfolding sessions_ok_def by metis

lemma fresh_token:
  assumes ok: "sessions_ok uuid D s" and inj: "inj uuid"
  shows "map_find (sm_senders s) (uuid (sm_next s)) = None"
proof (cases "map_find (sm_senders s) (uuid (sm_next s))")
  case (Some p)
  then show ?thesis using inj by (auto elim!: ok_sender [OF ok] simp: inj_eq)
qed

lemma session_left_frame:
  "sm_heap s' = sm_heap s \<Longrightarrow> sm_now s' = sm_now s \<Longrightarrow> session_left s' = session_left s"
  by (simp add: session_left_def fun_eq_iff cong: option.case_cong)

lemma session_app_frame: "sm_heap s' = sm_heap s \<Longrightarrow> session_app s' = session_app s"
  by (simp add: session_app_def fun_eq_iff)

lemma session_left_frames [simp]:
  "session_left (notify c s) = session_left s" "session_app (notify c s) = session_app s"
  "session_left (s\<lparr>sm_senders := m\<rparr>) = session_left s" "session_app (s\<lparr>sm_senders := m\<rparr>) = session_app s"
  "session_left (s\<lparr>sm_receiver := r\<rparr>) = session_left s" "session_app (s\<lparr>sm_receiver := r\<rparr>) = session_app s"
  "session_left (s\<lparr>sm_calls := cs\<rparr>) = session_left s" "session_app (s\<lparr>sm_calls := cs\<rparr>) = session_app s"
  "session_left (s\<lparr>sm_listener := b\<rparr>) = session_left s" "session_app (s\<lparr>sm_listener := b\<rparr>) = session_app s"
  by (rule session_left_frame session_app_frame; simp add: notify_def)+

lemma session_left_set:
  "map_find (sm_heap s) p = Some so \<Longrightarrow>
   session_left (s\<lparr>sm_heap := map_set p (so\<lparr>so_deadline := sm_now s + SESSION_SECONDS\<rparr>) (sm_heap s)\<rparr>) q =
     (if q = p then 10 else session_left s q)"
  "map_find (sm_heap s) p = Some so \<Longrightarrow>
   session_app (s\<lparr>sm_heap := map_set p (so\<lparr>so_deadline := sm_now s + SESSION_SECONDS\<rparr>) (sm_heap s)\<rparr>) =
     session_app s"
  by (auto simp: session_left_def session_app_def map_find_set SESSION_SECONDS_def fun_eq_iff cong: option.case_cong)

lemma step_CreateSender:
  assumes ok: "sessions_ok uuid {} s" and inj: "inj uuid"
  shows "\<exists>s'. session_step uuid s (SCreateSender appId) = Inr s' \<and> sessions_ok uuid {} s'
    \<and> session_abs s' = spec_step uuid (session_abs s) (SCreateSender appId)"
proof -
  note fresh = sessions_ok_fresh [OF ok] and wf = ok_wf [OF ok] and tok = fresh_token [OF ok inj]
  have nc: "\<not> checkSender s (uuid (sm_next s))" using wf tok by (simp add: checkSender_iff getSender_def)
  define so where "so = \<lparr>so_token = uuid (sm_next s), so_appId = appId, so_receiver = False, so_deadline = sm_now s + SESSION_SECONDS\<rparr>"
  define s' where "s' = (notify (SenderConnected (uuid (sm_next s))) (s\<lparr>sm_next := sm_next s + 1,
     sm_senders := map_insert (uuid (sm_next s)) (sm_next s) (sm_senders s)\<rparr>))\<lparr>sm_heap :=
     map_set (sm_next s) so (map_insert (sm_next s) (so\<lparr>so_deadline := 0\<rparr>) (sm_heap s))\<rparr>"
  have "session_step uuid s (SCreateSender appId) = Inr s'"
    using nc wf fresh by (simp add: createSender_def new_session_def addSender_def checkSender_def
        triggerTimer_def get_session_def map_find_insert s'_def so_def notify_def Let_def)
  moreover have heap: "map_find (sm_heap s') p = (if p = sm_next s then Some so else map_find (sm_heap s) p)" for p
    using wf fresh by (simp add: s'_def map_find_set map_find_insert)
  moreover have senders: "map_find (sm_senders s') t = (if t = uuid (sm_next s) then Some (sm_next s) else map_find (sm_senders s) t)" for t
    using wf tok by (simp add: s'_def map_find_insert)
  have rest: "sm_next s' = sm_next s + 1" "sm_receiver s' = sm_receiver s" "sm_now s' = sm_now s"
    by (simp_all add: s'_def)
  have "sessions_ok uuid {} s'"
    unfolding sessions_ok_def heap senders rest
    using wf ok_heap [OF ok] so_def seconds_pos
    by (auto simp: s'_def less_Suc_eq elim!: ok_sender [OF ok] ok_receiver [OF ok])
  moreover have "session_abs s' = spec_step uuid (session_abs s) (SCreateSender appId)"
    unfolding session_abs_defs heap senders rest
    by (auto simp: fun_eq_iff so_def SESSION_SECONDS_def elim!: ok_sender [OF ok] ok_receiver [OF ok]
      intro!: option.map_cong0 dest: ok_sender [OF ok])
  ultimately show ?thesis by blast
qed

lemma step_STouchSender:
  assumes ok: "sessions_ok uuid {} s" and inj: "inj uuid"
  shows "\<exists>s'. session_step uuid s (STouchSender t) = Inr s' \<and> sessions_ok uuid {} s'
    \<and> session_abs s' = spec_step uuid (session_abs s) (STouchSender t)"
proof (cases "map_find (sm_senders s) t")
  case None
  with ok show ?thesis by (simp add: touchSender_def getSender_def session_abs_def)
next
  case (Some p)
  obtain so where so: "map_find (sm_heap s) p = Some so" "so_token so = t" "\<not> so_receiver so" "t = uuid p"
    by (rule ok_sender [OF ok Some])
  show ?thesis
    using so Some touch_ok [OF ok so(1)]
    by (auto simp: touchSender_def triggerTimer_live session_abs_def getSender_def session_left_set fun_eq_iff
        elim!: ok_sender [OF ok] ok_receiver [OF ok] intro!: option.map_cong0)
qed

lemma step_SDisconnectSender:
  assumes ok: "sessions_ok uuid {} s"
  shows "\<exists>s'. session_step uuid s (SDisconnectSender t) = Inr s' \<and> sessions_ok uuid {} s'
    \<and> session_abs s' = spec_step uuid (session_abs s) (SDisconnectSender t)"
  using ok_wf [OF ok] drop_sender_ok [OF ok, of t]
  by (auto simp: disconnectSender_def removeSender_def session_abs_def getSender_def fun_eq_iff map_find_erase
      split: option.splits)

lemma step_STouchReceiver:
  assumes ok: "sessions_ok uuid {} s" and inj: "inj uuid"
  shows "\<exists>s'. session_step uuid s (STouchReceiver t) = Inr s' \<and> sessions_ok uuid {} s'
    \<and> session_abs s' = spec_step uuid (session_abs s) (STouchReceiver t)"
proof (cases "sm_receiver s")
  case None
  with ok show ?thesis by (simp add: touchReceiver_def session_abs_def)
next
  case (Some p)
  obtain so where so: "map_find (sm_heap s) p = Some so" "so_receiver so"
    by (rule ok_receiver [OF ok Some])
  have "map_find (sm_senders s) t \<noteq> Some p" for t
    using so by (auto elim!: ok_sender [OF ok])
  then show ?thesis
    using so Some touch_ok [OF ok so(1)]
    by (auto simp: touchReceiver_def triggerTimer_live session_abs_def getSender_def session_left_set fun_eq_iff
        intro!: option.map_cong0)
qed

lemma step_SDisconnectReceiver:
  assumes ok: "sessions_ok uuid {} s"
  shows "\<exists>s'. session_step uuid s (SDisconnectReceiver x) = Inr s' \<and> sessions_ok uuid {} s'
    \<and> session_abs s' = spec_step uuid (session_abs s) (SDisconnectReceiver x)"
proof (cases "sm_receiver s")
  case None
  with ok show ?thesis by (simp add: disconnectReceiver_def session_abs_def)
next
  case (Some p)
  obtain so where so: "map_find (sm_heap s) p = Some so" "so_receiver so"
    by (rule ok_receiver [OF ok Some])
  have "sessions_ok uuid {} (s\<lparr>sm_receiver := None\<rparr>)" using ok by (simp add: sessions_ok_def)
  with ok so Some show ?thesis
    by (auto simp: disconnectReceiver_def get_session_def session_abs_def getSender_def session_app_def fun_eq_iff)
qed

lemma step_SCreateReceiver:
  assumes ok: "sessions_ok uuid {} s" 
  shows "\<exists>s'. session_step uuid s (SCreateReceiver appId) = Inr s' \<and> sessions_ok uuid {} s'
    \<and> session_abs s' = spec_step uuid (session_abs s) (SCreateReceiver appId)"
proof (cases "sm_receiver s")
  case (Some p)
  with ok show ?thesis by (simp add: createReceiver_def session_abs_def)
next
  case None
  note fresh = sessions_ok_fresh [OF ok] and wf = ok_wf [OF ok]
  define so where "so = \<lparr>so_token = uuid (sm_next s), so_appId = appId, so_receiver = True, so_deadline = sm_now s + SESSION_SECONDS\<rparr>"
  define s' where "s' = s\<lparr>sm_next := sm_next s + 1, sm_receiver := Some (sm_next s), sm_heap :=
     map_set (sm_next s) so (map_insert (sm_next s) (so\<lparr>so_deadline := 0\<rparr>) (sm_heap s))\<rparr>"
  have "session_step uuid s (SCreateReceiver appId) = Inr s'"
    using wf fresh None by (simp add: createReceiver_def new_session_def
        triggerTimer_def get_session_def map_find_insert s'_def so_def Let_def)
  moreover have heap: "map_find (sm_heap s') p = (if p = sm_next s then Some so else map_find (sm_heap s) p)" for p
    using wf fresh by (simp add: s'_def map_find_set map_find_insert)
  have rest: "sm_next s' = sm_next s + 1" "sm_receiver s' = Some (sm_next s)" "sm_now s' = sm_now s"
    "sm_senders s' = sm_senders s"
    by (simp_all add: s'_def)
  have "sessions_ok uuid {} s'"
    unfolding sessions_ok_def heap rest
    using wf ok_heap [OF ok] so_def seconds_pos
    by (auto simp: s'_def less_Suc_eq elim!: ok_sender [OF ok])
  moreover have "session_abs s' = spec_step uuid (session_abs s) (SCreateReceiver appId)"
    unfolding session_abs_defs heap rest
    by (auto simp: None fun_eq_iff so_def SESSION_SECONDS_def elim!: ok_sender [OF ok]
      intro!: option.map_cong0 dest: ok_sender [OF ok])
  ultimately show ?thesis by blast
qed

lemma notify_senders_frame:
  "\<forall>(t, p) \<in> set m. map_find (sm_heap s) p \<noteq> None \<Longrightarrow>
   \<exists>cs. notify_senders m s = Inr (s\<lparr>sm_calls := sm_calls s @ cs\<rparr>)"
proof (induction m arbitrary: s)
  case Nil
  show ?case by (auto intro!: exI [of _ "[]"])
next
  case (Cons e m)
  obtain t p where e: "e = (t, p)" by (cases e)
  obtain so where so: "map_find (sm_heap s) p = Some so" using Cons.prems e by auto
  obtain cs where "notify_senders m (notify (SenderConnected (so_token so)) s) =
     Inr ((notify (SenderConnected (so_token so)) s)
       \<lparr>sm_calls := sm_calls (notify (SenderConnected (so_token so)) s) @ cs\<rparr>)"
    using Cons.IH [of "notify (SenderConnected (so_token so)) s"] Cons.prems by auto
  then show ?case using so e by (auto simp: get_session_def notify_def)
qed

lemma step_SListener:
  assumes ok: "sessions_ok uuid {} s"
  shows "\<exists>s'. session_step uuid s (SListener b) = Inr s' \<and> sessions_ok uuid {} s'
    \<and> session_abs s' = spec_step uuid (session_abs s) (SListener b)"
proof -
  have ok': "sessions_ok uuid {} (s\<lparr>sm_listener := b, sm_calls := cs\<rparr>)" for cs
    using ok by (simp add: sessions_ok_def)
  have abs: "session_abs (s\<lparr>sm_listener := b, sm_calls := cs\<rparr>) = session_abs s" for cs
    by (simp add: session_abs_def getSender_def fun_eq_iff)
  have live: "\<forall>(t, p) \<in> set (sm_senders s). map_find (sm_heap (s\<lparr>sm_listener := b\<rparr>)) p \<noteq> None"
    using ok_wf [OF ok] by (auto simp: map_find_iff [symmetric] elim!: ok_sender [OF ok])
  obtain cs where cs: "notify_senders (sm_senders s) (s\<lparr>sm_listener := b\<rparr>) = Inr (s\<lparr>sm_listener := b, sm_calls := cs\<rparr>)"
    using notify_senders_frame [OF live] by auto
  have "s\<lparr>sm_listener := b\<rparr> = s\<lparr>sm_listener := b, sm_calls := sm_calls s\<rparr>" by simp
  then have "\<exists>cs. session_step uuid s (SListener b) = Inr (s\<lparr>sm_listener := b, sm_calls := cs\<rparr>)"
    using cs unfolding session_step.simps setSessionListender_def Let_def
    by (cases b) (auto intro: exI [of _ "sm_calls s"])
  then obtain cs where "session_step uuid s (SListener b) = Inr (s\<lparr>sm_listener := b, sm_calls := cs\<rparr>)" by blast
  with ok' abs show ?thesis by (simp del: session_step.simps)
qed

text \<open>The effect of the expiries of \<open>P\<close>: those sessions leave the heap and both tables, nothing else moves.\<close>

definition drops :: "nat set \<Rightarrow> session_manager \<Rightarrow> session_manager \<Rightarrow> bool" where
  "drops P s s' \<longleftrightarrow>
     (\<forall>q. map_find (sm_heap s') q = (if q \<in> P then None else map_find (sm_heap s) q))
   \<and> (\<forall>t. map_find (sm_senders s') t =
        (case map_find (sm_senders s) t of None \<Rightarrow> None | Some q \<Rightarrow> if q \<in> P then None else Some q))
   \<and> sm_receiver s' = (case sm_receiver s of None \<Rightarrow> None | Some q \<Rightarrow> if q \<in> P then None else Some q)
   \<and> sm_next s' = sm_next s \<and> sm_now s' = sm_now s"

lemma drops_trans: "drops P s t \<Longrightarrow> drops Q t u \<Longrightarrow> drops (P \<union> Q) s u"
  by (auto simp: drops_def split: option.splits)

lemma drops_ok:
  assumes ok: "sessions_ok uuid (insert p D) s" and "drops {p} s s'"
    and "map_wf (sm_heap s')" "map_wf (sm_senders s')"
  shows "sessions_ok uuid (D - {p}) s'"
proof -
  have h: "map_find (sm_heap s') q = (if q = p then None else map_find (sm_heap s) q)" for q
    using assms(2) by (simp add: drops_def)
  have n: "sm_next s' = sm_next s" "sm_now s' = sm_now s" using assms(2) by (simp_all add: drops_def)
  have snd: "map_find (sm_senders s) t = Some q \<and> q \<noteq> p" if "map_find (sm_senders s') t = Some q" for t q
    using assms(2) that by (fastforce simp: drops_def split: option.splits if_splits)
  have rcv: "sm_receiver s = Some q \<and> q \<noteq> p" if "sm_receiver s' = Some q" for q
    using assms(2) that by (fastforce simp: drops_def split: option.splits if_splits)
  show ?thesis
    unfolding sessions_ok_def h n
  proof (intro conjI allI impI)
    fix q so assume "(if q = p then None else map_find (sm_heap s) q) = Some so"
    then have "q \<noteq> p" "map_find (sm_heap s) q = Some so" by (auto split: if_splits)
    then show "q < sm_next s" "so_token so = uuid q" "so_deadline so \<le> sm_now s + SESSION_SECONDS"
      "sm_now s < so_deadline so \<or> q \<in> D - {p}"
      using ok_heap [OF ok] by auto
  next
    fix t q assume "map_find (sm_senders s') t = Some q"
    then have "map_find (sm_senders s) t = Some q" "q \<noteq> p" using snd by auto
    then show "\<exists>so. (if q = p then None else map_find (sm_heap s) q) = Some so \<and> so_token so = t \<and> \<not> so_receiver so"
      by (auto elim: ok_sender [OF ok])
  next
    fix q assume "sm_receiver s' = Some q"
    then have "sm_receiver s = Some q" "q \<noteq> p" using rcv by auto
    then show "\<exists>so. (if q = p then None else map_find (sm_heap s) q) = Some so \<and> so_receiver so"
      by (auto elim: ok_receiver [OF ok])
  qed (use assms in auto)
qed

lemma onTimeout_drops:
  assumes ok: "sessions_ok uuid (insert p D) s" and inj: "inj uuid" and live: "map_find (sm_heap s) p = Some so"
  shows "\<exists>s'. onTimeout p s = Inr s' \<and> drops {p} s s' \<and> sessions_ok uuid (D - {p}) s'"
proof -
  note wf = ok_wf [OF ok]
  have tok: "so_token so = uuid p" using ok_heap [OF ok live] by simp
  have snd: "map_find (sm_senders s) t = Some q \<Longrightarrow> t = uuid q" for t q
    by (auto elim: ok_sender [OF ok])
  have sp: "map_find (sm_senders s) t \<noteq> Some p" if "so_receiver so" for t
    using live that by (auto elim!: ok_sender [OF ok])
  have rp: "sm_receiver s \<noteq> Some p" if "\<not> so_receiver so"
    using live that by (auto elim!: ok_receiver [OF ok])
  have "\<exists>s'. onTimeout p s = Inr s' \<and> drops {p} s s' \<and> map_wf (sm_heap s') \<and> map_wf (sm_senders s')"
  proof (cases "so_receiver so")
    case False
    define s' where "s' = (snd (disconnectSender (uuid p) s))\<lparr>sm_heap := map_erase p (sm_heap s)\<rparr>"
    have "onTimeout p s = Inr s'"
      using live False tok by (simp add: onTimeout_def get_session_def onSenderTimeout_def s'_def
        disconnectSender_def removeSender_def split: option.splits)
    moreover have "drops {p} s s'"
    proof -
      have key: "x = uuid p" if "map_find (sm_senders s) x = Some p" for x using snd that by simp
      have val: "q = p" if "map_find (sm_senders s) (uuid p) = Some q" for q
        using snd [OF that] inj by (simp add: inj_eq)
      have "map_find (map_erase (uuid p) (sm_senders s)) x =
          (case map_find (sm_senders s) x of None \<Rightarrow> None | Some q \<Rightarrow> if q \<in> {p} then None else Some q)" for x
      proof (cases "x = uuid p")
        case True
        with wf show ?thesis by (auto simp: map_find_erase dest: val split: option.splits)
      next
        case False
        then have "map_find (sm_senders s) x \<noteq> Some p" using key by blast
        with wf False show ?thesis by (auto simp: map_find_erase split: option.splits)
      qed
      moreover have "sm_senders s' = map_erase (uuid p) (sm_senders s)" "sm_receiver s' = sm_receiver s"
        "sm_next s' = sm_next s" "sm_now s' = sm_now s" "sm_heap s' = map_erase p (sm_heap s)"
        using map_erase_absent [of "sm_senders s" "uuid p"]
        by (auto simp: s'_def disconnectSender_def removeSender_def split: option.splits)
      ultimately show ?thesis using wf rp [OF False]
        by (simp add: drops_def map_find_erase split: option.splits)
    qed
    moreover have "map_wf (sm_heap s') \<and> map_wf (sm_senders s')"
      using wf by (auto simp: s'_def disconnectSender_def removeSender_def split: option.splits)
    ultimately show ?thesis by blast
  next
    case True
    show ?thesis
    proof (cases "sm_receiver s")
      case None
      have "drops {p} s (s\<lparr>sm_heap := map_erase p (sm_heap s)\<rparr>)"
        using wf sp [OF True] None by (auto simp: drops_def map_find_erase split: option.splits)
      then show ?thesis using live True None wf
        by (simp add: onTimeout_def get_session_def onReceiverTimeout_def)
    next
      case (Some q)
      obtain ro where ro: "map_find (sm_heap s) q = Some ro" by (rule ok_receiver [OF ok Some])
      have "so_token ro = uuid q" using ok_heap [OF ok ro] by simp
      define s' where "s' = (if q = p then (notify (ReceiverDisconnected (so_appId ro)) s)\<lparr>sm_receiver := None,
         sm_heap := map_erase p (sm_heap s)\<rparr> else s\<lparr>sm_heap := map_erase p (sm_heap s)\<rparr>)"
      have "onTimeout p s = Inr s'"
        using live True tok ro Some \<open>so_token ro = uuid q\<close> inj
        by (simp add: onTimeout_def get_session_def onReceiverTimeout_def s'_def inj_eq)
      moreover have "drops {p} s s'"
        using wf sp [OF True] Some by (auto simp: drops_def s'_def map_find_erase split: option.splits)
      moreover have "map_wf (sm_heap s') \<and> map_wf (sm_senders s')" using wf by (simp add: s'_def)
      ultimately show ?thesis by blast
    qed
  qed
  then show ?thesis using drops_ok [OF ok] by blast
qed

lemma timeouts_drop:
  "sessions_ok uuid (set ps) s \<Longrightarrow> inj uuid \<Longrightarrow> distinct ps \<Longrightarrow>
   \<forall>p \<in> set ps. map_find (sm_heap s) p \<noteq> None \<Longrightarrow>
   \<exists>s'. foldE (\<lambda>t p. onTimeout p t) s ps = Inr s' \<and> drops (set ps) s s' \<and> sessions_ok uuid {} s'"
proof (induction ps arbitrary: s)
  case Nil
  then show ?case by (auto simp: drops_def split: option.splits)
next
  case (Cons p ps)
  then obtain so where so: "map_find (sm_heap s) p = Some so" by auto
  have "sessions_ok uuid (insert p (set ps)) s" using Cons.prems(1) by simp
  from onTimeout_drops [OF this Cons.prems(2) so] Cons.prems(3)
  obtain s1 where s1: "onTimeout p s = Inr s1" "drops {p} s s1" "sessions_ok uuid (set ps) s1" by auto
  have "\<forall>q \<in> set ps. map_find (sm_heap s1) q \<noteq> None"
    using s1(2) Cons.prems(3,4) by (auto simp: drops_def)
  then obtain s2 where s2: "foldE (\<lambda>t p. onTimeout p t) s1 ps = Inr s2" "drops (set ps) s1 s2" "sessions_ok uuid {} s2"
    using Cons.IH [OF s1(3) Cons.prems(2)] Cons.prems(3) by auto
  have "drops (set (p # ps)) s s2" using drops_trans [OF s1(2) s2(2)] by simp
  with s1 s2 show ?case by auto
qed

lemma due_iff:
  "map_wf (sm_heap s) \<Longrightarrow> p \<in> set (due s) \<longleftrightarrow> (\<exists>so. map_find (sm_heap s) p = Some so \<and> so_deadline so = sm_now s)"
  by (force simp: due_def map_find_iff)

lemma distinct_due: "map_wf (sm_heap s) \<Longrightarrow> distinct (due s)"
proof -
  assume "map_wf (sm_heap s)"
  then have "distinct (map fst (sm_heap s))" by (simp add: map_wf_def strict_sorted_iff)
  then show ?thesis by (simp add: due_def distinct_map_filter)
qed

lemma step_SSecond:
  assumes ok: "sessions_ok uuid {} s" and inj: "inj uuid"
  shows "\<exists>s'. session_step uuid s SSecond = Inr s' \<and> sessions_ok uuid {} s'
    \<and> session_abs s' = spec_step uuid (session_abs s) SSecond"
proof -
  define t where "t = s\<lparr>sm_now := sm_now s + 1\<rparr>"
  have wf: "map_wf (sm_heap t)" using ok_wf [OF ok] by (simp add: t_def)
  have ok': "sessions_ok uuid (set (due t)) t"
  proof -
    have "so_deadline so \<le> sm_now t + SESSION_SECONDS \<and> (sm_now t < so_deadline so \<or> p \<in> set (due t))"
      if "map_find (sm_heap s) p = Some so" for p so
      using ok_heap [OF ok that] that wf by (auto simp: due_iff t_def)
    with ok show ?thesis by (simp add: sessions_ok_def) (simp add: t_def)
  qed
  have "\<forall>p \<in> set (due t). map_find (sm_heap t) p \<noteq> None" using due_iff [OF wf] by auto
  then obtain s' where s': "foldE (\<lambda>t p. onTimeout p t) t (due t) = Inr s'" "drops (set (due t)) t s'" "sessions_ok uuid {} s'"
    using timeouts_drop [OF ok' inj distinct_due [OF wf]] by auto
  have left: "session_left s' p = (if p \<in> set (due t) then 0 else session_left s p - 1)
      \<and> (session_left s p \<le> 1 \<longleftrightarrow> p \<in> set (due t)) \<and> (p \<notin> set (due t) \<longrightarrow> session_app s' p = session_app s p)"
    if so: "map_find (sm_heap s) p = Some so" for p so
  proof -
    have d: "p \<in> set (due t) \<longleftrightarrow> so_deadline so = sm_now s + 1"
      using so by (simp add: due_iff [OF wf]) (simp add: t_def)
    have h: "map_find (sm_heap s') p = (if p \<in> set (due t) then None else Some so)" "sm_now s' = sm_now s + 1"
      using s'(2) so by (simp_all add: drops_def t_def)
    show ?thesis
      using h so ok_heap [OF ok so] by (simp add: session_left_def session_app_def) (auto simp: d)
  qed
  have senders: "map_option (session_left s') (map_find (sm_senders s') x) =
      one_second (map_option (session_left s) (map_find (sm_senders s) x))" for x
  proof (cases "map_find (sm_senders s) x")
    case None
    with s'(2) show ?thesis by (simp add: drops_def t_def one_second_def)
  next
    case (Some q)
    then obtain so where "map_find (sm_heap s) q = Some so" by (rule ok_sender [OF ok])
    with s'(2) Some left [of q so] show ?thesis by (auto simp: drops_def t_def one_second_def)
  qed
  have receiver: "map_option (\<lambda>p. (session_app s' p, session_left s' p)) (sm_receiver s') =
      (case map_option (\<lambda>p. (session_app s p, session_left s p)) (sm_receiver s) of None \<Rightarrow> None
       | Some (x, n) \<Rightarrow> map_option (Pair x) (one_second (Some n)))"
  proof (cases "sm_receiver s")
    case None
    with s'(2) show ?thesis by (simp add: drops_def t_def)
  next
    case (Some q)
    then obtain so where "map_find (sm_heap s) q = Some so" by (rule ok_receiver [OF ok])
    with s'(2) Some left [of q so] show ?thesis by (auto simp: drops_def t_def one_second_def)
  qed
  have "sm_next s' = sm_next s" using s'(2) by (simp add: drops_def t_def)
  then have "session_abs s' = spec_step uuid (session_abs s) SSecond"
    using senders receiver by (simp add: session_abs_def getSender_def)
  then show ?thesis using s' by (auto simp: second_def t_def)
qed

section \<open>Runs\<close>

lemma session_step_ok:
  assumes ok: "sessions_ok uuid {} s" and inj: "inj uuid"
  shows "\<exists>s'. session_step uuid s e = Inr s' \<and> sessions_ok uuid {} s'
    \<and> session_abs s' = spec_step uuid (session_abs s) e"
  by (cases e) (simp_all only: step_CreateSender [OF ok inj] step_STouchSender [OF ok inj]
      step_SDisconnectSender [OF ok] step_SCreateReceiver [OF ok] step_STouchReceiver [OF ok inj]
      step_SDisconnectReceiver [OF ok] step_SListener [OF ok] step_SSecond [OF ok inj])

interpretation sessions: safe_machine "session_step uuid" "\<lambda>s. sessions_ok uuid {} s \<and> inj uuid"
  for uuid
proof unfold_locales
  fix s e assume "sessions_ok uuid {} s \<and> inj uuid"
  then show "\<exists>s'. session_step uuid s e = Inr s'" using session_step_ok by blast
next
  fix s e s' assume "sessions_ok uuid {} s \<and> inj uuid" "session_step uuid s e = Inr s'"
  then show "sessions_ok uuid {} s' \<and> inj uuid" using session_step_ok [of uuid s e] by auto
qed

lemma step_refines:
  "sessions_ok uuid {} s \<Longrightarrow> inj uuid \<Longrightarrow> session_step uuid s e = Inr s' \<Longrightarrow>
   session_abs s' = spec_step uuid (session_abs s) e"
  using session_step_ok [of uuid s e] by auto

lemma init_sessions_ok: "sessions_ok uuid {} init_sessions"
  by (simp add: sessions_ok_def init_sessions_def)

lemma session_manager_run: "inj uuid \<Longrightarrow> \<exists>s. foldE (session_step uuid) init_sessions es = Inr s"
  using sessions.run_safe [of uuid init_sessions es] init_sessions_ok by blast

lemma session_run_refines:
  "sessions_ok uuid {} s \<Longrightarrow> inj uuid \<Longrightarrow> foldE (session_step uuid) s es = Inr s' \<Longrightarrow>
   session_abs s' = foldl (spec_step uuid) (session_abs s) es"
proof (induction es arbitrary: s)
  case (Cons e es)
  then obtain t where t: "session_step uuid s e = Inr t" "foldE (session_step uuid) t es = Inr s'" by auto
  then have "sessions_ok uuid {} t" using sessions.step_inv Cons.prems by blast
  with t Cons show ?case by (simp add: step_refines)
qed simp


lemma inj_replicate: "inj (\<lambda>n. replicate n c)"
  by (rule injI) (metis length_replicate)


text \<open>A sender nobody touches counts down, in the specification.\<close>

definition seconds :: "session_event list \<Rightarrow> nat" where
  "seconds es = length (filter (\<lambda>e. e = SSecond) es)"

lemma seconds_simps [simp]:
  "seconds [] = 0" "seconds (e # es) = (if e = SSecond then 1 else 0) + seconds es"
  by (simp_all add: seconds_def)

lemma spec_countdown:
  "inj uuid \<Longrightarrow> \<forall>e \<in> set es. e \<noteq> STouchSender t \<and> e \<noteq> SDisconnectSender t \<Longrightarrow>
   (\<forall>n \<ge> sp_fresh a. uuid n \<noteq> t) \<Longrightarrow> (\<forall>k. sp_senders a t = Some k \<longrightarrow> 0 < k) \<Longrightarrow>
   sp_senders (foldl (spec_step uuid) a es) t =
     (case sp_senders a t of None \<Rightarrow> None | Some k \<Rightarrow> if seconds es < k then Some (k - seconds es) else None)"
proof (induction es arbitrary: a)
  case Nil
  then show ?case by (auto split: option.splits)
next
  case (Cons e es)
  have "sp_senders (spec_step uuid a e) t = (if e = SSecond then one_second (sp_senders a t) else sp_senders a t)"
    and "\<forall>n \<ge> sp_fresh (spec_step uuid a e). uuid n \<noteq> t"
    using Cons.prems by (cases e; auto)+
  moreover from this have "\<forall>k. sp_senders (spec_step uuid a e) t = Some k \<longrightarrow> 0 < k"
    using Cons.prems by (auto simp: one_second_def split: option.splits if_splits)
  ultimately show ?case
    using Cons.IH [of "spec_step uuid a e"] Cons.prems
    by (auto simp: one_second_def split: option.splits)
qed

text \<open>
  C13. A session lives ten seconds past its last heartbeat: after a heartbeat for a token that is
  known, and as long as neither a heartbeat nor a disconnect for it follows, the token is known
  exactly until ten seconds have passed, whatever the other senders and the receiver do.
\<close>

theorem sender_lives_ten_seconds:
  assumes inj: "inj uuid"
    and run: "foldE (session_step uuid) init_sessions (es @ [STouchSender t]) = Inr s"
    and known: "getSender s t \<noteq> None"
    and quiet: "\<forall>e \<in> set fs. e \<noteq> STouchSender t \<and> e \<noteq> SDisconnectSender t"
    and rest: "foldE (session_step uuid) s fs = Inr s'"
  shows "getSender s' t \<noteq> None \<longleftrightarrow> seconds fs < 10"
proof -
  obtain r where r: "foldE (session_step uuid) init_sessions es = Inr r" "session_step uuid r (STouchSender t) = Inr s"
    using run by (auto simp: foldE_append)
  have ok: "sessions_ok uuid {} r" "sessions_ok uuid {} s"
    using sessions.run_inv [of uuid init_sessions, OF _ r(1)] sessions.run_inv [of uuid init_sessions, OF _ run]
      inj init_sessions_ok by simp_all
  obtain p where p: "map_find (sm_senders s) t = Some p" using known by (auto simp: getSender_def)
  have "t = uuid p" "p < sm_next s" using ok_sender [OF ok(2) p] by metis+
  then have fresh: "\<forall>n \<ge> sp_fresh (session_abs s). uuid n \<noteq> t"
    using inj by (simp add: session_abs_def inj_eq)
  have "session_abs s = spec_step uuid (session_abs r) (STouchSender t)" by (rule step_refines [OF ok(1) inj r(2)])
  moreover have "sp_senders (session_abs s) t \<noteq> None" using known by (simp add: session_abs_def)
  ultimately have "sp_senders (session_abs s) t = Some 10" by (auto split: if_splits)
  then have "sp_senders (session_abs s') t = (if seconds fs < 10 then Some (10 - seconds fs) else None)"
    using spec_countdown [OF inj quiet fresh] session_run_refines [OF ok(2) inj rest] by simp
  then show ?thesis by (auto simp: session_abs_def split: if_splits)
qed

theorem sender_lives_ten_seconds_witness:
  "\<exists>s s'. foldE (session_step (\<lambda>n. replicate n CHR ''u'')) init_sessions ([SCreateSender ''a''] @ [STouchSender []]) = Inr s
     \<and> foldE (session_step (\<lambda>n. replicate n CHR ''u'')) s [SSecond, SSecond] = Inr s'
     \<and> getSender s' [] \<noteq> None"
proof -
  let ?u = "\<lambda>n. replicate n CHR ''u''"
  obtain s where s: "foldE (session_step ?u) init_sessions ([SCreateSender ''a''] @ [STouchSender []]) = Inr s"
    by (rule exE [OF session_manager_run [OF inj_replicate]])
  have ok: "sessions_ok ?u {} s"
    using sessions.run_inv [of ?u init_sessions, OF _ s] init_sessions_ok inj_replicate [of "CHR ''u''"] by simp
  have "session_abs s = foldl (spec_step ?u) (session_abs init_sessions) ([SCreateSender ''a''] @ [STouchSender []])"
    by (rule session_run_refines [OF init_sessions_ok inj_replicate s])
  then have "sp_senders (session_abs s) [] \<noteq> None" by (simp add: session_abs_def init_sessions_def)
  then have known: "getSender s [] \<noteq> None" by (simp add: session_abs_def)
  obtain s' where s': "foldE (session_step ?u) s [SSecond, SSecond] = Inr s'"
    using sessions.run_safe [of ?u s "[SSecond, SSecond]", OF conjI [OF ok inj_replicate]] by (elim exE conjE)
  have "getSender s' [] \<noteq> None \<longleftrightarrow> seconds [SSecond, SSecond] < 10"
    by (rule sender_lives_ten_seconds [OF inj_replicate s known _ s']) simp
  moreover have "seconds [SSecond, SSecond] < 10" by simp
  ultimately have "getSender s' [] \<noteq> None" by simp
  with s s' show ?thesis by (intro exI conjI)
qed

section \<open>What the listener is told\<close>

definition told_ok :: "session_manager \<Rightarrow> bool" where
  "told_ok s \<longleftrightarrow> sm_listener s \<and> map_wf (sm_senders s) \<and>
     (\<forall>t. count_list (sm_calls s) (SenderConnected t) =
        count_list (sm_calls s) (SenderDisconnected t) + (if getSender s t = None then 0 else 1))"

lemma told_disconnect: "told_ok s \<Longrightarrow> told_ok (snd (disconnectSender t s))"
  by (auto simp: told_ok_def disconnectSender_def removeSender_def getSender_def map_find_erase split: option.splits)

lemma told_frame:
  "told_ok s \<Longrightarrow> sm_senders s' = sm_senders s \<Longrightarrow> sm_listener s' = sm_listener s \<Longrightarrow>
   sm_calls s' = sm_calls s @ cs \<Longrightarrow> (\<forall>t. SenderConnected t \<notin> set cs \<and> SenderDisconnected t \<notin> set cs) \<Longrightarrow> told_ok s'"
  by (simp add: told_ok_def getSender_def)

lemma told_timeout: "told_ok s \<Longrightarrow> onTimeout p s = Inr s' \<Longrightarrow> told_ok s'"
proof -
  assume s: "told_ok s" "onTimeout p s = Inr s'"
  have fr: "told_ok u \<Longrightarrow> told_ok (u\<lparr>sm_heap := h\<rparr>)" for u h by (simp add: told_ok_def getSender_def)
  have rc: "told_ok s1" if "onReceiverTimeout x s = Inr s1" for x s1
  proof -
    have "sm_senders s1 = sm_senders s" "sm_listener s1 = sm_listener s"
      and "sm_calls s1 = sm_calls s \<or> (\<exists>a. sm_calls s1 = sm_calls s @ [ReceiverDisconnected a])"
      using that by (auto simp: onReceiverTimeout_def split: option.splits if_splits)
    with s(1) show ?thesis by (auto intro: told_frame [of s s1 "[]"] told_frame [of s s1 "[ReceiverDisconnected _]"])
  qed
  from s show ?thesis
    by (auto simp: onTimeout_def onSenderTimeout_def told_disconnect split: if_splits intro!: fr dest!: rc)
qed

lemma told_timeouts: "told_ok s \<Longrightarrow> foldE (\<lambda>t p. onTimeout p t) s ps = Inr s' \<Longrightarrow> told_ok s'"
  by (induction ps arbitrary: s) (auto dest: told_timeout)


lemma triggerTimer_frame:
  "triggerTimer p s = Inr s' \<Longrightarrow> sm_senders s' = sm_senders s \<and> sm_listener s' = sm_listener s \<and> sm_calls s' = sm_calls s"
  by (auto simp: triggerTimer_def)

lemma told_step:
  assumes ok: "sessions_ok uuid {} s" and inj: "inj uuid" and told: "told_ok s"
    and step: "session_step uuid s e = Inr s'" and nl: "\<And>b. e \<noteq> SListener b"
  shows "told_ok s'"
proof (cases e)
  case (SCreateSender appId)
  have tok: "map_find (sm_senders s) (uuid (sm_next s)) = None" by (rule fresh_token [OF ok inj])
  then have nc: "\<not> checkSender s (uuid (sm_next s))" using ok_wf [OF ok] by (simp add: checkSender_iff getSender_def)
  have "sm_senders s' = map_insert (uuid (sm_next s)) (sm_next s) (sm_senders s)" "sm_listener s' = sm_listener s"
    "sm_calls s' = sm_calls s @ (if sm_listener s then [SenderConnected (uuid (sm_next s))] else [])"
    using step nc SCreateSender
    by (auto simp: createSender_def new_session_def addSender_def checkSender_def Let_def dest!: triggerTimer_frame)
  with told tok show ?thesis by (auto simp: told_ok_def getSender_def map_find_insert)
next
  case (SDisconnectSender t)
  with told step show ?thesis by (auto intro: told_disconnect)
next
  case SSecond
  have "told_ok (s\<lparr>sm_now := sm_now s + 1\<rparr>)" using told by (simp add: told_ok_def getSender_def)
  with SSecond step show ?thesis by (auto simp: second_def Let_def dest: told_timeouts)
next
  case (SListener b)
  with nl [of b] show ?thesis by simp
next
  case (STouchSender t)
  then have "sm_senders s' = sm_senders s \<and> sm_listener s' = sm_listener s \<and> sm_calls s' = sm_calls s"
    using step by (auto simp: touchSender_def dest!: triggerTimer_frame split: option.splits)
  with told show ?thesis by (simp add: told_ok_def getSender_def)
next
  case (SCreateReceiver appId)
  then have "sm_senders s' = sm_senders s \<and> sm_listener s' = sm_listener s \<and> sm_calls s' = sm_calls s"
    using step by (auto simp: createReceiver_def new_session_def Let_def dest!: triggerTimer_frame split: if_splits)
  with told show ?thesis by (simp add: told_ok_def getSender_def)
next
  case (STouchReceiver appId)
  then have "sm_senders s' = sm_senders s \<and> sm_listener s' = sm_listener s \<and> sm_calls s' = sm_calls s"
    using step by (auto simp: touchReceiver_def dest!: triggerTimer_frame split: option.splits)
  with told show ?thesis by (simp add: told_ok_def getSender_def)
next
  case (SDisconnectReceiver appId)
  then have "sm_senders s' = sm_senders s \<and> sm_listener s' = sm_listener s \<and> sm_calls s' = sm_calls s"
    using step by (auto simp: disconnectReceiver_def split: option.splits if_splits)
  with told show ?thesis by (simp add: told_ok_def getSender_def)
qed

lemma told_run:
  "sessions_ok uuid {} s \<Longrightarrow> inj uuid \<Longrightarrow> told_ok s \<Longrightarrow> \<forall>b. SListener b \<notin> set es \<Longrightarrow>
   foldE (session_step uuid) s es = Inr s' \<Longrightarrow> told_ok s'"
proof (induction es arbitrary: s)
  case (Cons e es)
  then obtain t where t: "session_step uuid s e = Inr t" "foldE (session_step uuid) t es = Inr s'" by auto
  have "sessions_ok uuid {} t" using sessions.step_inv t Cons.prems(1,2) by blast
  moreover have "told_ok t" using told_step [OF Cons.prems(1-3) t(1)] Cons.prems(4) by fastforce
  ultimately show ?case using Cons.IH Cons.prems t(2) by simp
qed simp



end
