(* ===== verification/AppControl.thy ===== *)
theory AppControl
  imports Http Application Session
begin

text \<open>
  The REST interface that launches, joins and stops receiver applications:
  \<open>ApplicationControlHandler\<close>, \<open>DialHandler\<close> with \<open>DialConfig\<close>, and the routing of \<open>FlintServer\<close>
  (flint/src/flint). A handler is its constructor: it answers one request. The handlers work on the
  application manager and on the session manager together; \<open>plat\<close> says which applications the
  platform can launch, \<open>uuid\<close> gives the tokens, \<open>parse\<close> and \<open>text\<close> are the JSON library.
\<close>

section \<open>State\<close>

record flint =
  fl_apps :: app_manager
  fl_sessions :: session_manager
  fl_reply :: http_response

definition on_apps :: "(app_manager \<Rightarrow> fault + app_manager) \<Rightarrow> flint \<Rightarrow> fault + flint" where
  "on_apps f s = bindE (f (fl_apps s)) (\<lambda>m. Inr (s\<lparr>fl_apps := m\<rparr>))"

definition reply_status :: "nat \<Rightarrow> flint \<Rightarrow> flint" where
  "reply_status code s = s\<lparr>fl_reply := response_status code (fl_reply s)\<rparr>"

definition reply_body :: "nat \<Rightarrow> (string, string) std_map \<Rightarrow> string \<Rightarrow> flint \<Rightarrow> flint" where
  "reply_body code headers body s = s\<lparr>fl_reply := response_body code headers body (fl_reply s)\<rparr>"

definition alive_app :: "flint \<Rightarrow> fault + app option" where
  "alive_app s =
     (case getAliveApplication (fl_apps s) of
        None \<Rightarrow> Inr None
      | Some p \<Rightarrow> bindE (get_app (fl_apps s) p) (\<lambda>a. Inr (Some a)))"

definition new_app :: "string \<Rightarrow> string \<Rightarrow> bool \<Rightarrow> int \<Rightarrow> string \<Rightarrow> flint \<Rightarrow> nat \<times> flint" where
  "new_app appId appUrl useIpc maxInactive appInfoRaw s =
     (let m = fl_apps s; p = am_next m
      in (p, s\<lparr>fl_apps := m\<lparr>am_heap := map_insert p (new_Application appId appUrl useIpc maxInactive appInfoRaw) (am_heap m),
                am_next := p + 1\<rparr>\<rparr>))"

section \<open>ApplicationControlHandler\<close>

definition parseAppId :: "string \<Rightarrow> string" where
  "parseAppId path = ierase_all ''/run'' (ierase_all ''/apps/'' path)"

definition isRunningInstance :: "string \<Rightarrow> string \<Rightarrow> bool" where
  "isRunningInstance path appId \<longleftrightarrow> ierase_all appId (ierase_all ''/apps/'' path) = ''/run''"

definition NL :: string where "NL = [char_of (10 :: nat)]"
definition QUOTE :: string where "QUOTE = [char_of (34 :: nat)]"
definition APOS :: string where "APOS = [char_of (39 :: nat)]"

definition service_xml :: "string \<Rightarrow> app option \<Rightarrow> string" where
  "service_xml appId running =
     concat [''<?xml version='', APOS, ''1.0'', APOS, '' encoding='', APOS, ''UTF-8'', APOS, ''?>'', NL,
       ''<service xmlns='', APOS, ''urn:dial-multiscreen-org:schemas:dial'', APOS, ''>'', NL,
       ''  <name>'', appId, ''</name>'', NL, ''  <options allowStop='', APOS, ''true'', APOS, ''/>'', NL,
       (case running of
          Some app \<Rightarrow> concat [''  <state>'', ap_appState app, ''</state>'', NL,
            ''  <link rel='', QUOTE, ''run'', QUOTE, '' href='', QUOTE, ''run'', QUOTE, ''/>'', NL,
            ''  <additionalData>'', ap_additionalData app, ''</additionalData>'', NL]
        | None \<Rightarrow> concat [''  <state>'', ''stopped'', ''</state>'', NL]),
       ''</service>'', NL]"

definition onGet :: "http_request \<Rightarrow> string \<Rightarrow> flint \<Rightarrow> fault + flint" where
  "onGet rq appId s =
     (let authToken = hq_header rq ''authorization''
      in if authToken \<noteq> [] \<and> \<not> checkSender (fl_sessions s) authToken then Inr (reply_status HTTP_BAD_REQUEST s)
         else bindE (if authToken \<noteq> [] then
                       bindE (touchSender authToken (fl_sessions s)) (\<lambda>(_, ss). Inr (s\<lparr>fl_sessions := ss\<rparr>))
                     else Inr s) (\<lambda>s1.
              bindE (alive_app s1) (\<lambda>app.
              let running = (case app of Some a \<Rightarrow> if ap_appId a = appId then Some a else None | None \<Rightarrow> None)
              in Inr (reply_body HTTP_OK [(''Content-Type'', ''application/xm'')] (service_xml appId running) s1))))"

definition doLaunch ::
  "(string \<Rightarrow> bool) \<Rightarrow> (string \<Rightarrow> json) \<Rightarrow> string \<Rightarrow> string \<Rightarrow> flint \<Rightarrow> fault + flint" where
  "doLaunch plat parse appId appInfoRaw s =
     (let appInfo = parse (cstr appInfoRaw)
      in bindE (bindE (js_member appInfo ''url'') js_string) (\<lambda>url.
         bindE (bindE (js_member appInfo ''useIpc'') js_bool) (\<lambda>useIpc.
         bindE (bindE (js_member appInfo ''maxInactive'') js_int) (\<lambda>maxInactive.
         let (p, s1) = new_app appId url useIpc maxInactive appInfoRaw s
         in on_apps (launchApplication plat p) s1))))"

definition doStop :: "(string \<Rightarrow> bool) \<Rightarrow> string \<Rightarrow> flint \<Rightarrow> fault + flint" where
  "doStop plat appId s = on_apps (stopApplicationByAppId plat appId) s"

definition token_body :: "(json \<Rightarrow> string) \<Rightarrow> string \<Rightarrow> string" where
  "token_body text authToken = cstr (text (JObj [(''token'', jstr authToken), (''interval'', JInt 3000)]))"

text \<open>What \<open>onPost\<close> decides for a type, given the application that is alive: whether it stops that one, whether it
  launches, and the status of the answer.\<close>

datatype post_action = Reject | Answer nat | Relaunch string | Launch

definition post_action :: "string \<Rightarrow> string \<Rightarrow> app option \<Rightarrow> post_action" where
  "post_action typeStr appId running =
     (case running of
        Some app \<Rightarrow>
          if typeStr = ''launch'' then
            (if ap_appId app = appId then Answer HTTP_OK else Relaunch (ap_appId app))
          else if typeStr = ''relaunch'' then (if ap_appId app = appId then Relaunch appId else Reject)
          else if typeStr = ''join'' then (if ap_appId app = appId then Answer HTTP_OK else Reject)
          else Answer HTTP_INTERNAL_ERROR
      | None \<Rightarrow>
          if typeStr = ''launch'' then Launch
          else if typeStr = ''relaunch'' \<or> typeStr = ''join'' then Reject
          else Answer HTTP_INTERNAL_ERROR)"

definition post_headers :: "(string, string) std_map" where
  "post_headers = [(''Cache-Control'', ''no-cache, must-revalidate, no-store''), (''Content-Type'', ''application/json'')]"

definition post_token ::
  "(nat \<Rightarrow> string) \<Rightarrow> string \<Rightarrow> string \<Rightarrow> flint \<Rightarrow> fault + string \<times> flint" where
  "post_token uuid appId authToken s =
     (if authToken \<noteq> [] then
        bindE (touchSender authToken (fl_sessions s)) (\<lambda>(_, ss). Inr (authToken, s\<lparr>fl_sessions := ss\<rparr>))
      else
        bindE (createSender uuid appId (fl_sessions s)) (\<lambda>(p, ss).
        bindE (get_session ss p) (\<lambda>so. Inr (so_token so, s\<lparr>fl_sessions := ss\<rparr>))))"

definition onPost ::
  "(string \<Rightarrow> bool) \<Rightarrow> (nat \<Rightarrow> string) \<Rightarrow> (string \<Rightarrow> json) \<Rightarrow> (json \<Rightarrow> string) \<Rightarrow> http_request \<Rightarrow> string \<Rightarrow> flint
    \<Rightarrow> fault + flint" where
  "onPost plat uuid parse text rq appId s =
     (let data = hq_body rq
      in if data = [] then Inr (reply_status HTTP_BAD_REQUEST s)
         else
           let d = parse (cstr data)
           in if d = JNull then Inr s
              else
                bindE (js_member d ''type'') (\<lambda>type.
                if type = JNull then Inr s
                else
                bindE (js_member d ''app_info'') (\<lambda>appInfo.
                if appInfo = JNull then Inr s
                else
                bindE (js_string type) (\<lambda>typeStr.
                if typeStr \<notin> {''launch'', ''relaunch'', ''join''} then Inr (reply_status HTTP_BAD_REQUEST s)
                else
                bindE (post_token uuid appId (hq_header rq ''authorization'') s) (\<lambda>(authToken, s1).
                bindE (alive_app s1) (\<lambda>app.
                let answer = (\<lambda>code t. Inr (reply_body code post_headers (token_body text authToken) t));
                    launch = doLaunch plat parse appId (cstr (text appInfo))
                in case post_action typeStr appId app of
                     Reject \<Rightarrow> Inr (reply_status HTTP_BAD_REQUEST s1)
                   | Answer code \<Rightarrow> answer code s1
                   | Relaunch old \<Rightarrow> bindE (doStop plat old s1) (\<lambda>s2. bindE (launch s2) (answer HTTP_CREATED))
                   | Launch \<Rightarrow> bindE (launch s1) (answer HTTP_CREATED)))))))"

definition onDelete :: "(string \<Rightarrow> bool) \<Rightarrow> http_request \<Rightarrow> string \<Rightarrow> flint \<Rightarrow> fault + flint" where
  "onDelete plat rq appId s =
     (let isInstance = isRunningInstance (hq_resource rq) appId;
          authToken = hq_header rq ''authorization''
      in if authToken = [] \<or> \<not> checkSender (fl_sessions s) authToken then Inr (reply_status HTTP_BAD_REQUEST s)
         else
           let s1 = s\<lparr>fl_sessions := snd (disconnectSender authToken (fl_sessions s))\<rparr>
           in if isInstance then
                bindE (alive_app s1) (\<lambda>app.
                case app of
                  Some a \<Rightarrow>
                    if ap_appId a = appId then bindE (doStop plat appId s1) (\<lambda>s2. Inr (reply_status HTTP_OK s2))
                    else Inr (reply_status HTTP_BAD_REQUEST s1)
                | None \<Rightarrow> Inr (reply_status HTTP_NOT_FOUND s1))
              else Inr (reply_status HTTP_OK s1))"

definition onOptions :: "flint \<Rightarrow> flint" where
  "onOptions s = reply_status HTTP_OK s"

definition ApplicationControlHandler ::
  "(string \<Rightarrow> bool) \<Rightarrow> (nat \<Rightarrow> string) \<Rightarrow> (string \<Rightarrow> json) \<Rightarrow> (json \<Rightarrow> string) \<Rightarrow> http_request \<Rightarrow> flint \<Rightarrow> fault + flint" where
  "ApplicationControlHandler plat uuid parse text rq s =
     (let appId = parseAppId (hq_resource rq)
      in if appId \<noteq> [] \<and> istarts_with appId ''~'' then
           (if iequals (hq_method rq) ''GET'' then onGet rq appId s
            else if iequals (hq_method rq) ''POST'' then onPost plat uuid parse text rq appId s
            else if iequals (hq_method rq) ''DELETE'' then onDelete plat rq appId s
            else if iequals (hq_method rq) ''OPTIONS'' then Inr (onOptions s)
            else Inr (reply_status HTTP_BAD_REQUEST s))
         else Inr (reply_status HTTP_NOT_FOUND s))"

section \<open>DialConfig and DialHandler\<close>

record dial_config =
  dc_useIpc :: bool
  dc_allow_empty_post_data :: bool
  dc_appId :: string
  dc_url :: string
  dc_maxInactive :: int

definition dial_apps :: "(string, dial_config) std_map" where
  "dial_apps = [(''YouTube'', \<lparr>dc_useIpc = False, dc_allow_empty_post_data = False, dc_appId = ''YouTube'',
     dc_url = ''https://www.youtube.com/tv?$POST_DATA'', dc_maxInactive = -1\<rparr>)]"

fun find_config :: "(string, dial_config) std_map \<Rightarrow> string \<Rightarrow> dial_config option" where
  "find_config [] appId = None"
| "find_config ((k, c) # m) appId = (if iequals appId k then Some c else find_config m appId)"

definition getConfig :: "string \<Rightarrow> dial_config option" where
  "getConfig appId = find_config dial_apps appId"

text \<open>\<open>boost::replace_last_copy\<close>.\<close>

fun has_infix :: "string \<Rightarrow> string \<Rightarrow> bool" where
  "has_infix pat [] = (pat = [])"
| "has_infix pat (c # cs) = (prefix pat (c # cs) \<or> has_infix pat cs)"

fun replace_last :: "string \<Rightarrow> string \<Rightarrow> string \<Rightarrow> string" where
  "replace_last pat rep [] = []"
| "replace_last pat rep (c # cs) =
     (if prefix pat (c # cs) \<and> \<not> has_infix pat cs then rep @ drop (length pat) (c # cs)
      else c # replace_last pat rep cs)"

definition makeDialApplication :: "(json \<Rightarrow> string) \<Rightarrow> string \<Rightarrow> string \<Rightarrow> flint \<Rightarrow> (nat \<times> flint) option" where
  "makeDialApplication text appId data s =
     (case getConfig appId of
        None \<Rightarrow> None
      | Some c \<Rightarrow>
          if data = [] \<and> \<not> dc_allow_empty_post_data c then None
          else
            let url = replace_last ''$POST_DATA'' data (dc_url c);
                appInfoRaw = cstr (text (JObj [(''url'', jstr url), (''useIpc'', JBool (dc_useIpc c)),
                  (''maxInactive'', JInt (dc_maxInactive c))]))
            in Some (new_app appId url (dc_useIpc c) (dc_maxInactive c) appInfoRaw s))"

definition dial_doLaunch ::
  "(string \<Rightarrow> bool) \<Rightarrow> (json \<Rightarrow> string) \<Rightarrow> string \<Rightarrow> string \<Rightarrow> flint \<Rightarrow> fault + bool \<times> flint" where
  "dial_doLaunch plat text appId data s =
     (case makeDialApplication text appId data s of
        None \<Rightarrow> Inr (False, s)
      | Some (p, s1) \<Rightarrow> bindE (on_apps (launchApplication plat p) s1) (\<lambda>s2. Inr (True, s2)))"

definition dial_onGet :: "string \<Rightarrow> flint \<Rightarrow> fault + flint" where
  "dial_onGet appId s =
     bindE (alive_app s) (\<lambda>app.
     let running = (case app of Some a \<Rightarrow> if ap_appId a = appId then Some a else None | None \<Rightarrow> None)
     in Inr (reply_body HTTP_OK [(''Content-Type'', ''application/xm'')] (service_xml appId running) s))"

definition dial_onPost ::
  "(string \<Rightarrow> bool) \<Rightarrow> (json \<Rightarrow> string) \<Rightarrow> http_request \<Rightarrow> string \<Rightarrow> flint \<Rightarrow> fault + flint" where
  "dial_onPost plat text rq appId s =
     (case getConfig appId of
        None \<Rightarrow> Inr (reply_status HTTP_BAD_REQUEST s)
      | Some c \<Rightarrow>
          if hq_body rq = [] \<and> \<not> dc_allow_empty_post_data c then Inr (reply_status HTTP_BAD_REQUEST s)
          else
            let launch = (\<lambda>t. bindE (dial_doLaunch plat text appId (hq_body rq) t) (\<lambda>(ok, t1).
                  Inr (reply_status (if ok then HTTP_CREATED else HTTP_BAD_REQUEST) t1)))
            in bindE (alive_app s) (\<lambda>app.
               case app of
                 Some a \<Rightarrow>
                   if ap_appId a = appId then Inr (reply_status HTTP_OK s)
                   else bindE (doStop plat (ap_appId a) s) launch
               | None \<Rightarrow> launch s))"

definition dial_onDelete :: "(string \<Rightarrow> bool) \<Rightarrow> string \<Rightarrow> flint \<Rightarrow> fault + flint" where
  "dial_onDelete plat appId s =
     bindE (alive_app s) (\<lambda>app.
     case app of
       Some a \<Rightarrow>
         if ap_appId a = appId then bindE (doStop plat appId s) (\<lambda>s1. Inr (reply_status HTTP_OK s1))
         else Inr (reply_status HTTP_BAD_REQUEST s)
     | None \<Rightarrow> Inr (reply_status HTTP_NOT_FOUND s))"

definition DialHandler :: "(string \<Rightarrow> bool) \<Rightarrow> (json \<Rightarrow> string) \<Rightarrow> http_request \<Rightarrow> flint \<Rightarrow> fault + flint" where
  "DialHandler plat text rq s =
     (let appId = parseAppId (hq_resource rq)
      in if appId \<noteq> [] then
           (if iequals (hq_method rq) ''GET'' then dial_onGet appId s
            else if iequals (hq_method rq) ''POST'' then dial_onPost plat text rq appId s
            else if iequals (hq_method rq) ''DELETE'' then dial_onDelete plat appId s
            else if iequals (hq_method rq) ''OPTIONS'' then Inr (onOptions s)
            else Inr (reply_status HTTP_BAD_REQUEST s))
         else Inr (reply_status HTTP_NOT_FOUND s))"

end
