(* ===== verification/RestApi.thy ===== *)
theory RestApi
  imports AppControl
begin

text \<open>
  What the REST interface of \<open>AppControl\<close> guarantees: the paths it takes apart, the requests it
  turns away, and the effect of a launch request on the application manager, which is that of the
  manager's own events.
\<close>

section \<open>Paths\<close>

lemma ierase_apps: "ierase_all ''/apps/'' (''/apps/'' @ s) = ierase_all ''/apps/'' s"
  by (rule ierase_all_prefix) simp_all

lemma ierase_none: "CHR ''/'' \<notin> set w \<Longrightarrow> ierase_all (CHR ''/'' # ps) w = w"
  using ierase_path_word [of w ps "[]"] by simp

lemma apps_erased: "path_word w \<Longrightarrow> ierase_all ''/apps/'' (''/apps/'' @ w @ ''/run'') = w @ ''/run''"
proof -
  assume w: "path_word w"
  have "ierase_all ''/apps/'' ''/run'' = ''/run''" by code_simp
  with w show ?thesis by (simp add: ierase_apps path_word_def ierase_path_word del: append_Cons append_Nil)
qed

lemma apps_erased_plain: "path_word w \<Longrightarrow> ierase_all ''/apps/'' (''/apps/'' @ w) = w"
  by (simp add: ierase_apps path_word_def ierase_none del: append_Cons append_Nil)

lemma tilde_not_in_run: "ierase_all (CHR ''~'' # ps) ''/run'' = ''/run''"
proof -
  have "\<forall>c \<in> set ''/run''. toupper c \<noteq> toupper (CHR ''~'')" by code_simp
  from ierase_all_absent [OF this, of ps "[]"] show ?thesis by simp
qed

text \<open>
  The paths of the interface are taken apart as they are built: from \<open>/apps/\<close> and an id the
  handler reads the id, with or without \<open>/run\<close> behind it, and for the ids of the interface, which
  begin with a tilde, \<open>/run\<close> is recognised exactly where it is.
\<close>

theorem app_path_roundtrip:
  assumes "path_word (CHR ''~'' # w)"
  shows "parseAppId (''/apps/'' @ CHR ''~'' # w) = CHR ''~'' # w
    \<and> parseAppId (''/apps/'' @ (CHR ''~'' # w) @ ''/run'') = CHR ''~'' # w
    \<and> isRunningInstance (''/apps/'' @ (CHR ''~'' # w) @ ''/run'') (CHR ''~'' # w)
    \<and> \<not> isRunningInstance (''/apps/'' @ CHR ''~'' # w) (CHR ''~'' # w)"
proof -
  let ?w = "CHR ''~'' # w"
  have ns: "CHR ''/'' \<notin> set ?w" using assms by (simp add: path_word_def)
  have run: "ierase_all ''/run'' ''/run'' = []" by code_simp
  have self: "ierase_all ?w (?w @ t) = ierase_all ?w t" for t by (rule ierase_all_prefix) simp_all
  have nil: "ierase_all ?w ?w = []" using self [of "[]"] by simp
  show ?thesis
    unfolding parseAppId_def isRunningInstance_def apps_erased [OF assms] apps_erased_plain [OF assms] self nil
    using ns run by (simp add: ierase_none ierase_path_word tilde_not_in_run del: append_Cons ierase_all.simps)
qed

theorem app_path_roundtrip_witness:
  "parseAppId (''/apps/'' @ ''~tv1'') = ''~tv1'' \<and> isRunningInstance (''/apps/'' @ ''~tv1'' @ ''/run'') ''~tv1''"
  using app_path_roundtrip [of "''tv1''"] by (simp add: path_word_def)

section \<open>Requests that are turned away\<close>

text \<open>
  C36. A request with a token the session manager does not know changes nothing: a status query
  with such a token, and a stop request with such a token or with none, are answered with 400, and
  neither the applications nor the sessions are touched.
\<close>

theorem unknown_token_rejected:
  assumes "istarts_with (parseAppId (hq_resource rq)) ''~''" and "parseAppId (hq_resource rq) \<noteq> []"
    and "\<not> checkSender (fl_sessions s) (hq_header rq ''authorization'')"
    and "iequals (hq_method rq) ''DELETE'' \<or> iequals (hq_method rq) ''GET'' \<and> hq_header rq ''authorization'' \<noteq> []"
  shows "ApplicationControlHandler plat uuid parse text rq s = Inr (reply_status HTTP_BAD_REQUEST s)"
proof -
  have "iequals (hq_method rq) ''DELETE'' \<Longrightarrow> \<not> iequals (hq_method rq) ''GET'' \<and> \<not> iequals (hq_method rq) ''POST''"
    by (auto simp: iequals_def toupper_def)
  with assms show ?thesis by (auto simp: ApplicationControlHandler_def onGet_def onDelete_def Let_def)
qed

definition sample_request :: "string \<Rightarrow> string \<Rightarrow> http_request" where
  "sample_request method token = \<lparr>hq_method = method, hq_resource = ''/apps/~tv1/run'', hq_body = ''{}'', hq_host = ''tv'',
     hq_header = (\<lambda>k. if k = ''authorization'' then token else [])\<rparr>"

lemma sample_path: "parseAppId (hq_resource (sample_request m t)) = ''~tv1''"
  by (simp only: sample_request_def http_request.select_convs) code_simp

definition idle_flint :: flint where
  "idle_flint = \<lparr>fl_apps = init_manager, fl_sessions = init_sessions, fl_reply = no_response\<rparr>"

theorem unknown_token_rejected_witness:
  "ApplicationControlHandler (\<lambda>_. True) (\<lambda>n. replicate n CHR ''u'') (\<lambda>_. JNull) (\<lambda>_. []) (sample_request ''delete'' ''zz'') idle_flint
     = Inr (reply_status HTTP_BAD_REQUEST idle_flint)"
proof -
  have c: "\<not> checkSender (fl_sessions idle_flint) (hq_header (sample_request ''delete'' ''zz'') ''authorization'')"
    by (simp add: checkSender_def idle_flint_def init_sessions_def)
  have m: "iequals (hq_method (sample_request ''delete'' ''zz'')) ''DELETE''"
    by (simp only: sample_request_def http_request.select_convs) code_simp
  show ?thesis
    by (rule unknown_token_rejected) (use c m in \<open>simp_all add: sample_path istarts_with_def\<close>)
qed

text \<open>
  A launch request whose body is not JSON, or lacks its type or its application, is never
  answered: the handler returns without a status, and changes nothing.
\<close>

theorem malformed_post_unanswered:
  assumes "hq_body rq \<noteq> []" and "parse (cstr (hq_body rq)) = JNull \<or>
      (\<exists>ms. parse (cstr (hq_body rq)) = JObj ms \<and> (lookup_member ms ''type'' = JNull \<or> lookup_member ms ''app_info'' = JNull))"
  shows "onPost plat uuid parse text rq appId s = Inr s"
  using assms by (auto simp: onPost_def Let_def)

theorem malformed_post_unanswered_witness:
  "onPost (\<lambda>_. True) (\<lambda>n. replicate n CHR ''u'') (\<lambda>_. JNull) (\<lambda>_. []) (sample_request ''POST'' []) ''~tv1'' idle_flint = Inr idle_flint"
  by (rule malformed_post_unanswered) (simp_all add: sample_request_def)

section \<open>Launch requests\<close>

text \<open>The application a launch request meets, in terms of the manager's specification.\<close>

fun served :: "phase \<times> string list \<Rightarrow> string option" where
  "served (Running y, q) = Some y"
| "served (Starting y, q) = Some y"
| "served (_, []) = None"
| "served (_, z # q) = Some z"

lemma alive_app_served:
  assumes inv: "am_inv (fl_apps s)"
  shows "\<exists>a. alive_app s = Inr a \<and> map_option ap_appId a = served (am_abs (fl_apps s))"
  using inv
proof (cases rule: am_inv_cases)
  case idle
  then show ?thesis by (simp add: alive_app_def getAliveApplication_def am_abs_def)
next
  case (running p a)
  then show ?thesis by (simp add: alive_app_def getAliveApplication_def am_abs_def appId_of_def)
next
  case (starting p a)
  then show ?thesis by (simp add: alive_app_def getAliveApplication_def am_abs_def appId_of_def)
next
  case (stopping p a)
  show ?thesis
  proof (cases "am_pending (fl_apps s)")
    case Nil
    with stopping show ?thesis by (simp add: alive_app_def getAliveApplication_def am_abs_def)
  next
    case (Cons z q)
    with inv obtain b where "map_find (am_heap (fl_apps s)) z = Some b" by (auto simp: am_inv_def)
    with stopping Cons show ?thesis by (simp add: alive_app_def getAliveApplication_def am_abs_def appId_of_def)
  qed
qed

lemma doStop_event: "doStop plat x s = on_apps (\<lambda>m. am_step plat m (EvStop x)) s"
  by (simp add: doStop_def)

lemma doLaunch_event:
  assumes "parse (cstr info) = JObj ms" "lookup_member ms ''url'' = JStr url" "lookup_member ms ''useIpc'' = JBool ipc"
    "lookup_member ms ''maxInactive'' = JInt mi"
  shows "doLaunch plat parse x info s = on_apps (\<lambda>m. am_step plat m (EvLaunch x (cstr url) ipc mi info)) s"
  using assms by (simp add: doLaunch_def new_app_def on_apps_def Let_def)

definition launch_events :: "string \<Rightarrow> am_event \<Rightarrow> phase \<times> string list \<Rightarrow> am_event list" where
  "launch_events x ev st =
     (case served st of None \<Rightarrow> [ev] | Some y \<Rightarrow> if y = x then [] else [EvStop y, ev])"

lemma launch_events_calm:
  assumes inv: "am_inv m" and plat: "\<And>i. plat i" and ok: "\<And>y z q. am_abs m \<noteq> (Starting y, z # q)"
    and ev: "ev = EvLaunch x u True mi info"
  shows "calm_run plat m (launch_events x ev (am_abs m))"
proof -
  have "calm m (EvStop y)" for y
    using inv
  proof (cases rule: am_inv_cases)
    case (starting p a)
    with ok have "am_pending m = []" by (cases "am_pending m") (auto simp: am_abs_def)
    then show ?thesis by (simp add: calm_def)
  qed (auto simp: calm_def)
  moreover have "calm t ev" for t by (simp add: ev calm_def)
  ultimately show ?thesis by (auto simp: launch_events_def split: option.splits sum.splits)
qed

lemma touch_returns:
  assumes "sessions_ok uuid {} ss" "inj uuid"
  shows "\<exists>b ss'. touchSender t ss = Inr (b, ss') \<and> sessions_ok uuid {} ss'"
  using session_step_ok [OF assms, of "STouchSender t"] by (cases "touchSender t ss") auto

lemma create_returns:
  assumes "sessions_ok uuid {} ss" "inj uuid"
  shows "\<exists>p ss' so. createSender uuid x ss = Inr (p, ss') \<and> get_session ss' p = Inr so \<and> sessions_ok uuid {} ss'"
proof -
  obtain p ss' where c: "createSender uuid x ss = Inr (p, ss')" "sessions_ok uuid {} ss'"
    using session_step_ok [OF assms, of "SCreateSender x"] by (cases "createSender uuid x ss") auto
  then obtain s3 where "triggerTimer p s3 = Inr ss'"
    by (auto simp: createSender_def Let_def split: prod.splits)
  then have "map_find (sm_heap ss') p \<noteq> None"
    by (auto simp: triggerTimer_def map_find_set)
  with c show ?thesis by auto
qed

lemma post_token_returns:
  assumes "sessions_ok uuid {} (fl_sessions s)" "inj uuid"
  shows "\<exists>tok s'. post_token uuid x auth s = Inr (tok, s') \<and> fl_apps s' = fl_apps s \<and> sessions_ok uuid {} (fl_sessions s')"
  using touch_returns [OF assms, of auth] create_returns [OF assms, of x]
  by (auto simp: post_token_def get_session_def)


definition sample_info :: json where
  "sample_info = JObj [(''url'', JStr ''http://x''), (''useIpc'', JBool True), (''maxInactive'', JInt 0)]"

definition launch_parse :: "string \<Rightarrow> json" where
  "launch_parse s = (if s = ''{}'' then JObj [(''type'', JStr ''launch''), (''app_info'', sample_info)] else sample_info)"


end
