(* ===== verification/Urls.thy ===== *)
theory Urls
  imports StdMap
begin

text \<open>
  \<open>Url\<close> and \<open>UrlParser\<close> (flint/src/http): the parts of a URL and the query string. The regular
  expression of the URL is matched by Boost.Regex, which is not part of the repository: \<open>rx\<close> gives
  the named groups of a match, or \<open>None\<close> for a string it does not match.
\<close>

section \<open>URLs\<close>

text \<open>
  \<open>validated\<close> is not set by the constructor, and \<open>port\<close> is not set by \<open>parse\<close> when the URL has
  none: \<open>None\<close> is a variable that was never written.
\<close>

record url =
  u_scheme :: string
  u_user :: string
  u_host :: string
  u_port :: "nat option"
  u_path :: string
  u_query :: string
  u_fragment :: string
  u_validated :: "bool option"

definition new_Url :: url where
  "new_Url = \<lparr>u_scheme = [], u_user = [], u_host = [], u_port = Some 0, u_path = [], u_query = [],
     u_fragment = [], u_validated = None\<rparr>"

record url_groups =
  g_scheme :: string
  g_user :: string
  g_host :: string
  g_port :: string
  g_path :: string
  g_query :: string
  g_fragment :: string

text \<open>\<open>boost::replace_all\<close>: from left to right, on what has not been replaced yet.\<close>

function replace_all :: "string \<Rightarrow> string \<Rightarrow> string \<Rightarrow> string" where
  "replace_all pat rep [] = []"
| "replace_all pat rep (c # cs) =
     (if pat \<noteq> [] \<and> prefix pat (c # cs) then rep @ replace_all pat rep (drop (length pat - 1) cs)
      else c # replace_all pat rep cs)"
  by pat_completeness auto
termination by (relation "measure (\<lambda>(_, _, s). length s)") (auto simp: less_Suc_eq_le)

definition stream_port :: "string \<Rightarrow> nat option" where
  "stream_port s = (if s = [] then None else Some (foldl (\<lambda>n c. 10 * n + (of_char c - 48)) 0 s))"

definition url_parse :: "(string \<Rightarrow> url_groups option) \<Rightarrow> url \<Rightarrow> string \<Rightarrow> url" where
  "url_parse rx url s =
     (case rx s of
        None \<Rightarrow> url
      | Some m \<Rightarrow>
          let path = (if g_path m = [] \<and> (g_query m \<noteq> [] \<or> g_fragment m \<noteq> []) then ''/''
                      else replace_all ''//'' ''/'' (replace_all [char_of (92 :: nat)] ''/'' (g_path m)))
          in \<lparr>u_scheme = g_scheme m, u_user = g_user m, u_host = g_host m, u_port = stream_port (g_port m),
              u_path = path, u_query = g_query m, u_fragment = g_fragment m, u_validated = Some True\<rparr>)"

definition is_validated :: "url \<Rightarrow> fault + bool" where
  "is_validated url = (case u_validated url of None \<Rightarrow> Inl Uninitialised | Some b \<Rightarrow> Inr b)"

section \<open>Query strings\<close>

definition query_entry :: "string \<Rightarrow> (string, string) std_map \<Rightarrow> (string, string) std_map" where
  "query_entry kv out =
     (case split_on (CHR ''='') kv of [k, v] \<Rightarrow> map_insert k v out | _ \<Rightarrow> out)"

definition parse_query :: "string \<Rightarrow> (string, string) std_map \<Rightarrow> (string, string) std_map" where
  "parse_query query out = foldl (\<lambda>m kv. query_entry kv m) out (split_on (CHR ''&'') query)"

fun get_value :: "(string, string) std_map \<Rightarrow> string \<Rightarrow> string" where
  "get_value [] key = []"
| "get_value ((k, v) # kvs) key = (if key = k then v else get_value kvs key)"

lemma get_value_find: "get_value kvs key = (case map_find kvs key of None \<Rightarrow> [] | Some v \<Rightarrow> v)"
  by (induction kvs key rule: get_value.induct) auto

text \<open>A pair of a query as a client writes it.\<close>

definition query_pair :: "string \<times> string \<Rightarrow> string" where
  "query_pair e = fst e @ CHR ''='' # snd e"

definition query_ok :: "(string \<times> string) list \<Rightarrow> bool" where
  "query_ok es \<longleftrightarrow> es \<noteq> [] \<and> (\<forall>(k, v) \<in> set es. set k \<inter> {CHR ''='', CHR ''&''} = {} \<and> set v \<inter> {CHR ''='', CHR ''&''} = {})"

lemma query_entry_pair:
  "CHR ''='' \<notin> set k \<Longrightarrow> CHR ''='' \<notin> set v \<Longrightarrow> query_entry (query_pair (k, v)) m = map_insert k v m"
  by (simp add: query_entry_def query_pair_def split_on_append split_on_free)

lemma parse_query_pairs:
  assumes "query_ok es"
  shows "parse_query (join_on ''&'' (map query_pair es)) m = foldl (\<lambda>m e. map_insert (fst e) (snd e) m) m es"
proof -
  have "\<forall>w \<in> set (map query_pair es). CHR ''&'' \<notin> set w" "map query_pair es \<noteq> []"
    using assms by (auto simp: query_ok_def query_pair_def)
  then have "split_on (CHR ''&'') (join_on ''&'' (map query_pair es)) = map query_pair es" by (simp add: split_join)
  moreover have "\<forall>(k, v) \<in> set es. CHR ''='' \<notin> set k \<and> CHR ''='' \<notin> set v" using assms by (auto simp: query_ok_def)
  then have "foldl (\<lambda>m kv. query_entry kv m) m (map query_pair es) = foldl (\<lambda>m e. map_insert (fst e) (snd e) m) m es"
    by (induction es arbitrary: m) (auto simp: query_entry_pair)
  ultimately show ?thesis by (simp add: parse_query_def)
qed

lemma find_inserts:
  "map_wf m \<Longrightarrow> map_find (foldl (\<lambda>m e. map_insert (fst e) (snd e) m) m es) k =
     (case map_find m k of Some v \<Rightarrow> Some v | None \<Rightarrow> map_of es k)"
  by (induction es arbitrary: m) (auto simp: map_find_insert split: option.splits)

text \<open>
  C37. A query string is read back as it was written: for any list of pairs whose keys and values
  are free of \<open>=\<close> and \<open>&\<close>, looking a key up in the parsed query gives the value of its first
  pair, and the empty string for a key that is not there.
\<close>

theorem query_roundtrip:
  "query_ok es \<Longrightarrow>
   get_value (parse_query (join_on ''&'' (map query_pair es)) []) key =
     (case map_of es key of None \<Rightarrow> [] | Some v \<Rightarrow> v)"
  by (simp add: parse_query_pairs get_value_find find_inserts)

theorem query_roundtrip_witness:
  "get_value (parse_query (join_on ''&'' (map query_pair [(''key'', ''peerjs''), (''id'', ''a1''), (''id'', ''b2'')])) []) ''id'' = ''a1''"
  using query_roundtrip [of "[(''key'', ''peerjs''), (''id'', ''a1''), (''id'', ''b2'')]" "''id''"]
  by (simp add: query_ok_def)

end
