(* ===== verification/Peers.thy ===== *)
theory Peers
  imports Messaging Urls Http
begin

text \<open>
  \<open>PeerServer\<close> and \<open>Peer\<close> (flint/src/peer): the signalling server of PeerJS. A client connects
  under an id with a key and a token and gets a \<open>Peer\<close>; the messages of one peer are passed on to
  the peer they name, or kept until it connects or the next cleanup.

  Peers and the vectors of outstanding messages are heap objects, by address. A peer that is
  deleted stays connected to the signals of its session, so its address is still used when the
  session delivers a message or closes. \<open>rx\<close> matches URLs; \<open>parse\<close> and \<open>text\<close> are the JSON library.
\<close>

section \<open>State\<close>

record peer_message =
  pm_type :: string
  pm_src :: string
  pm_dst :: string
  pm_data :: string

text \<open>\<open>pr_wired\<close> counts the connections of the signals \<open>Close\<close> and \<open>Message\<close> to the server.\<close>

record peer =
  pr_id :: string
  pr_token :: string
  pr_session :: "nat option"
  pr_wired :: nat

record peer_server =
  ps_net :: "nat ws_net"
  ps_heap :: "(nat, peer) std_map"
  ps_vectors :: "(nat, peer_message list) std_map"
  ps_next :: nat
  ps_peers :: "(string, nat) std_map"
  ps_outstandings :: "(string, nat) std_map"

definition init_peer_server :: peer_server where
  "init_peer_server = \<lparr>ps_net = init_net, ps_heap = [], ps_vectors = [], ps_next = 0, ps_peers = [], ps_outstandings = []\<rparr>"

definition get_peer :: "peer_server \<Rightarrow> nat \<Rightarrow> fault + peer" where
  "get_peer s p = (case map_find (ps_heap s) p of None \<Rightarrow> Inl UseAfterFree | Some x \<Rightarrow> Inr x)"

definition get_vector :: "peer_server \<Rightarrow> nat \<Rightarrow> fault + peer_message list" where
  "get_vector s p = (case map_find (ps_vectors s) p of None \<Rightarrow> Inl UseAfterFree | Some v \<Rightarrow> Inr v)"

definition peer_net :: "(nat ws_net \<Rightarrow> fault + nat ws_net) \<Rightarrow> peer_server \<Rightarrow> fault + peer_server" where
  "peer_net f s = bindE (f (ps_net s)) (\<lambda>n. Inr (s\<lparr>ps_net := n\<rparr>))"

section \<open>The tables\<close>

text \<open>Both tables are searched with \<open>boost::iequals\<close>, in the order of their keys.\<close>

fun ifind :: "(string, 'v) std_map \<Rightarrow> string \<Rightarrow> (string \<times> 'v) option" where
  "ifind [] ident = None"
| "ifind ((k, v) # m) ident = (if iequals ident k then Some (k, v) else ifind m ident)"

definition getPeer :: "peer_server \<Rightarrow> string \<Rightarrow> nat option" where
  "getPeer s ident = map_option snd (ifind (ps_peers s) ident)"

definition removePeer :: "string \<Rightarrow> peer_server \<Rightarrow> fault + bool \<times> peer_server" where
  "removePeer ident s =
     (case ifind (ps_peers s) ident of
        None \<Rightarrow> Inr (False, s)
      | Some (k, p) \<Rightarrow>
          bindE (get_peer s p) (\<lambda>_.
          Inr (True, s\<lparr>ps_heap := map_erase p (ps_heap s), ps_peers := map_erase k (ps_peers s)\<rparr>)))"

definition addPeer :: "string \<Rightarrow> nat \<Rightarrow> peer_server \<Rightarrow> peer_server" where
  "addPeer ident p s = (if getPeer s ident = None then s\<lparr>ps_peers := map_insert ident p (ps_peers s)\<rparr> else s)"

definition getPeerMessages :: "peer_server \<Rightarrow> string \<Rightarrow> nat option" where
  "getPeerMessages s ident = map_option snd (ifind (ps_outstandings s) ident)"

definition removePeerMessages :: "string \<Rightarrow> peer_server \<Rightarrow> fault + bool \<times> peer_server" where
  "removePeerMessages ident s =
     (case ifind (ps_outstandings s) ident of
        None \<Rightarrow> Inr (False, s)
      | Some (k, v) \<Rightarrow>
          bindE (get_vector s v) (\<lambda>_.
          Inr (True, s\<lparr>ps_vectors := map_erase v (ps_vectors s), ps_outstandings := map_erase k (ps_outstandings s)\<rparr>)))"

definition addPeerMessages :: "string \<Rightarrow> peer_message \<Rightarrow> peer_server \<Rightarrow> fault + peer_server" where
  "addPeerMessages ident message s =
     (case getPeerMessages s ident of
        None \<Rightarrow>
          Inr (s\<lparr>ps_vectors := map_insert (ps_next s) [] (ps_vectors s),
                 ps_outstandings := map_insert ident (ps_next s) (ps_outstandings s), ps_next := ps_next s + 1\<rparr>)
      | Some v \<Rightarrow>
          bindE (get_vector s v) (\<lambda>messages.
          Inr (s\<lparr>ps_vectors := map_set v (messages @ [message]) (ps_vectors s)\<rparr>)))"

section \<open>Transmission\<close>

lemma ifind_key: "ifind m ident = Some (k, v) \<Longrightarrow> map_find m k \<noteq> None"
  by (induction m ident rule: ifind.induct) (auto split: if_splits)

lemma removePeer_less: "getPeer s ident \<noteq> None \<Longrightarrow> removePeer ident s = Inr (b, s') \<Longrightarrow> length (ps_peers s') < length (ps_peers s)"
proof -
  have e: "map_find m k \<noteq> None \<Longrightarrow> length (map_erase k m) < length m" for k and m :: "(string, nat) std_map"
    by (induction k m rule: map_erase.induct) (auto split: if_splits)
  show "getPeer s ident \<noteq> None \<Longrightarrow> removePeer ident s = Inr (b, s') \<Longrightarrow> length (ps_peers s') < length (ps_peers s)"
    by (auto simp: getPeer_def removePeer_def split: option.splits dest!: ifind_key intro!: e)
qed

text \<open>
  \<open>WebsocketSession::send\<close> catches its own exceptions, so the handler for an exception in
  \<open>handleTransmission\<close> is never entered.
\<close>

function handleTransmission :: "peer_message \<Rightarrow> peer_server \<Rightarrow> fault + peer_server" where
  "handleTransmission pm s =
     (case getPeer s (pm_dst pm) of
        Some p \<Rightarrow>
          bindE (get_peer s p) (\<lambda>x.
          case pr_session x of
            Some i \<Rightarrow> peer_net (ws_send i (pm_data pm)) s
          | None \<Rightarrow>
              bindE (removePeer (pm_dst pm) s) (\<lambda>(_, s1).
              handleTransmission \<lparr>pm_type = ''LEAVE'', pm_src = pm_dst pm, pm_dst = pm_src pm, pm_data = []\<rparr> s1))
      | None \<Rightarrow>
          if \<not> iequals (pm_type pm) ''LEAVE'' \<and> \<not> iequals (pm_type pm) ''EXPIRE'' \<and> \<not> iequals (pm_dst pm) [] then
            addPeerMessages (pm_dst pm) pm s
          else if iequals (pm_type pm) ''LEAVE'' \<and> iequals (pm_dst pm) [] then
            bindE (removePeer (pm_src pm) s) (\<lambda>(_, s1). Inr s1)
          else Inr s)"
  by pat_completeness auto
termination
  by (relation "measure (\<lambda>(_, s). length (ps_peers s))") (auto intro: removePeer_less)

declare handleTransmission.simps [simp del]

definition processOutstanding :: "string \<Rightarrow> peer_server \<Rightarrow> fault + peer_server" where
  "processOutstanding ident s =
     (case getPeerMessages s ident of
        None \<Rightarrow> Inr s
      | Some v \<Rightarrow>
          bindE (get_vector s v) (\<lambda>messages.
          bindE (foldE (\<lambda>t pm. handleTransmission pm t) s messages) (\<lambda>s1.
          bindE (removePeerMessages ident s1) (\<lambda>(_, s2). Inr s2))))"

section \<open>Connections\<close>

definition send_type :: "(json \<Rightarrow> string) \<Rightarrow> nat \<Rightarrow> string \<Rightarrow> peer_server \<Rightarrow> fault + peer_server" where
  "send_type text session type s = peer_net (ws_send session (text (JObj [(''type'', jstr type)]))) s"

definition error_text :: "(json \<Rightarrow> string) \<Rightarrow> string \<Rightarrow> string \<Rightarrow> string" where
  "error_text text errType errMsg = text (JObj [(''type'', jstr errType), (''payload'', JObj [(''msg'', jstr errMsg)])])"

definition sendError :: "(json \<Rightarrow> string) \<Rightarrow> nat \<Rightarrow> string \<Rightarrow> string \<Rightarrow> peer_server \<Rightarrow> fault + peer_server" where
  "sendError text session errType errMsg s =
     bindE (peer_net (ws_send session (error_text text errType errMsg)) s) (peer_net (ws_close session))"

definition checkKey :: "string \<Rightarrow> peer_server \<Rightarrow> string option" where
  "checkKey key s =
     (if \<not> iequals ''peerjs'' key then Some ''Invalid key provided''
      else if 5000 < length (ps_peers s) then Some ''Server has reached its concurrent user limit''
      else None)"

definition new_Peer :: "string \<Rightarrow> string \<Rightarrow> nat \<Rightarrow> peer_server \<Rightarrow> fault + nat \<times> peer_server" where
  "new_Peer ident token session s =
     (let p = ps_next s
      in bindE (peer_net (ws_connect session p) s) (\<lambda>s1.
         Inr (p, s1\<lparr>ps_heap := map_insert p \<lparr>pr_id = ident, pr_token = token, pr_session = Some session, pr_wired = 0\<rparr> (ps_heap s1),
                    ps_next := p + 1\<rparr>)))"

definition reset_session :: "nat \<Rightarrow> nat \<Rightarrow> peer_server \<Rightarrow> fault + peer_server" where
  "reset_session p session s =
     bindE (get_peer s p) (\<lambda>x.
     bindE (case pr_session x of None \<Rightarrow> Inr s | Some i \<Rightarrow> peer_net (ws_close i) s) (\<lambda>s1.
     peer_net (ws_connect session p) (s1\<lparr>ps_heap := map_set p (x\<lparr>pr_session := Some session\<rparr>) (ps_heap s1)\<rparr>)))"

definition configureWs :: "(json \<Rightarrow> string) \<Rightarrow> nat \<Rightarrow> string \<Rightarrow> string \<Rightarrow> peer_server \<Rightarrow> fault + peer_server" where
  "configureWs text session ident token s =
     (case getPeer s ident of
        None \<Rightarrow> Inr s
      | Some p \<Rightarrow>
          bindE (get_peer s p) (\<lambda>x.
          if \<not> iequals (pr_token x) token then sendError text session ''ID-TAKEN'' ''ID is taken'' s
          else
            bindE (processOutstanding ident s) (\<lambda>s1.
            bindE (get_peer s1 p) (\<lambda>y.
            Inr (s1\<lparr>ps_heap := map_set p (y\<lparr>pr_wired := pr_wired y + 1\<rparr>) (ps_heap s1)\<rparr>)))))"

definition peer_onWebsocketConnection ::
  "(string \<Rightarrow> url_groups option) \<Rightarrow> (json \<Rightarrow> string) \<Rightarrow> nat \<Rightarrow> string \<Rightarrow> peer_server \<Rightarrow> fault + peer_server" where
  "peer_onWebsocketConnection rx text session resource s =
     (let url = url_parse rx new_Url resource
      in bindE (is_validated url) (\<lambda>valid.
         if \<not> valid then Inr s
         else if \<not> iequals ''peerjs'' (u_path url) \<and> \<not> iequals ''/peerjs'' (u_path url) \<and> \<not> iequals ''/peerjs/'' (u_path url)
         then Inr s
         else
           let queries = parse_query (u_query url) [];
               key = get_value queries ''key''; ident = get_value queries ''id''; token = get_value queries ''token''
           in if iequals key [] \<or> iequals ident [] \<or> iequals token [] then
                sendError text session ''ERROR'' ''No id, token, or key supplied to peerjs server'' s
              else
                (case getPeer s ident of
                   None \<Rightarrow>
                     (case checkKey key s of
                        None \<Rightarrow>
                          bindE (new_Peer ident token session s) (\<lambda>(p, s1).
                          bindE (send_type text session ''OPEN'' (addPeer ident p s1)) (configureWs text session ident token))
                      | Some errMsg \<Rightarrow> sendError text session ''ERROR'' errMsg s)
                 | Some p \<Rightarrow> bindE (reset_session p session s) (configureWs text session ident token))))"

section \<open>Messages and closes\<close>

definition onPeerClose :: "nat \<Rightarrow> peer_server \<Rightarrow> fault + peer_server" where
  "onPeerClose p s = bindE (get_peer s p) (\<lambda>x. bindE (removePeer (pr_id x) s) (\<lambda>(_, s1). Inr s1))"

definition onPeerMessage ::
  "(string \<Rightarrow> json) \<Rightarrow> (json \<Rightarrow> string) \<Rightarrow> nat \<Rightarrow> string \<Rightarrow> peer_server \<Rightarrow> fault + peer_server" where
  "onPeerMessage parse text p message s =
     (let d = parse (cstr message)
      in bindE (js_member d ''type'') (\<lambda>type.
         if type = JNull then Inr s
         else
           bindE (js_string type) (\<lambda>typeStr.
           if iequals typeStr ''LEAVE'' \<or> iequals typeStr ''CANDIDATE'' \<or> iequals typeStr ''OFFER'' \<or> iequals typeStr ''ANSWER''
           then
             bindE (js_member d ''dst'') (\<lambda>dst.
             if dst = JNull then Inr s
             else
               bindE (js_member d ''payload'') (\<lambda>payload.
               if payload = JNull then Inr s
               else
                 bindE (get_peer s p) (\<lambda>x.
                 bindE (js_add d ''src'' (jstr (pr_id x))) (\<lambda>d'.
                 bindE (js_string dst) (\<lambda>dstStr.
                 handleTransmission \<lparr>pm_type = typeStr, pm_src = pr_id x, pm_dst = dstStr, pm_data = cstr (text d')\<rparr> s)))))
           else Inr s)))"

text \<open>The slots of a peer's own signals run as often as the server has connected them.\<close>

definition peer_onMessage ::
  "(string \<Rightarrow> json) \<Rightarrow> (json \<Rightarrow> string) \<Rightarrow> nat \<Rightarrow> string \<Rightarrow> peer_server \<Rightarrow> fault + peer_server" where
  "peer_onMessage parse text p msg s =
     bindE (get_peer s p) (\<lambda>x. foldE (\<lambda>t _. onPeerMessage parse text p msg t) s (replicate (pr_wired x) ()))"

definition peer_onClose :: "nat \<Rightarrow> peer_server \<Rightarrow> fault + peer_server" where
  "peer_onClose p s = bindE (get_peer s p) (\<lambda>x. foldE (\<lambda>t _. onPeerClose p t) s (replicate (pr_wired x) ()))"

section \<open>Cleanup\<close>

text \<open>
  \<open>handleCleanupIntervals\<close>: every outstanding message is answered to its sender and deleted, and the
  vectors are deleted one by one while the table is walked. The walk goes on from the entry it is
  at to the next key, whatever has been inserted. A message pushed to the very vector that is
  walked may move its storage under the iterator, which the model takes for a fault.
\<close>

definition cleanup_message :: "nat \<Rightarrow> peer_message \<Rightarrow> peer_server \<Rightarrow> fault + peer_server" where
  "cleanup_message v pm s =
     bindE (handleTransmission \<lparr>pm_type = pm_type pm, pm_src = pm_dst pm, pm_dst = pm_src pm, pm_data = []\<rparr> s) (\<lambda>s1.
     bindE (get_vector s v) (\<lambda>before.
     bindE (get_vector s1 v) (\<lambda>after. if after = before then Inr s1 else Inl UseAfterFree)))"

definition cleanup_entry :: "nat \<Rightarrow> peer_server \<Rightarrow> fault + peer_server" where
  "cleanup_entry v s =
     bindE (get_vector s v) (\<lambda>pending.
     bindE (foldE (\<lambda>t pm. cleanup_message v pm t) s pending) (\<lambda>s1.
     Inr (s1\<lparr>ps_vectors := map_erase v (ps_vectors s1)\<rparr>)))"

fun next_entry :: "(string, nat) std_map \<Rightarrow> string option \<Rightarrow> (string \<times> nat) option" where
  "next_entry [] pos = None"
| "next_entry ((k, v) # m) pos = (if (case pos of None \<Rightarrow> True | Some k0 \<Rightarrow> k0 < k) then Some (k, v) else next_entry m pos)"

definition cleanup_body :: "string option \<times> peer_server \<Rightarrow> fault + (string option \<times> peer_server, peer_server) loop_next" where
  "cleanup_body st =
     (case next_entry (ps_outstandings (snd st)) (fst st) of
        None \<Rightarrow> Inr (Leave ((snd st)\<lparr>ps_outstandings := []\<rparr>))
      | Some (k, v) \<Rightarrow> bindE (cleanup_entry v (snd st)) (\<lambda>s1. Inr (Again (Some k, s1))))"

definition handleCleanupIntervals :: "peer_server \<Rightarrow> (fault + peer_server) option" where
  "handleCleanupIntervals s = iterate cleanup_body (None, s)"

section \<open>HTTP\<close>

definition generateId :: "string \<Rightarrow> string" where
  "generateId uuid = take 8 uuid @ drop (length uuid - 8) uuid"

definition peer_onGet :: "(string \<Rightarrow> url_groups option) \<Rightarrow> string \<Rightarrow> http_request \<Rightarrow> http_response \<Rightarrow> fault + http_response" where
  "peer_onGet rx uuid rq r =
     (let url = url_parse rx new_Url (hq_resource rq)
      in bindE (is_validated url) (\<lambda>valid.
         if \<not> valid then Inr r
         else if iequals ''/peerjs/id'' (u_path url) \<or> iequals ''/peerjs/id/'' (u_path url) then
           Inr (response_body HTTP_OK [(''Content-Type'', ''text/html'')] (generateId uuid) r)
         else Inr (response_status HTTP_BAD_REQUEST r)))"

definition peer_onHttpRequest :: "(string \<Rightarrow> url_groups option) \<Rightarrow> string \<Rightarrow> http_request \<Rightarrow> http_response \<Rightarrow> fault + http_response" where
  "peer_onHttpRequest rx uuid rq r =
     (if iequals (hq_method rq) ''GET'' then peer_onGet rx uuid rq r else Inr (response_status HTTP_BAD_REQUEST r))"

section \<open>Events\<close>

datatype peer_event = PeerOpened nat string | PeerSays nat string | PeerGone nat

fun peer_step ::
  "(string \<Rightarrow> url_groups option) \<Rightarrow> (string \<Rightarrow> json) \<Rightarrow> (json \<Rightarrow> string) \<Rightarrow> peer_server \<Rightarrow> peer_event \<Rightarrow> fault + peer_server" where
  "peer_step rx parse text s (PeerOpened i resource) =
     (if map_find (wn_sessions (ps_net s)) i \<noteq> None then Inr s
      else peer_onWebsocketConnection rx text i resource (s\<lparr>ps_net := ws_open i (ps_net s)\<rparr>))"
| "peer_step rx parse text s (PeerSays i msg) = ws_on_message ps_net (peer_onMessage parse text) i msg s"
| "peer_step rx parse text s (PeerGone i) = ws_clear ps_net (\<lambda>f t. t\<lparr>ps_net := f (ps_net t)\<rparr>) peer_onClose i s"

end
