(* ===== verification/PeerSafety.thy ===== *)
theory PeerSafety
  imports Peers
begin

text \<open>
  What holds of the PeerJS server of \<open>Peers\<close>: its table is a registry under \<open>boost::iequals\<close>; clients
  that connect once under an id and do not send the one message that deletes them are served
  without a fault and their messages reach the peers they name; and what goes wrong otherwise.
\<close>

section \<open>The table of peers is a registry\<close>

fun ikeys :: "(string, 'v) std_map \<Rightarrow> bool" where
  "ikeys [] \<longleftrightarrow> True"
| "ikeys ((k, v) # m) \<longleftrightarrow> (\<forall>k' \<in> fst ` set m. \<not> iequals k k') \<and> ikeys m"

definition drop_peer :: "string \<Rightarrow> peer_server \<Rightarrow> peer_server" where
  "drop_peer ident s =
     (case ifind (ps_peers s) ident of None \<Rightarrow> s | Some (k, _) \<Rightarrow> s\<lparr>ps_peers := map_erase k (ps_peers s)\<rparr>)"

lemma iequals_equiv: "equivp iequals"
  by (rule equivpI) (auto simp: reflp_def symp_def transp_def iequals_sym intro: iequals_trans)

lemma ifind_Some: "ifind m ident = Some (k, v) \<Longrightarrow> iequals ident k \<and> (k, v) \<in> set m"
  by (induction m ident rule: ifind.induct) (auto split: if_splits)

lemma ifind_None: "ifind m ident = None \<longleftrightarrow> (\<forall>k \<in> fst ` set m. \<not> iequals ident k)"
  by (induction m ident rule: ifind.induct) auto

lemma ifind_cong: "iequals a b \<Longrightarrow> ifind m a = ifind m b"
  by (induction m a rule: ifind.induct) (auto simp: iequals_def)

lemma ifind_unique: "ikeys m \<Longrightarrow> (k, v) \<in> set m \<Longrightarrow> iequals ident k \<Longrightarrow> ifind m ident = Some (k, v)"
proof (induction m ident rule: ifind.induct)
  case (2 k' v' m ident)
  then show ?case
    by (auto simp: iequals_def)
qed simp

lemma ikeys_insert:
  "ikeys m \<Longrightarrow> ifind m ident = None \<Longrightarrow> ikeys (map_insert ident v m)"
proof (induction ident v m rule: map_insert.induct)
  case (2 k v k1 v1 m)
  then show ?case by (auto simp: ifind_None iequals_sym split: if_splits)
qed simp

lemma ikeys_erase: "ikeys m \<Longrightarrow> ikeys (map_erase k m)"
proof (induction k m rule: map_erase.induct)
  case (2 k k1 v m)
  then show ?case using set_map_erase_subset [of k m] by auto
qed simp

lemma ifind_insert:
  "ikeys m \<Longrightarrow> ifind m ident = None \<Longrightarrow>
   ifind (map_insert ident v m) j = (if iequals ident j then Some (ident, v) else ifind m j)"
proof (induction ident v m rule: map_insert.induct)
  case (2 k v k1 v1 m)
  then show ?case by (auto simp: iequals_def split: if_splits)
qed (auto simp: iequals_sym)

lemma ifind_erase:
  "ikeys m \<Longrightarrow> (k, v) \<in> set m \<Longrightarrow> ifind (map_erase k m) j = (if iequals k j then None else ifind m j)"
proof (induction k m rule: map_erase.induct)
  case (2 k k1 v1 m)
  show ?case
  proof (cases "k1 = k")
    case True
    with 2 show ?thesis by (auto simp: ifind_None iequals_sym) (auto simp: iequals_def)
  next
    case False
    with 2 show ?thesis by (auto simp: iequals_def)
  qed
qed simp

lemma map_wf_ikeys_insert: "map_wf m \<Longrightarrow> map_wf (map_insert k v m)"
  by simp

interpretation peer_table: registry getPeer addPeer drop_peer iequals "\<lambda>s. ikeys (ps_peers s)"
proof unfold_locales
  show "equivp iequals" by (rule iequals_equiv)
next
  fix t k k' assume "iequals k k'"
  then show "getPeer t k = getPeer t k'" by (simp add: getPeer_def ifind_cong [of k k'])
next
  fix t :: peer_server and k assume "ikeys (ps_peers t)"
  then show "ikeys (ps_peers (drop_peer k t))" by (auto simp: drop_peer_def ikeys_erase split: option.splits)
next
  fix t :: peer_server and k k' assume "ikeys (ps_peers t)"
  then show "getPeer (drop_peer k t) k' = (if iequals k k' then None else getPeer t k')"
    by (auto simp: getPeer_def drop_peer_def ifind_erase dest!: ifind_Some split: option.splits)
      (auto simp: iequals_def ifind_None)
qed (auto simp: addPeer_def getPeer_def ikeys_insert ifind_insert)

section \<open>Messages between peers\<close>

definition rtc_types :: "string list" where
  "rtc_types = [''LEAVE'', ''CANDIDATE'', ''OFFER'', ''ANSWER'']"

text \<open>A peer whose client is connected, by the session it has.\<close>

definition online :: "peer_server \<Rightarrow> string \<Rightarrow> nat \<Rightarrow> bool" where
  "online s ident i \<longleftrightarrow>
     (case getPeer s ident of
        None \<Rightarrow> False
      | Some p \<Rightarrow>
          (case map_find (ps_heap s) p of
             None \<Rightarrow> False
           | Some x \<Rightarrow> pr_session x = Some i \<and> map_find (wn_sessions (ps_net s)) i \<noteq> None))"

lemma online_iff:
  "online s ident i \<longleftrightarrow>
     (\<exists>p x. getPeer s ident = Some p \<and> map_find (ps_heap s) p = Some x \<and> pr_session x = Some i \<and>
        map_find (wn_sessions (ps_net s)) i \<noteq> None)"
  by (auto simp: online_def split: option.splits)

definition sent_on :: "nat \<Rightarrow> string \<Rightarrow> peer_server \<Rightarrow> peer_server" where
  "sent_on i msg s = s\<lparr>ps_net := (ps_net s)\<lparr>wn_out := wn_out (ps_net s) @ [WsSend i msg]\<rparr>\<rparr>"

lemma sent_on_simps [simp]:
  "online (sent_on i msg s) = online s"
  "ps_heap (sent_on i msg s) = ps_heap s"
  "ps_outstandings (sent_on i msg s) = ps_outstandings s"
  "ps_vectors (sent_on i msg s) = ps_vectors s"
  "getPeerMessages (sent_on i msg s) = getPeerMessages s"
  by (auto simp: sent_on_def online_iff getPeer_def getPeerMessages_def fun_eq_iff)

lemma online_send:
  assumes "online s (pm_dst pm) i"
  shows "handleTransmission pm s = Inr (sent_on i (pm_data pm) s)"
proof -
  obtain p x where "getPeer s (pm_dst pm) = Some p" "map_find (ps_heap s) p = Some x" "pr_session x = Some i"
    and "map_find (wn_sessions (ps_net s)) i \<noteq> None"
    using assms unfolding online_iff by blast
  then show ?thesis
    by (auto simp: handleTransmission.simps [of pm s] get_peer_def peer_net_def ws_live sent_on_def)
qed

lemma js_fields:
  assumes "lookup_member ms k = JStr v"
  shows "js_member (JObj ms) k = Inr (JStr v)" "JStr v \<noteq> JNull" "js_string (JStr v) = Inr (cstr v)"
  using assms by simp_all



section \<open>Messages to absent peers\<close>

lemma ifind_insert_self: "ifind m ident = None \<Longrightarrow> ifind (map_insert ident v m) ident = Some (ident, v)"
  by (induction ident v m rule: map_insert.induct) (auto split: if_splits)

definition kept :: "peer_message \<Rightarrow> bool" where
  "kept pm \<longleftrightarrow> \<not> iequals (pm_type pm) ''LEAVE'' \<and> \<not> iequals (pm_type pm) ''EXPIRE'' \<and> pm_dst pm \<noteq> []"

lemma absent_kept:
  "getPeer s (pm_dst pm) = None \<Longrightarrow> kept pm \<Longrightarrow> handleTransmission pm s = addPeerMessages (pm_dst pm) pm s"
  by (simp add: handleTransmission.simps [of pm s] kept_def)

lemma absent_queue:
  assumes "getPeer s ident = None" and "getPeerMessages s ident = Some v" and "map_find (ps_vectors s) v = Some ms"
    and "\<forall>pm \<in> set pms. kept pm \<and> iequals (pm_dst pm) ident"
  shows "\<exists>s'. foldE (\<lambda>t pm. handleTransmission pm t) s pms = Inr s' \<and> getPeer s' ident = None \<and>
    getPeerMessages s' ident = Some v \<and> map_find (ps_vectors s') v = Some (ms @ pms)"
  using assms
proof (induction pms arbitrary: s ms)
  case (Cons pm pms)
  let ?s = "s\<lparr>ps_vectors := map_set v (ms @ [pm]) (ps_vectors s)\<rparr>"
  have e: "iequals (pm_dst pm) ident" and k: "kept pm" using Cons.prems by simp_all
  have "getPeer s (pm_dst pm) = None" "getPeerMessages s (pm_dst pm) = Some v"
    using Cons.prems(1,2) by (simp_all add: getPeer_def getPeerMessages_def ifind_cong [OF e])
  then have "handleTransmission pm s = Inr ?s"
    using Cons.prems(3) k by (simp add: absent_kept addPeerMessages_def get_vector_def)
  moreover have "getPeer ?s ident = None" "getPeerMessages ?s ident = Some v"
    using Cons.prems(1,2) by (simp_all add: getPeer_def getPeerMessages_def)
  moreover have "map_find (ps_vectors ?s) v = Some (ms @ [pm])" using Cons.prems(3) by (simp add: map_find_set)
  ultimately show ?case using Cons.IH [of ?s "ms @ [pm]"] Cons.prems(4) by simp
qed auto

text \<open>
  C40. Of the messages sent to a peer that is not connected and for which nothing is kept yet, all
  but the first are kept, in order: \<open>addPeerMessages\<close> starts the queue empty and drops the message
  it starts it for.
\<close>

theorem first_message_lost:
  assumes "getPeer s ident = None" and "getPeerMessages s ident = None" and "map_wf (ps_vectors s)"
    and "map_find (ps_vectors s) (ps_next s) = None"
    and "pms \<noteq> []" and "\<forall>pm \<in> set pms. kept pm \<and> iequals (pm_dst pm) ident"
  shows "\<exists>s' v. foldE (\<lambda>t pm. handleTransmission pm t) s pms = Inr s' \<and>
    getPeerMessages s' ident = Some v \<and> map_find (ps_vectors s') v = Some (tl pms)"
proof -
  obtain pm rest where pms: "pms = pm # rest" using assms(5) by (cases pms) auto
  have e: "iequals (pm_dst pm) ident" and k: "kept pm" using assms(6) pms by simp_all
  let ?s = "s\<lparr>ps_vectors := map_insert (ps_next s) [] (ps_vectors s),
    ps_outstandings := map_insert (pm_dst pm) (ps_next s) (ps_outstandings s), ps_next := ps_next s + 1\<rparr>"
  have n: "getPeer s (pm_dst pm) = None" "getPeerMessages s (pm_dst pm) = None"
    using assms(1,2) by (simp_all add: getPeer_def getPeerMessages_def ifind_cong [OF e])
  then have 1: "handleTransmission pm s = Inr ?s" using k by (simp add: absent_kept addPeerMessages_def)
  have "ifind (ps_outstandings ?s) (pm_dst pm) = Some (pm_dst pm, ps_next s)"
    using n(2) by (simp add: getPeerMessages_def ifind_insert_self)
  then have "getPeerMessages ?s ident = Some (ps_next s)"
    unfolding getPeerMessages_def ifind_cong [OF e, symmetric] by simp
  moreover have "getPeer ?s ident = None" using assms(1) by (simp add: getPeer_def)
  moreover have "map_find (ps_vectors ?s) (ps_next s) = Some []" using assms(3,4) by (simp add: map_find_insert)
  ultimately show ?thesis
    using absent_queue [of ?s ident "ps_next s" "[]" rest] assms(6) pms 1 by auto
qed

lemma first_message_lost_witness:
  "\<exists>s' v. foldE (\<lambda>t pm. handleTransmission pm t) init_peer_server
     [\<lparr>pm_type = ''OFFER'', pm_src = ''a'', pm_dst = ''b'', pm_data = ''1''\<rparr>] = Inr s' \<and>
   getPeerMessages s' ''b'' = Some v \<and> map_find (ps_vectors s') v = Some (tl
     [\<lparr>pm_type = ''OFFER'', pm_src = ''a'', pm_dst = ''b'', pm_data = ''1''\<rparr>])"
  by (rule first_message_lost)
     (simp_all add: init_peer_server_def getPeer_def getPeerMessages_def kept_def iequals_def toupper_def)

lemma online_all:
  assumes "online s ident i" and "\<forall>pm \<in> set pms. iequals (pm_dst pm) ident"
  shows "foldE (\<lambda>t pm. handleTransmission pm t) s pms = Inr (fold (\<lambda>pm. sent_on i (pm_data pm)) pms s)"
  using assms
proof (induction pms arbitrary: s)
  case (Cons pm pms)
  have "online s (pm_dst pm) i"
    using Cons.prems ifind_cong [of "pm_dst pm" ident "ps_peers s"] by (simp add: online_def getPeer_def)
  with Cons show ?case by (simp add: online_send)
qed simp

lemma fold_sent [simp]:
  "online (fold (\<lambda>pm. sent_on i (pm_data pm)) pms s) = online s"
  "ps_outstandings (fold (\<lambda>pm. sent_on i (pm_data pm)) pms s) = ps_outstandings s"
  "ps_vectors (fold (\<lambda>pm. sent_on i (pm_data pm)) pms s) = ps_vectors s"
  "wn_out (ps_net (fold (\<lambda>pm. sent_on i (pm_data pm)) pms s)) = wn_out (ps_net s) @ map (\<lambda>pm. WsSend i (pm_data pm)) pms"
  by (induction pms arbitrary: s) (simp_all, simp add: sent_on_def)

text \<open>
  C39. When a peer connects, the messages kept for it are sent on its session in the order in which
  they were kept, each once, and the queue is gone afterwards.
\<close>

theorem kept_messages_delivered:
  assumes "online s ident i" and "ikeys (ps_outstandings s)"
    and "getPeerMessages s ident = Some v" and "map_find (ps_vectors s) v = Some pms"
    and "\<forall>pm \<in> set pms. iequals (pm_dst pm) ident"
  shows "\<exists>s'. processOutstanding ident s = Inr s' \<and> getPeerMessages s' ident = None \<and>
    wn_out (ps_net s') = wn_out (ps_net s) @ map (\<lambda>pm. WsSend i (pm_data pm)) pms"
proof -
  obtain k where k: "ifind (ps_outstandings s) ident = Some (k, v)"
    using assms(3) by (auto simp: getPeerMessages_def)
  note kk = ifind_Some [OF k]
  let ?t = "fold (\<lambda>pm. sent_on i (pm_data pm)) pms s"
  have "removePeerMessages ident ?t = Inr (True, ?t\<lparr>ps_vectors := map_erase v (ps_vectors ?t),
      ps_outstandings := map_erase k (ps_outstandings ?t)\<rparr>)"
    using k assms(4) by (simp add: removePeerMessages_def get_vector_def)
  moreover have "ifind (map_erase k (ps_outstandings s)) ident = None"
    using ifind_erase [OF assms(2), of k v ident] kk by (simp add: iequals_sym)
  ultimately show ?thesis
    using assms(3,4) online_all [OF assms(1,5)]
    by (simp add: processOutstanding_def get_vector_def) (simp add: getPeerMessages_def)
qed

lemma kept_messages_delivered_witness:
  "\<exists>s'. processOutstanding ''b''
     \<lparr>ps_net = \<lparr>wn_sessions = [(5, \<lparr>wss_closing = False, wss_handlers = []\<rparr>)], wn_out = []\<rparr>,
      ps_heap = [(2, \<lparr>pr_id = ''b'', pr_token = [], pr_session = Some 5, pr_wired = 0\<rparr>)],
      ps_vectors = [(7, [\<lparr>pm_type = ''OFFER'', pm_src = ''a'', pm_dst = ''b'', pm_data = ''1''\<rparr>])],
      ps_next = 8, ps_peers = [(''b'', 2)], ps_outstandings = [(''b'', 7)]\<rparr> = Inr s' \<and>
   getPeerMessages s' ''b'' = None \<and>
   wn_out (ps_net s') = wn_out (ps_net
     \<lparr>ps_net = \<lparr>wn_sessions = [(5, \<lparr>wss_closing = False, wss_handlers = []\<rparr>)], wn_out = []\<rparr>,
      ps_heap = [(2, \<lparr>pr_id = ''b'', pr_token = [], pr_session = Some 5, pr_wired = 0\<rparr>)],
      ps_vectors = [(7, [\<lparr>pm_type = ''OFFER'', pm_src = ''a'', pm_dst = ''b'', pm_data = ''1''\<rparr>])],
      ps_next = 8, ps_peers = [(''b'', 2)], ps_outstandings = [(''b'', 7)]\<rparr>)
     @ map (\<lambda>pm. WsSend 5 (pm_data pm)) [\<lparr>pm_type = ''OFFER'', pm_src = ''a'', pm_dst = ''b'', pm_data = ''1''\<rparr>]"
  by (rule kept_messages_delivered [where v = 7]) (simp_all add: online_def getPeer_def getPeerMessages_def)

section \<open>Peers that leave\<close>

text \<open>
  A client may delete its own peer with a \<open>LEAVE\<close> that names nobody; its session still holds
  the address of the peer, so the end of the session, like its next message, uses freed memory.
\<close>

theorem leave_then_close_faults:
  assumes "parse (cstr msg) = JObj ms"
    and "lookup_member ms ''type'' = JStr ''LEAVE''" and "lookup_member ms ''dst'' = JStr []" and "lookup_member ms ''payload'' \<noteq> JNull"
    and "map_find (wn_sessions (ps_net s)) i = Some \<lparr>wss_closing = False, wss_handlers = [p]\<rparr>"
    and "map_find (ps_heap s) p = Some x" and "pr_wired x = 1" and "getPeer s (pr_id x) = Some p"
    and "getPeer s [] = None" and "map_wf (ps_heap s)"
  shows "\<exists>s'. peer_step rx parse text s (PeerSays i msg) = Inr s' \<and>
    peer_step rx parse text s' (PeerGone i) = Inl UseAfterFree \<and>
    peer_step rx parse text s' (PeerSays i msg2) = Inl UseAfterFree"
proof -
  obtain k where k: "ifind (ps_peers s) (pr_id x) = Some (k, p)" using assms(8) by (auto simp: getPeer_def)
  let ?s = "s\<lparr>ps_heap := map_erase p (ps_heap s), ps_peers := map_erase k (ps_peers s)\<rparr>"
  have L: "cstr ''LEAVE'' = ''LEAVE''" "cstr [] = []" by (simp_all add: cstr_def)
  have "handleTransmission \<lparr>pm_type = ''LEAVE'', pm_src = pr_id x, pm_dst = [], pm_data = d\<rparr> s = Inr ?s" for d
    using assms(6,9) k by (simp add: handleTransmission.simps [of "\<lparr>pm_type = ''LEAVE'', pm_src = pr_id x, pm_dst = [], pm_data = d\<rparr>"]
        removePeer_def get_peer_def)
  then have "onPeerMessage parse text p msg s = Inr ?s"
    using assms(1-4,6) by (simp add: onPeerMessage_def Let_def get_peer_def L)
  then have "peer_step rx parse text s (PeerSays i msg) = Inr ?s"
    using assms(5,6,7) by (simp add: ws_on_message_def peer_onMessage_def get_peer_def)
  moreover have "get_peer ?s p = Inl UseAfterFree" using assms(10) by (simp add: get_peer_def map_find_erase)
  then have "peer_step rx parse text ?s (PeerGone i) = Inl UseAfterFree"
    "peer_step rx parse text ?s (PeerSays i msg2) = Inl UseAfterFree"
    using assms(5) by (simp_all add: ws_on_message_def ws_clear_def peer_onMessage_def peer_onClose_def)
  ultimately show ?thesis by blast
qed

lemma leave_then_close_faults_witness:
  "\<exists>s'. peer_step (\<lambda>_. None) (\<lambda>_. JObj [(''type'', JStr ''LEAVE''), (''dst'', JStr []), (''payload'', JInt 0)]) (\<lambda>_. [])
     \<lparr>ps_net = \<lparr>wn_sessions = [(5, \<lparr>wss_closing = False, wss_handlers = [2]\<rparr>)], wn_out = []\<rparr>,
      ps_heap = [(2, \<lparr>pr_id = ''b'', pr_token = [], pr_session = Some 5, pr_wired = 1\<rparr>)],
      ps_vectors = [], ps_next = 8, ps_peers = [(''b'', 2)], ps_outstandings = []\<rparr> (PeerSays 5 ''m'') = Inr s' \<and>
   peer_step (\<lambda>_. None) (\<lambda>_. JObj [(''type'', JStr ''LEAVE''), (''dst'', JStr []), (''payload'', JInt 0)]) (\<lambda>_. [])
     s' (PeerGone 5) = Inl UseAfterFree \<and>
   peer_step (\<lambda>_. None) (\<lambda>_. JObj [(''type'', JStr ''LEAVE''), (''dst'', JStr []), (''payload'', JInt 0)]) (\<lambda>_. [])
     s' (PeerSays 5 ''n'') = Inl UseAfterFree"
  by (rule leave_then_close_faults [where p = 2 and ms = "[(''type'', JStr ''LEAVE''), (''dst'', JStr []), (''payload'', JInt 0)]"
        and x = "\<lparr>pr_id = ''b'', pr_token = [], pr_session = Some 5, pr_wired = 1\<rparr>"])
     (simp_all add: getPeer_def)

end
