(* ===== verification/Framing.thy ===== *)
theory Framing
  imports Prelude
begin

text \<open>
  The framing of the messages between the daemon and the platform program on the device:
  \<open>StringUtils\<close> (flint/src/utils/StringUtils.cpp), the receive buffer of \<open>TcpSessionWrapper\<close> and the
  sending side of \<open>PlatformPal\<close> (flint/src/platform/PlatformPal.cpp). A message is sent as its
  length in decimal, a colon and its bytes; the stream may be cut anywhere.
\<close>

section \<open>StringUtils\<close>

text \<open>
  \<open>find_first_of\<close>, whose \<open>npos\<close> becomes -1 as an \<open>int\<close>; a position is below \<open>2 ^ 31\<close>, which a
  receive buffer filled by reads of 4096 bytes does not reach.
\<close>

fun FindFirstSymbol :: "string \<Rightarrow> string \<Rightarrow> int" where
  "FindFirstSymbol wbol [] = -1"
| "FindFirstSymbol wbol (c # cs) =
     (if c \<in> set wbol then 0
      else let i = FindFirstSymbol wbol cs in if i < 0 then -1 else i + 1)"

definition EraseString :: "string \<Rightarrow> nat \<Rightarrow> nat \<Rightarrow> string" where
  "EraseString str start len = take start str @ drop (start + len) str"

definition ShiftStringLeft :: "string \<Rightarrow> nat \<Rightarrow> string" where
  "ShiftStringLeft str len = EraseString str 0 len"

definition HeadSubString :: "string \<Rightarrow> nat \<Rightarrow> string" where
  "HeadSubString str len = take len str"

definition SubString :: "string \<Rightarrow> nat \<Rightarrow> nat \<Rightarrow> string" where
  "SubString str start len = take len (drop start str)"

text \<open>\<open>atoi\<close>: a value outside \<open>int\<close> is undefined behaviour.\<close>

definition atoi :: "string \<Rightarrow> fault + int" where
  "atoi str =
     (let s = dropWhile isspace str;
          neg = (s \<noteq> [] \<and> hd s = CHR ''-'');
          ds = takeWhile isdigit (if s \<noteq> [] \<and> (hd s = CHR ''-'' \<or> hd s = CHR ''+'') then tl s else s);
          v = (if neg then - int (digits_value 0 ds) else int (digits_value 0 ds))
      in if - (2 ^ 31) \<le> v \<and> v < 2 ^ 31 then Inr v else Inl SignedOverflow)"

section \<open>The receiving side\<close>

text \<open>The result is the number of bytes to erase and the value \<open>outData\<close> has afterwards.\<close>

definition parse_frame :: "string \<Rightarrow> string \<Rightarrow> fault + nat \<times> string" where
  "parse_frame message outData =
     (let index = FindFirstSymbol '':'' message
      in if 0 \<le> index then
           let lenStr = cstr (HeadSubString message (nat index))
           in bindE (atoi lenStr) (\<lambda>len.
              if len \<le> 0 then Inr (length message, [])
              else if nat len \<le> length message - length lenStr - 1 then
                Inr (nat index + 1 + nat len, SubString message (nat index + 1) (nat len))
              else Inr (0, []))
         else Inr (0, outData))"

text \<open>
  The loop of \<open>TcpSessionWrapper::onMessage\<close>, with what \<open>processMessage\<close> does as \<open>process\<close>. It goes
  round again with the shorter buffer.
\<close>

lemma FindFirstSymbol_length: "0 \<le> FindFirstSymbol wbol s \<Longrightarrow> s \<noteq> []"
  by auto

lemma parse_frame_empty: "parse_frame [] d = Inr (0, d)"
  by (simp add: parse_frame_def)

function receive_loop :: "(string \<Rightarrow> 's \<Rightarrow> fault + 's) \<Rightarrow> string \<Rightarrow> string \<Rightarrow> 's \<Rightarrow> fault + string \<times> 's" where
  "receive_loop process buffer data s =
     bindE (parse_frame buffer data) (\<lambda>(erase, out).
     if erase = 0 then Inr (buffer, s)
     else
       let rest = ShiftStringLeft buffer erase
       in if out \<noteq> [] then bindE (process out s) (\<lambda>s1. receive_loop process rest out s1)
          else Inr (rest, s))"
  by pat_completeness auto
termination
proof (relation "measure (\<lambda>(_, buffer, _, _). length buffer)", goal_cases)
  case (2 process buffer data s r erase out rest s1)
  then have "buffer \<noteq> []" by (auto simp: parse_frame_empty)
  with 2 show ?case by (auto simp: ShiftStringLeft_def EraseString_def)
qed simp

declare receive_loop.simps [simp del]

definition tcp_receive :: "(string \<Rightarrow> 's \<Rightarrow> fault + 's) \<Rightarrow> string \<Rightarrow> string \<times> 's \<Rightarrow> fault + string \<times> 's" where
  "tcp_receive process message st = receive_loop process (fst st @ message) [] (snd st)"

section \<open>The sending side\<close>

definition frame :: "string \<Rightarrow> string" where
  "frame message = show_nat (length message) @ '':'' @ message"

definition sendable :: "string \<Rightarrow> bool" where
  "sendable m \<longleftrightarrow> m \<noteq> [] \<and> length m < 2 ^ 31"

section \<open>What the loop does with a stream of frames\<close>

lemma FindFirstSymbol_absent: "\<forall>c \<in> set s. c \<notin> set w \<Longrightarrow> FindFirstSymbol w s = -1"
  by (induction s) (auto simp: Let_def)

lemma FindFirstSymbol_first:
  "\<forall>c \<in> set s. c \<notin> set w \<Longrightarrow> x \<in> set w \<Longrightarrow> FindFirstSymbol w (s @ x # t) = int (length s)"
  by (induction s) (auto simp: Let_def)

lemma digit_facts: "isdigit c \<Longrightarrow> c \<noteq> CHR '':'' \<and> c \<noteq> NUL \<and> c \<noteq> CHR ''-'' \<and> c \<noteq> CHR ''+'' \<and> \<not> isspace c"
  by (auto simp: isdigit_def isspace_def)

lemma no_colon: "c \<in> set (show_nat n) \<Longrightarrow> c \<noteq> CHR '':''"
  using digit_facts [OF isdigit_show_nat] by blast

lemma cstr_show_nat [simp]: "cstr (show_nat n) = show_nat n"
  by (rule cstr_id) (use digit_facts [OF isdigit_show_nat] in blast)

lemma atoi_show_nat: "n < 2 ^ 31 \<Longrightarrow> atoi (show_nat n) = Inr (int n)"
proof -
  assume n: "n < 2 ^ 31"
  obtain c cs where s: "show_nat n = c # cs" by (cases "show_nat n") auto
  have d: "\<forall>c \<in> set (show_nat n). isdigit c" by (auto simp: isdigit_show_nat)
  have c: "c \<noteq> CHR ''-''" "c \<noteq> CHR ''+''" "\<not> isspace c" using digit_facts [of c] d by (simp_all add: s)
  have "takeWhile isdigit (show_nat n) = show_nat n" using d by (simp add: takeWhile_eq_all_conv)
  then have "digits_value 0 (takeWhile isdigit (c # cs)) = n" using digits_value_show_nat [of n] by (simp only: s)
  with n c show ?thesis unfolding atoi_def s by (simp add: Let_def del: takeWhile.simps)
qed

lemma parse_frame_whole:
  assumes "sendable m"
  shows "parse_frame (frame m @ t) d = Inr (length (frame m), m)"
proof -
  have "FindFirstSymbol '':'' (show_nat (length m) @ CHR '':'' # m @ t) = int (length (show_nat (length m)))"
    by (rule FindFirstSymbol_first) (auto dest: no_colon)
  with assms show ?thesis
    by (simp add: parse_frame_def frame_def sendable_def Let_def HeadSubString_def SubString_def atoi_show_nat)
qed

text \<open>A proper beginning of a frame is left in the buffer.\<close>

lemma parse_frame_part:
  assumes m: "sendable m" and p: "strict_prefix b (frame m)"
  shows "\<exists>d'. parse_frame b d = Inr (0, d')"
proof (cases "CHR '':'' \<in> set b")
  case False
  then have "FindFirstSymbol '':'' b = -1" by (intro FindFirstSymbol_absent) auto
  then show ?thesis by (simp add: parse_frame_def)
next
  case True
  let ?n = "show_nat (length m)"
  obtain zs where zs: "frame m = b @ zs" "zs \<noteq> []" using p by (auto simp: strict_prefix_def prefix_def)
  have "\<not> prefix b ?n"
    using True no_colon [of "CHR '':''" "length m"] by (auto dest: set_mono_prefix)
  moreover have "prefix b (?n @ '':'' @ m)" using zs by (simp add: frame_def prefix_def)
  ultimately obtain us where us: "b = ?n @ us" "prefix us ('':'' @ m)" "us \<noteq> []" by (auto simp: prefix_append)
  then obtain t where b: "b = ?n @ '':'' @ t" "prefix t m" by (cases us) auto
  then have "length t < length m" using zs by (auto simp: frame_def)
  moreover have "FindFirstSymbol '':'' b = int (length ?n)"
    unfolding b(1) by (simp, rule FindFirstSymbol_first) (auto dest: no_colon)
  ultimately show ?thesis
    using m by (simp add: parse_frame_def sendable_def Let_def b HeadSubString_def atoi_show_nat)
qed

lemma receive_whole:
  assumes "sendable m"
  shows "receive_loop process (frame m @ t) d s = bindE (process m s) (\<lambda>s1. receive_loop process t m s1)"
proof -
  have "m \<noteq> []" "frame m \<noteq> []" using assms by (simp_all add: sendable_def frame_def)
  then show ?thesis
    by (simp add: receive_loop.simps [of process "frame m @ t"] parse_frame_whole [OF assms] ShiftStringLeft_def EraseString_def)
qed

lemma receive_part: "sendable m \<Longrightarrow> strict_prefix b (frame m) \<Longrightarrow> receive_loop process b d s = Inr (b, s)"
  using parse_frame_part [of m b d] by (auto simp: receive_loop.simps [of process b d s])

lemma receive_nothing: "receive_loop process [] d s = Inr ([], s)"
  by (simp add: receive_loop.simps parse_frame_empty)

lemma receive_frames:
  "\<forall>m \<in> set ms. sendable m \<Longrightarrow>
   \<exists>d'. receive_loop process (concat (map frame ms) @ t) d s
     = bindE (foldE (\<lambda>s m. process m s) s ms) (\<lambda>s1. receive_loop process t d' s1)"
proof (induction ms arbitrary: d s)
  case (Cons m ms)
  have "\<exists>d'. receive_loop process (concat (map frame ms) @ t) m s1
      = bindE (foldE (\<lambda>s m. process m s) s1 ms) (\<lambda>s1. receive_loop process t d' s1)" for s1
    using Cons by simp
  moreover have "receive_loop process (concat (map frame (m # ms)) @ t) d s
      = bindE (process m s) (\<lambda>s1. receive_loop process (concat (map frame ms) @ t) m s1)"
    using Cons.prems by (simp add: receive_whole)
  ultimately show ?case by (cases "process m s") (simp_all add: bindE_assoc)
qed auto

text \<open>What is in the buffer between two reads: nothing, or the beginning of the next frame.\<close>

definition in_progress :: "string \<Rightarrow> string list \<Rightarrow> bool" where
  "in_progress b ms \<longleftrightarrow> b = [] \<or> (ms \<noteq> [] \<and> strict_prefix b (frame (hd ms)))"

lemma frames_cut:
  assumes "b @ t = concat (map frame ms)"
  obtains ms1 ms2 r where "ms = ms1 @ ms2" and "b = concat (map frame ms1) @ r" and "in_progress r ms2"
    and "r @ t = concat (map frame ms2)"
  using assms
proof (induction ms arbitrary: b thesis)
  case Nil
  then show ?case by (auto simp: in_progress_def)
next
  case (Cons m ms)
  show ?case
  proof (cases "strict_prefix b (frame m)")
    case True
    with Cons.prems show ?thesis by (intro Cons.prems(1) [of "[]" "m # ms" b]) (auto simp: in_progress_def)
  next
    case False
    have "prefix b (frame m @ concat (map frame ms))" 
      by (rule prefixI [of _ _ t]) (use Cons.prems(2) in simp)
    then obtain c where b: "b = frame m @ c" using False by (auto simp: prefix_append strict_prefix_def)
    with Cons.prems(2) have "c @ t = concat (map frame ms)" by simp
    from Cons.IH [OF _ this] obtain ms1 ms2 r where
      "ms = ms1 @ ms2" "c = concat (map frame ms1) @ r" "in_progress r ms2" "r @ t = concat (map frame ms2)" by blast
    then show ?thesis using b by (intro Cons.prems(1) [of "m # ms1" ms2 r]) auto
  qed
qed

lemma receive_in_progress:
  "\<forall>m \<in> set ms. sendable m \<Longrightarrow> in_progress r ms \<Longrightarrow> receive_loop process r d s = Inr (r, s)"
  by (cases ms) (auto simp: in_progress_def receive_nothing receive_part)

lemma receive_chunks:
  assumes "\<forall>m \<in> set ms. sendable m" and "in_progress b ms" and "b @ concat cs = concat (map frame ms)"
  shows "foldE (\<lambda>st c. tcp_receive process c st) (b, s) cs
    = bindE (foldE (\<lambda>s m. process m s) s ms) (\<lambda>s1. Inr ([], s1))"
  using assms
proof (induction cs arbitrary: b ms s)
  case Nil
  then have "ms = []" and "b = []"
    by (cases ms; auto simp: in_progress_def strict_prefix_def prefix_def frame_def)+
  then show ?case by simp
next
  case (Cons c cs)
  have "(b @ c) @ concat cs = concat (map frame ms)" using Cons.prems(3) by simp
  then obtain ms1 ms2 r where cut: "ms = ms1 @ ms2" "b @ c = concat (map frame ms1) @ r" "in_progress r ms2"
    "r @ concat cs = concat (map frame ms2)" by (rule frames_cut)
  have ok: "\<forall>m \<in> set ms1. sendable m" "\<forall>m \<in> set ms2. sendable m" using Cons.prems(1) cut(1) by auto
  obtain d' where "receive_loop process (b @ c) [] s
      = bindE (foldE (\<lambda>s m. process m s) s ms1) (\<lambda>s1. receive_loop process r d' s1)"
    using receive_frames [OF ok(1), of process r "[]" s] cut(2) by auto
  then have "tcp_receive process c (b, s) = bindE (foldE (\<lambda>s m. process m s) s ms1) (\<lambda>s1. Inr (r, s1))"
    by (simp add: tcp_receive_def receive_in_progress [OF ok(2) cut(3)])
  then show ?case
    by (cases "foldE (\<lambda>s m. process m s) s ms1") (simp_all add: cut(1) foldE_append Cons.IH [OF ok(2) cut(3,4)])
qed

text \<open>
  C34. However the stream of framed messages is cut into reads, the receiver processes exactly the
  messages that were sent, each once and in order, and its buffer is empty at the end. It holds
  for whatever processing a message does, faults included.
\<close>

theorem framing_chunk_independent:
  assumes "\<forall>m \<in> set ms. sendable m" and "concat chunks = concat (map frame ms)"
  shows "foldE (\<lambda>st c. tcp_receive process c st) ([], s) chunks
    = bindE (foldE (\<lambda>s m. process m s) s ms) (\<lambda>s1. Inr ([], s1))"
  by (rule receive_chunks [OF assms(1)]) (use assms(2) in \<open>simp_all add: in_progress_def\<close>)

theorem framing_chunk_independent_witness:
  "foldE (\<lambda>st c. tcp_receive (\<lambda>m log. Inr (log @ [m])) c st) ([], []) [''2'', '':{'', ''}2:[]''] = Inr ([], [''{}'', ''[]''])"
proof -
  have "foldE (\<lambda>st c. tcp_receive (\<lambda>m log. Inr (log @ [m])) c st) ([], []) [''2'', '':{'', ''}2:[]'']
    = bindE (foldE (\<lambda>log m. Inr (log @ [m])) [] [''{}'', ''[]'']) (\<lambda>s1. Inr ([], s1))"
    by (rule framing_chunk_independent) (simp_all add: sendable_def frame_def, code_simp)
  then show ?thesis by simp
qed

text \<open>
  A header that is not a positive length makes the receiver throw away everything it has
  received so far, complete messages behind that header included.
\<close>

theorem illegal_header_clears_buffer:
  assumes "\<forall>c \<in> set h. c \<noteq> CHR '':''" and "atoi (cstr h) = Inr n" and "n \<le> 0"
  shows "tcp_receive process (h @ '':'' @ t) ([], s) = Inr ([], s)"
proof -
  have "FindFirstSymbol '':'' (h @ CHR '':'' # t) = int (length h)"
    by (rule FindFirstSymbol_first) (use assms(1) in auto)
  then have "parse_frame (h @ CHR '':'' # t) [] = Inr (length (h @ CHR '':'' # t), [])"
    using assms(2,3) by (simp add: parse_frame_def Let_def HeadSubString_def)
  then show ?thesis
    by (simp add: tcp_receive_def receive_loop.simps [of process "h @ CHR '':'' # t"] ShiftStringLeft_def EraseString_def)
qed

theorem illegal_header_clears_buffer_witness:
  "tcp_receive (\<lambda>m log. Inr (log @ [m])) (''x'' @ '':'' @ ''2:{}'') ([], []) = Inr ([], [])"
  by (rule illegal_header_clears_buffer [where n = 0]) (simp_all, code_simp)

end
