(* ===== verification/Platform.thy ===== *)
theory Platform
  imports Framing Http
begin

text \<open>
  \<open>Platform\<close> and \<open>PlatformPal\<close> (flint/src/platform): the device the daemon runs on, reached over TCP
  connections that the device opens. The daemon sends commands as framed JSON messages to all of
  them; the device reports its name, volume and mute state the same way.

  A connection is a \<open>TcpSessionWrapper\<close> with the \<open>TCPSession\<close> (flint/src/tcp/TCPServer.cpp) it wraps:
  both are made when the connection is accepted and deleted when it closes, so they share one
  address on the heap. \<open>parse\<close> and \<open>text\<close> are the JSON library. A send is recorded with the connection
  it goes to.
\<close>

section \<open>State\<close>

text \<open>The constructor of \<open>Platform\<close> sets neither \<open>muted_\<close> nor \<open>volume_\<close>.\<close>

record tcp_wrapper =
  tw_addr :: string
  tw_buffer :: string

record platform =
  pl_muted :: "bool option"
  pl_volume :: "(int \<times> int) option"
  pl_deviceName :: string
  pl_modelName :: string
  pl_server :: bool
  pl_sessions :: "nat list"
  pl_wrappers :: "(nat, tcp_wrapper) std_map"
  pl_next :: nat
  pl_sent :: "(nat \<times> string) list"

definition new_PlatformPal :: "string \<Rightarrow> platform" where
  "new_PlatformPal uuid =
     \<lparr>pl_muted = None, pl_volume = None, pl_deviceName = ''Matchstick'' @ take 4 uuid, pl_modelName = ''Matchstick'',
      pl_server = False, pl_sessions = [], pl_wrappers = [], pl_next = 0, pl_sent = []\<rparr>"

definition new_PlatformFfos :: "string \<Rightarrow> platform" where
  "new_PlatformFfos uuid = (new_PlatformPal uuid)\<lparr>pl_deviceName := []\<rparr>"

definition pal_init :: "platform \<Rightarrow> platform" where
  "pal_init s = s\<lparr>pl_server := True\<rparr>"

definition pal_reset :: "platform \<Rightarrow> platform" where
  "pal_reset s = s\<lparr>pl_server := False\<rparr>"

definition get_wrapper :: "platform \<Rightarrow> nat \<Rightarrow> fault + tcp_wrapper" where
  "get_wrapper s i = (case map_find (pl_wrappers s) i of None \<Rightarrow> Inl UseAfterFree | Some w \<Rightarrow> Inr w)"

section \<open>Reports of the device\<close>

definition onNameChange :: "string \<Rightarrow> platform \<Rightarrow> platform" where
  "onNameChange name s = s\<lparr>pl_deviceName := name\<rparr>"

definition onMuteChange :: "bool \<Rightarrow> platform \<Rightarrow> platform" where
  "onMuteChange mute s = s\<lparr>pl_muted := Some mute\<rparr>"

definition onVolumeChange :: "int \<times> int \<Rightarrow> platform \<Rightarrow> platform" where
  "onVolumeChange volume s = s\<lparr>pl_volume := Some volume\<rparr>"

text \<open>A member of a report that is present is read and passed on; one that is absent is skipped.\<close>

definition report ::
  "json \<Rightarrow> string \<Rightarrow> (json \<Rightarrow> fault + 'v) \<Rightarrow> ('v \<Rightarrow> platform \<Rightarrow> platform) \<Rightarrow> platform \<Rightarrow> fault + platform" where
  "report doc key read change s =
     bindE (js_member doc key) (\<lambda>j. if j = JNull then Inr s else bindE (read j) (\<lambda>v. Inr (change v s)))"

definition processMessage :: "(string \<Rightarrow> json) \<Rightarrow> string \<Rightarrow> platform \<Rightarrow> fault + platform" where
  "processMessage parse message s =
     (let doc = parse (cstr message)
      in if doc = JNull then Inr s
         else bindE (report doc ''name'' js_string onNameChange s) (\<lambda>s1.
              bindE (report doc ''volumeMuted'' js_bool onMuteChange s1)
              (report doc ''volumeLevel'' js_double onVolumeChange)))"

section \<open>Connections\<close>

definition onSessionConnect :: "string \<Rightarrow> platform \<Rightarrow> platform" where
  "onSessionConnect addr s =
     s\<lparr>pl_wrappers := map_insert (pl_next s) \<lparr>tw_addr = addr, tw_buffer = []\<rparr> (pl_wrappers s),
       pl_sessions := pl_sessions s @ [pl_next s], pl_next := pl_next s + 1\<rparr>"

definition accept_handler :: "string \<Rightarrow> platform \<Rightarrow> platform" where
  "accept_handler addr s = (if pl_server s then onSessionConnect addr s else s)"

definition wrapper_onMessage :: "(string \<Rightarrow> json) \<Rightarrow> nat \<Rightarrow> string \<Rightarrow> platform \<Rightarrow> fault + platform" where
  "wrapper_onMessage parse i message s =
     bindE (get_wrapper s i) (\<lambda>w.
     bindE (tcp_receive (processMessage parse) message (tw_buffer w, s)) (\<lambda>(buffer, s1).
     Inr (s1\<lparr>pl_wrappers := map_set i (w\<lparr>tw_buffer := buffer\<rparr>) (pl_wrappers s1)\<rparr>)))"

fun erase_addr :: "platform \<Rightarrow> string \<Rightarrow> nat list \<Rightarrow> fault + nat list" where
  "erase_addr s addr [] = Inr []"
| "erase_addr s addr (i # it) =
     bindE (get_wrapper s i) (\<lambda>w.
     if iequals (tw_addr w) addr then Inr it else bindE (erase_addr s addr it) (\<lambda>rest. Inr (i # rest)))"

definition onSessionClose :: "string \<Rightarrow> platform \<Rightarrow> fault + platform" where
  "onSessionClose addr s = bindE (erase_addr s addr (pl_sessions s)) (\<lambda>ss. Inr (s\<lparr>pl_sessions := ss\<rparr>))"

definition wrapper_onClose :: "nat \<Rightarrow> platform \<Rightarrow> fault + platform" where
  "wrapper_onClose i s =
     bindE (get_wrapper s i) (\<lambda>w.
     bindE (onSessionClose (tw_addr w) s) (\<lambda>s1.
     Inr (s1\<lparr>pl_wrappers := map_erase i (pl_wrappers s1)\<rparr>)))"

text \<open>\<open>TCPSession::handle_read\<close>: a read of at least one byte is a message, all else the end.\<close>

definition handle_read :: "(string \<Rightarrow> json) \<Rightarrow> nat \<Rightarrow> bool \<Rightarrow> string \<Rightarrow> platform \<Rightarrow> fault + platform" where
  "handle_read parse i error bytes s =
     (if \<not> error \<and> bytes \<noteq> [] then wrapper_onMessage parse i bytes s else wrapper_onClose i s)"

section \<open>Commands to the device\<close>

definition wrapper_send :: "string \<Rightarrow> nat \<Rightarrow> platform \<Rightarrow> fault + platform" where
  "wrapper_send message i s = bindE (get_wrapper s i) (\<lambda>_. Inr (s\<lparr>pl_sent := pl_sent s @ [(i, message)]\<rparr>))"

definition sendMessageToAllSessions :: "string \<Rightarrow> platform \<Rightarrow> fault + platform" where
  "sendMessageToAllSessions message s = foldE (\<lambda>t i. wrapper_send (frame message) i t) s (pl_sessions s)"

definition send_command :: "(json \<Rightarrow> string) \<Rightarrow> json \<Rightarrow> platform \<Rightarrow> fault + platform" where
  "send_command text command s =
     (if pl_sessions s \<noteq> [] then sendMessageToAllSessions (cstr (text command)) s else Inr s)"

definition onSetVolume :: "(json \<Rightarrow> string) \<Rightarrow> int \<times> int \<Rightarrow> platform \<Rightarrow> fault + platform" where
  "onSetVolume text volume =
     send_command text (JObj [(''type'', jstr ''SET_VOLUME''), (''level'', JDouble (fst volume) (snd volume))])"

definition onSetMuted :: "(json \<Rightarrow> string) \<Rightarrow> bool \<Rightarrow> platform \<Rightarrow> fault + platform" where
  "onSetMuted text muted = send_command text (JObj [(''type'', jstr ''SET_MUTED''), (''muted'', JBool muted)])"

definition app_command :: "string \<Rightarrow> string \<Rightarrow> json" where
  "app_command type url = JObj [(''type'', jstr type), (''app_info'', JObj [(''url'', jstr url)])]"

definition onLaunchWebApp :: "(json \<Rightarrow> string) \<Rightarrow> string \<Rightarrow> platform \<Rightarrow> fault + platform" where
  "onLaunchWebApp text url = send_command text (app_command ''LAUNCH_RECEIVER'' url)"

definition onLaunchNativeApp :: "(json \<Rightarrow> string) \<Rightarrow> string \<Rightarrow> platform \<Rightarrow> fault + platform" where
  "onLaunchNativeApp text app = send_command text (app_command ''LAUNCH_RECEIVER'' app)"

definition onStopWebApp :: "(json \<Rightarrow> string) \<Rightarrow> string \<Rightarrow> platform \<Rightarrow> fault + platform" where
  "onStopWebApp text url = send_command text (app_command ''STOP_RECEIVER'' url)"

definition onStopNativeApp :: "(json \<Rightarrow> string) \<Rightarrow> string \<Rightarrow> platform \<Rightarrow> fault + platform" where
  "onStopNativeApp text app = send_command text (app_command ''STOP_RECEIVER'' app)"

definition pal_setVolume :: "(json \<Rightarrow> string) \<Rightarrow> int \<times> int \<Rightarrow> platform \<Rightarrow> fault + platform" where
  "pal_setVolume text volume s = onSetVolume text volume s"

definition pal_setMuted :: "(json \<Rightarrow> string) \<Rightarrow> bool \<Rightarrow> platform \<Rightarrow> fault + platform" where
  "pal_setMuted text muted s = onSetMuted text muted s"

definition getVolume :: "platform \<Rightarrow> fault + int \<times> int" where
  "getVolume s = (case pl_volume s of None \<Rightarrow> Inl Uninitialised | Some v \<Rightarrow> Inr v)"

definition getMuted :: "platform \<Rightarrow> fault + bool" where
  "getMuted s = (case pl_muted s of None \<Rightarrow> Inl Uninitialised | Some b \<Rightarrow> Inr b)"

section \<open>Applications\<close>

definition isWebApp :: "string \<Rightarrow> bool" where
  "isWebApp url \<longleftrightarrow> starts_with url ''http://'' \<or> starts_with url ''https://''"

definition isNativeApp :: "string \<Rightarrow> bool" where
  "isNativeApp url \<longleftrightarrow> starts_with url ''app:?''"

definition parseAppInfo :: "(string \<Rightarrow> json) \<Rightarrow> string \<Rightarrow> fault + string" where
  "parseAppInfo parse appInfo = bindE (js_member (parse (cstr appInfo)) ''url'') js_string"

text \<open>\<open>boost::ierase_first\<close>.\<close>

fun ierase_first :: "string \<Rightarrow> string \<Rightarrow> string" where
  "ierase_first pat [] = []"
| "ierase_first pat (c # cs) =
     (if istarts_with (c # cs) pat then drop (length pat) (c # cs) else c # ierase_first pat cs)"

definition plat_launchApplication ::
  "(string \<Rightarrow> json) \<Rightarrow> (json \<Rightarrow> string) \<Rightarrow> string \<Rightarrow> platform \<Rightarrow> fault + bool \<times> platform" where
  "plat_launchApplication parse text appInfo s =
     bindE (parseAppInfo parse appInfo) (\<lambda>url.
     if isWebApp url then bindE (onLaunchWebApp text url s) (\<lambda>s1. Inr (True, s1))
     else if isNativeApp url then
       bindE (onLaunchNativeApp text (ierase_first ''app:?'' url) s) (\<lambda>s1. Inr (True, s1))
     else Inr (False, s))"

definition plat_stopApplication ::
  "(string \<Rightarrow> json) \<Rightarrow> (json \<Rightarrow> string) \<Rightarrow> string \<Rightarrow> platform \<Rightarrow> fault + platform" where
  "plat_stopApplication parse text appInfo s =
     bindE (parseAppInfo parse appInfo) (\<lambda>url.
     if isWebApp url then onStopWebApp text url s
     else if isNativeApp url then onStopNativeApp text (ierase_first ''app:?'' url) s
     else Inr s)"

text \<open>The part of \<open>launchApplication\<close> the application manager sees.\<close>

definition can_launch :: "(string \<Rightarrow> json) \<Rightarrow> string \<Rightarrow> bool" where
  "can_launch parse appInfo =
     (case parseAppInfo parse appInfo of Inl _ \<Rightarrow> False | Inr url \<Rightarrow> isWebApp url \<or> isNativeApp url)"

section \<open>Events\<close>

text \<open>
  The remote address and port of a connection identify it: the operating system does not accept a
  second connection from an address while the first is open.
\<close>

datatype platform_event =
    PalConnect string
  | PalRead nat bool string
  | PalSetVolume "int \<times> int"
  | PalSetMuted bool
  | PalLaunch string
  | PalStop string
  | PalInit
  | PalReset

fun pal_step :: "(string \<Rightarrow> json) \<Rightarrow> (json \<Rightarrow> string) \<Rightarrow> platform \<Rightarrow> platform_event \<Rightarrow> fault + platform" where
  "pal_step parse text s (PalConnect addr) =
     (if \<exists>e \<in> set (pl_wrappers s). iequals (tw_addr (snd e)) addr then Inr s else Inr (accept_handler addr s))"
| "pal_step parse text s (PalRead i error bytes) =
     (if map_find (pl_wrappers s) i = None then Inr s else handle_read parse i error bytes s)"
| "pal_step parse text s (PalSetVolume v) = pal_setVolume text v s"
| "pal_step parse text s (PalSetMuted b) = pal_setMuted text b s"
| "pal_step parse text s (PalLaunch info) = bindE (plat_launchApplication parse text info s) (\<lambda>(_, s1). Inr s1)"
| "pal_step parse text s (PalStop info) = plat_stopApplication parse text info s"
| "pal_step parse text s PalInit = Inr (pal_init s)"
| "pal_step parse text s PalReset = Inr (pal_reset s)"

end
