(* ===== verification/DeviceHttp.thy ===== *)
theory DeviceHttp
  imports Platform AppControl
begin

text \<open>
  The two request handlers about the device itself: \<open>SystemControlHandler\<close> (volume and mute) and
  \<open>DeviceDescHandler\<close> (the UPnP description that discovery points to), in flint/src/flint/handler.
  A handler is its constructor; \<open>dev\<close> is the UUID of the device.
\<close>

section \<open>SystemControlHandler\<close>

definition json_headers :: "string \<Rightarrow> (string, string) std_map" where
  "json_headers body = [(''Content-Length'', show_nat (length body)), (''Content-Type'', ''application/json'')]"

definition control_answer :: "(json \<Rightarrow> string) \<Rightarrow> string \<Rightarrow> string \<Rightarrow> json \<Rightarrow> http_response \<Rightarrow> http_response" where
  "control_answer text request key value =
     (let body = cstr (text (JObj [(''success'', JBool True), (''request_type'', jstr request), (key, value)]))
      in response_body HTTP_OK (json_headers body) body)"

definition system_onPost ::
  "(string \<Rightarrow> json) \<Rightarrow> (json \<Rightarrow> string) \<Rightarrow> http_request \<Rightarrow> platform \<Rightarrow> http_response \<Rightarrow> fault + http_response \<times> platform" where
  "system_onPost parse text rq s r =
     (let data = hq_body rq
      in if data = [] then Inr (response_status HTTP_BAD_REQUEST r, s)
         else
           let d = parse (cstr data)
           in if d = JNull then Inr (r, s)
              else
                bindE (js_member d ''type'') (\<lambda>type.
                if type = JNull then Inr (r, s)
                else
                bindE (js_string type) (\<lambda>typeStr.
                if iequals typeStr ''GET_VOLUME'' then
                  bindE (getVolume s) (\<lambda>v.
                  Inr (control_answer text ''GET_VOLUME'' ''level'' (JDouble (fst v) (snd v)) r, s))
                else if iequals typeStr ''GET_MUTED'' then
                  bindE (getMuted s) (\<lambda>b. Inr (control_answer text ''GET_MUTED'' ''muted'' (JBool b) r, s))
                else if iequals typeStr ''SET_VOLUME'' then
                  bindE (js_member d ''level'') (\<lambda>volume.
                  if volume = JNull then Inr (r, s)
                  else
                    bindE (js_double volume) (\<lambda>v.
                    bindE (pal_setVolume text v s) (\<lambda>s1. Inr (response_status HTTP_OK r, s1))))
                else if iequals typeStr ''SET_MUTED'' then
                  bindE (js_member d ''muted'') (\<lambda>muted.
                  if muted = JNull then Inr (r, s)
                  else
                    bindE (js_bool muted) (\<lambda>b.
                    bindE (pal_setMuted text b s) (\<lambda>s1. Inr (response_status HTTP_OK r, s1))))
                else Inr (response_status HTTP_NOT_FOUND r, s))))"

definition SystemControlHandler ::
  "(string \<Rightarrow> json) \<Rightarrow> (json \<Rightarrow> string) \<Rightarrow> http_request \<Rightarrow> platform \<Rightarrow> http_response \<Rightarrow> fault + http_response \<times> platform" where
  "SystemControlHandler parse text rq s r =
     (if iequals (hq_method rq) ''POST'' then system_onPost parse text rq s r
      else if iequals (hq_method rq) ''OPTIONS'' then Inr (response_status HTTP_OK r, s)
      else Inr (response_status HTTP_BAD_REQUEST r, s))"

section \<open>DeviceDescHandler\<close>

definition device_desc :: "string \<Rightarrow> string \<Rightarrow> string \<Rightarrow> string \<Rightarrow> string \<Rightarrow> string \<Rightarrow> string" where
  "device_desc serviceURL host friendlyName manufacturer modelName uuid = concat
     [''<?xml version='', QUOTE, ''1.0'', QUOTE, ''?>'', NL,
      ''<root xmlns='', QUOTE, ''urn:schemas-upnp-org:device-1-0'', QUOTE, ''>'', NL,
      ''  <specVersion>'', NL, ''    <major>1</major>'', NL, ''    <minor>0</minor>'', NL, ''  </specVersion>'', NL,
      ''  <URLBase>http://'', serviceURL, ''</URLBase>'', NL,
      ''  <Host>'', host, ''</Host>'', NL,
      ''  <device>'', NL,
      ''    <deviceType>urn:dial-multiscreen-org:device:dial:1</deviceType>'', NL,
      ''    <friendlyName>'', friendlyName, ''</friendlyName>'', NL,
      ''    <manufacturer>'', manufacturer, ''</manufacturer>'', NL,
      ''    <modelName>'', modelName, ''</modelName>'', NL,
      ''    <UDN>uuid:'', uuid, ''</UDN>'', NL,
      ''    <iconList>'', NL, ''      <icon>'', NL, ''        <mimetype>image/png</mimetype>'', NL,
      ''        <width>98</width>'', NL, ''        <height>55</height>'', NL, ''        <depth>32</depth>'', NL,
      ''        <url>/setup/icon.png</url>'', NL, ''      </icon>'', NL, ''    </iconList>'', NL,
      ''    <serviceList>'', NL, ''      <service>'', NL,
      ''        <serviceType>urn:dial-multiscreen-org:service:dial:1</serviceType>'', NL,
      ''        <serviceId>urn:dial-multiscreen-org:serviceId:dial</serviceId>'', NL,
      ''        <controlURL>/ssdp/notfound</controlURL>'', NL,
      ''        <eventSubURL>/ssdp/notfound</eventSubURL>'', NL,
      ''        <SCPDURL>/ssdp/notfound</SCPDURL>'', NL,
      ''      </service>'', NL, ''    </serviceList>'', NL, ''  </device>'', NL, ''</root>'', NL]"

definition DeviceDescHandler :: "string \<Rightarrow> http_request \<Rightarrow> platform \<Rightarrow> http_response \<Rightarrow> http_response" where
  "DeviceDescHandler dev rq s r =
     (let serviceURL = hq_host rq @ '':9431'';
          friendlyName = pl_deviceName s
      in if iequals friendlyName [] then response_status HTTP_OK r
         else response_body HTTP_OK
           [(''Access-Control-Expose-Headers'', ''Application-URL''),
            (''Application-URL'', ''http://'' @ serviceURL @ ''/apps''),
            (''Content-Type'', ''application/xml'')]
           (device_desc serviceURL (hq_host rq) friendlyName ''openflint'' (pl_modelName s) dev) r)"

end
