(* ===== verification/ReceiverHandler.thy ===== *)
theory ReceiverHandler
  imports DeviceHttp
begin

text \<open>
  \<open>ReceiverApplicationHandler\<close> and \<open>FlintServer\<close> (flint/src/flint): the WebSocket connection of a
  receiver application to the daemon, and the server that routes requests and connections to the
  handlers. A handler is a heap object that lives as long as its connection; it is the listener of
  the session manager, and a timer of it is the flag that it is armed.

  The state joins the application manager, the session manager and the device. What the session
  manager tells its listener is recorded by \<open>Session\<close> and delivered here right after the call, and
  what the application manager asks of the device likewise: neither answer changes what the caller
  does next. \<open>uuid\<close> gives the tokens, \<open>dev\<close> is the UUID of the device, \<open>parse\<close> and \<open>text\<close> are the
  JSON library.
\<close>

section \<open>State\<close>

record receiver_handler =
  rh_appId :: string
  rh_session :: nat
  rh_ppTimer :: bool
  rh_ipTimer :: bool
  rh_cacheIp :: string

record flint_server =
  fs_flint :: flint
  fs_platform :: platform
  fs_net :: "nat ws_net"
  fs_handlers :: "(nat, receiver_handler) std_map"
  fs_next :: nat
  fs_listener :: "nat option"
  fs_ip :: string

definition init_flint_server :: "string \<Rightarrow> flint_server" where
  "init_flint_server dev =
     \<lparr>fs_flint = \<lparr>fl_apps = init_manager, fl_sessions = init_sessions, fl_reply = no_response\<rparr>,
      fs_platform = new_PlatformFfos dev, fs_net = init_net, fs_handlers = [], fs_next = 0,
      fs_listener = None, fs_ip = []\<rparr>"

definition get_handler :: "flint_server \<Rightarrow> nat \<Rightarrow> fault + receiver_handler" where
  "get_handler s h = (case map_find (fs_handlers s) h of None \<Rightarrow> Inl UseAfterFree | Some x \<Rightarrow> Inr x)"

definition upd_handler :: "(receiver_handler \<Rightarrow> receiver_handler) \<Rightarrow> nat \<Rightarrow> flint_server \<Rightarrow> fault + flint_server" where
  "upd_handler f h s = bindE (get_handler s h) (\<lambda>x. Inr (s\<lparr>fs_handlers := map_set h (f x) (fs_handlers s)\<rparr>))"

definition rh_net :: "(nat ws_net \<Rightarrow> fault + nat ws_net) \<Rightarrow> flint_server \<Rightarrow> fault + flint_server" where
  "rh_net f s = bindE (f (fs_net s)) (\<lambda>n. Inr (s\<lparr>fs_net := n\<rparr>))"

section \<open>Messages to the receiver\<close>

definition rh_send :: "(json \<Rightarrow> string) \<Rightarrow> json \<Rightarrow> nat \<Rightarrow> flint_server \<Rightarrow> fault + flint_server" where
  "rh_send text message h s = bindE (get_handler s h) (\<lambda>x. rh_net (ws_send (rh_session x) (cstr (text message))) s)"

definition heartbeat_json :: "string \<Rightarrow> string \<Rightarrow> json" where
  "heartbeat_json appId type = JObj [(''type'', jstr ''heartbeat''), (''appid'', jstr appId), (''heartbeat'', jstr type)]"

definition startHeartbeat_json :: "string \<Rightarrow> json" where
  "startHeartbeat_json appId = JObj [(''type'', jstr ''startHeartbeat''), (''appid'', jstr appId), (''interval'', JInt 3000)]"

definition register_json :: "string \<Rightarrow> string \<Rightarrow> string \<Rightarrow> string \<Rightarrow> json" where
  "register_json dev device appId ip =
     JObj [(''type'', jstr ''registerok''), (''appid'', jstr appId),
       (''service_info'', JObj [(''ip'', JArr [jstr ip]), (''uuid'', jstr dev), (''device_name'', jstr device)])]"

definition sender_json :: "string \<Rightarrow> string \<Rightarrow> string \<Rightarrow> json" where
  "sender_json type appId token = JObj [(''type'', jstr type), (''appid'', jstr appId), (''token'', jstr token)]"

definition sendHeartbeat :: "(json \<Rightarrow> string) \<Rightarrow> string \<Rightarrow> nat \<Rightarrow> flint_server \<Rightarrow> fault + flint_server" where
  "sendHeartbeat text type h s = bindE (get_handler s h) (\<lambda>x. rh_send text (heartbeat_json (rh_appId x) type) h s)"

definition onRegister :: "string \<Rightarrow> (json \<Rightarrow> string) \<Rightarrow> nat \<Rightarrow> flint_server \<Rightarrow> fault + flint_server" where
  "onRegister dev text h s =
     bindE (upd_handler (\<lambda>x. x\<lparr>rh_cacheIp := fs_ip s\<rparr>) h s) (\<lambda>s1.
     bindE (get_handler s1 h) (\<lambda>x.
     rh_send text (register_json dev (pl_deviceName (fs_platform s1)) (rh_appId x) (fs_ip s1)) h s1))"

definition rh_onSenderConnected :: "(json \<Rightarrow> string) \<Rightarrow> string \<Rightarrow> nat \<Rightarrow> flint_server \<Rightarrow> fault + flint_server" where
  "rh_onSenderConnected text token h s =
     bindE (get_handler s h) (\<lambda>x. rh_send text (sender_json ''senderconnected'' (rh_appId x) token) h s)"

definition rh_onSenderDisconnected :: "(json \<Rightarrow> string) \<Rightarrow> string \<Rightarrow> nat \<Rightarrow> flint_server \<Rightarrow> fault + flint_server" where
  "rh_onSenderDisconnected text token h s =
     bindE (get_handler s h) (\<lambda>x. rh_send text (sender_json ''senderdisconnected'' (rh_appId x) token) h s)"

section \<open>Timers and closing\<close>

definition asyncSendPing :: "nat \<Rightarrow> flint_server \<Rightarrow> fault + flint_server" where
  "asyncSendPing = upd_handler (\<lambda>x. x\<lparr>rh_ppTimer := True\<rparr>)"

definition asyncCheckIp :: "nat \<Rightarrow> flint_server \<Rightarrow> fault + flint_server" where
  "asyncCheckIp = upd_handler (\<lambda>x. x\<lparr>rh_ipTimer := True\<rparr>)"

definition startHeartbeat :: "(json \<Rightarrow> string) \<Rightarrow> nat \<Rightarrow> flint_server \<Rightarrow> fault + flint_server" where
  "startHeartbeat text h s =
     bindE (get_handler s h) (\<lambda>x.
     bindE (rh_send text (startHeartbeat_json (rh_appId x)) h s) (asyncSendPing h))"

text \<open>The handlers of the timers for an expiry; an aborted wait does nothing.\<close>

definition handleStartPing :: "(json \<Rightarrow> string) \<Rightarrow> nat \<Rightarrow> flint_server \<Rightarrow> fault + flint_server" where
  "handleStartPing text h s = bindE (sendHeartbeat text ''ping'' h s) (asyncSendPing h)"

definition handleCheckIp :: "string \<Rightarrow> (json \<Rightarrow> string) \<Rightarrow> nat \<Rightarrow> flint_server \<Rightarrow> fault + flint_server" where
  "handleCheckIp dev text h s =
     bindE (get_handler s h) (\<lambda>x.
     bindE (if \<not> iequals (rh_cacheIp x) (fs_ip s) then onRegister dev text h s else Inr s) (asyncCheckIp h))"

definition cancel_timers :: "nat \<Rightarrow> flint_server \<Rightarrow> fault + flint_server" where
  "cancel_timers = upd_handler (\<lambda>x. x\<lparr>rh_ppTimer := False, rh_ipTimer := False\<rparr>)"

definition rh_close :: "nat \<Rightarrow> flint_server \<Rightarrow> fault + flint_server" where
  "rh_close h s =
     bindE (cancel_timers h s) (\<lambda>s1.
     bindE (get_handler s1 h) (\<lambda>x. rh_net (ws_close (rh_session x)) s1))"

definition onReceiverDisconnected :: "string \<Rightarrow> nat \<Rightarrow> flint_server \<Rightarrow> fault + flint_server" where
  "onReceiverDisconnected appId h s = bindE (get_handler s h) (\<lambda>x. if appId = rh_appId x then rh_close h s else Inr s)"

section \<open>The listener and the device\<close>

fun listener_told :: "(json \<Rightarrow> string) \<Rightarrow> nat \<Rightarrow> listener_call \<Rightarrow> flint_server \<Rightarrow> fault + flint_server" where
  "listener_told text h (SenderConnected token) s = rh_onSenderConnected text token h s"
| "listener_told text h (SenderDisconnected token) s = rh_onSenderDisconnected text token h s"
| "listener_told text h (ReceiverDisconnected appId) s = onReceiverDisconnected appId h s"

definition put_sessions :: "session_manager \<Rightarrow> flint_server \<Rightarrow> flint_server" where
  "put_sessions sm s = s\<lparr>fs_flint := (fs_flint s)\<lparr>fl_sessions := sm\<rparr>\<rparr>"

definition put_apps :: "app_manager \<Rightarrow> flint_server \<Rightarrow> flint_server" where
  "put_apps am s = s\<lparr>fs_flint := (fs_flint s)\<lparr>fl_apps := am\<rparr>\<rparr>"

definition deliver_calls :: "(json \<Rightarrow> string) \<Rightarrow> flint_server \<Rightarrow> fault + flint_server" where
  "deliver_calls text s =
     (let sm = fl_sessions (fs_flint s); s1 = put_sessions (sm\<lparr>sm_calls := []\<rparr>) s
      in case fs_listener s1 of
           None \<Rightarrow> Inr s1
         | Some h \<Rightarrow> foldE (\<lambda>t c. listener_told text h c t) s1 (sm_calls sm))"

fun platform_told :: "(string \<Rightarrow> json) \<Rightarrow> (json \<Rightarrow> string) \<Rightarrow> platform_call \<Rightarrow> platform \<Rightarrow> fault + platform" where
  "platform_told parse text (PlatLaunch info) p = bindE (plat_launchApplication parse text info p) (\<lambda>(_, p1). Inr p1)"
| "platform_told parse text (PlatStop info) p = plat_stopApplication parse text info p"

definition deliver_platform :: "(string \<Rightarrow> json) \<Rightarrow> (json \<Rightarrow> string) \<Rightarrow> flint_server \<Rightarrow> fault + flint_server" where
  "deliver_platform parse text s =
     (let am = fl_apps (fs_flint s); s1 = put_apps (am\<lparr>am_calls := []\<rparr>) s
      in bindE (foldE (\<lambda>p c. platform_told parse text c p) (fs_platform s1) (am_calls am)) (\<lambda>p.
         Inr (s1\<lparr>fs_platform := p\<rparr>)))"

definition in_sessions ::
  "(json \<Rightarrow> string) \<Rightarrow> (session_manager \<Rightarrow> fault + 'a \<times> session_manager) \<Rightarrow> flint_server \<Rightarrow> fault + 'a \<times> flint_server" where
  "in_sessions text f s =
     bindE (f (fl_sessions (fs_flint s))) (\<lambda>(r, sm).
     bindE (deliver_calls text (put_sessions sm s)) (\<lambda>s1. Inr (r, s1)))"

definition in_apps ::
  "(string \<Rightarrow> json) \<Rightarrow> (json \<Rightarrow> string) \<Rightarrow> (app_manager \<Rightarrow> fault + app_manager) \<Rightarrow> flint_server \<Rightarrow> fault + flint_server" where
  "in_apps parse text f s =
     bindE (f (fl_apps (fs_flint s))) (\<lambda>am. deliver_platform parse text (put_apps am s))"

definition set_listener :: "(json \<Rightarrow> string) \<Rightarrow> nat option \<Rightarrow> flint_server \<Rightarrow> fault + flint_server" where
  "set_listener text l s =
     bindE (in_sessions text (\<lambda>sm. bindE (setSessionListender (l \<noteq> None) sm) (\<lambda>sm1. Inr ((), sm1)))
       (s\<lparr>fs_listener := l\<rparr>)) (\<lambda>(_, s1). Inr s1)"

section \<open>Messages from the receiver\<close>

definition touch_receiver :: "(json \<Rightarrow> string) \<Rightarrow> string \<Rightarrow> flint_server \<Rightarrow> fault + flint_server" where
  "touch_receiver text appId s = bindE (in_sessions text (touchReceiver appId) s) (\<lambda>(_, s1). Inr s1)"

definition rh_register ::
  "(nat \<Rightarrow> string) \<Rightarrow> string \<Rightarrow> (string \<Rightarrow> json) \<Rightarrow> (json \<Rightarrow> string) \<Rightarrow> nat \<Rightarrow> string \<Rightarrow> nat \<Rightarrow> flint_server \<Rightarrow> fault + flint_server" where
  "rh_register uuid dev parse text h appId app s =
     bindE (get_app (fl_apps (fs_flint s)) app) (\<lambda>a.
     if ap_useIpc a then
       bindE (set_listener text (Some h) s) (\<lambda>s1.
       bindE (in_sessions text (createReceiver uuid appId) s1) (\<lambda>(ok, s2).
       if \<not> ok then rh_close h s2
       else
         bindE (in_apps parse text (started (can_launch parse) app) s2) (\<lambda>s3.
         bindE (onRegister dev text h s3) (\<lambda>s4.
         bindE (asyncCheckIp h s4) (\<lambda>s5.
         bindE (startHeartbeat text h s5) (touch_receiver text appId))))))
     else
       bindE (in_apps parse text (stopApplicationByAppId (can_launch parse) appId) s) (rh_close h))"

text \<open>Each member becomes an XML element.\<close>

fun additional_xml :: "(string \<times> json) list \<Rightarrow> fault + string" where
  "additional_xml [] = Inr []"
| "additional_xml ((k, v) # ms) =
     bindE (js_string v) (\<lambda>value.
     bindE (additional_xml ms) (\<lambda>rest.
     Inr (concat [''<'', cstr k, ''>'', value, ''</'', cstr k, ''>''] @ rest)))"

definition rh_additional :: "json \<Rightarrow> nat \<Rightarrow> flint_server \<Rightarrow> fault + flint_server" where
  "rh_additional d app s =
     bindE (js_member d ''additionaldata'') (\<lambda>additional.
     case additional of
       JObj ms \<Rightarrow>
         bindE (additional_xml ms) (\<lambda>xml.
         bindE (upd_app (\<lambda>a. a\<lparr>ap_additionalData := xml\<rparr>) app (fl_apps (fs_flint s))) (\<lambda>am. Inr (put_apps am s)))
     | _ \<Rightarrow> Inr s)"

text \<open>The value compared with \<open>ping\<close> is read from the document \<open>d\<close>, not from its member.\<close>

definition rh_heartbeat :: "(json \<Rightarrow> string) \<Rightarrow> json \<Rightarrow> nat \<Rightarrow> flint_server \<Rightarrow> fault + flint_server" where
  "rh_heartbeat text d h s =
     bindE (js_member d ''heartbeat'') (\<lambda>heartbeat.
     if heartbeat = JNull then Inr s
     else bindE (js_string d) (\<lambda>heartbeatStr.
          if iequals heartbeatStr ''ping'' then sendHeartbeat text ''pong'' h s else Inr s))"

definition rh_onMessage ::
  "(nat \<Rightarrow> string) \<Rightarrow> string \<Rightarrow> (string \<Rightarrow> json) \<Rightarrow> (json \<Rightarrow> string) \<Rightarrow> nat \<Rightarrow> string \<Rightarrow> flint_server \<Rightarrow> fault + flint_server" where
  "rh_onMessage uuid dev parse text h message s =
     bindE (get_handler s h) (\<lambda>x.
     case getAliveApplication (fl_apps (fs_flint s)) of
       None \<Rightarrow> rh_close h s
     | Some app \<Rightarrow>
         bindE (get_app (fl_apps (fs_flint s)) app) (\<lambda>a.
         if ap_appId a \<noteq> rh_appId x then rh_close h s
         else
           let d = parse (cstr message)
           in if d = JNull then Inr s
              else
                bindE (js_member d ''appid'') (\<lambda>appId.
                if appId = JNull then Inr s
                else
                bindE (js_string appId) (\<lambda>appIdStr.
                if rh_appId x \<noteq> appIdStr then Inr s
                else
                bindE (js_member d ''type'') (\<lambda>type.
                if type = JNull then Inr s
                else
                bindE (touch_receiver text (rh_appId x) s) (\<lambda>s1.
                bindE (js_string type) (\<lambda>typeStr.
                if iequals typeStr ''register'' then rh_register uuid dev parse text h (rh_appId x) app s1
                else if iequals typeStr ''unregister'' then
                  bindE (in_apps parse text (stopApplicationByAppId (can_launch parse) (rh_appId x)) s1) (rh_close h)
                else if iequals typeStr ''additionaldata'' then rh_additional d app s1
                else if iequals typeStr ''heartbeat'' then rh_heartbeat text d h s1
                else Inr s1)))))))"

text \<open>
  The end of the connection: the application that is being stopped has stopped, or the one that is
  alive is stopped now; at its end the handler deletes itself.
\<close>

definition stop_alive ::
  "(string \<Rightarrow> json) \<Rightarrow> (json \<Rightarrow> string) \<Rightarrow> string \<Rightarrow> flint_server \<Rightarrow> fault + flint_server" where
  "stop_alive parse text appId s =
     bindE (in_apps parse text (stopApplicationByAppId (can_launch parse) appId) s) (\<lambda>s1.
     case getStoppingApplication (fl_apps (fs_flint s1)) of
       None \<Rightarrow> Inr s1
     | Some p \<Rightarrow> in_apps parse text (stopped (can_launch parse) p) s1)"

definition stop_on_close ::
  "(string \<Rightarrow> json) \<Rightarrow> (json \<Rightarrow> string) \<Rightarrow> string \<Rightarrow> flint_server \<Rightarrow> fault + flint_server" where
  "stop_on_close parse text appId s =
     (case getStoppingApplication (fl_apps (fs_flint s)) of
        None \<Rightarrow> stop_alive parse text appId s
      | Some p \<Rightarrow>
          bindE (get_app (fl_apps (fs_flint s)) p) (\<lambda>a.
          if ap_appId a = appId then in_apps parse text (stopped (can_launch parse) p) s
          else stop_alive parse text appId s))"

definition rh_onClose ::
  "(string \<Rightarrow> json) \<Rightarrow> (json \<Rightarrow> string) \<Rightarrow> nat \<Rightarrow> flint_server \<Rightarrow> fault + flint_server" where
  "rh_onClose parse text h s =
     bindE (get_handler s h) (\<lambda>x.
     bindE (in_sessions text (disconnectReceiver (rh_appId x)) s) (\<lambda>(_, s1).
     bindE (set_listener text None s1) (\<lambda>s2.
     bindE (stop_on_close parse text (rh_appId x) s2) (\<lambda>s3.
     bindE (cancel_timers h s3) (\<lambda>s4. Inr (s4\<lparr>fs_handlers := map_erase h (fs_handlers s4)\<rparr>))))))"

section \<open>FlintServer\<close>

definition new_ReceiverApplicationHandler :: "nat \<Rightarrow> string \<Rightarrow> flint_server \<Rightarrow> fault + flint_server" where
  "new_ReceiverApplicationHandler session appId s =
     (let h = fs_next s
      in bindE (rh_net (ws_connect session h) s) (\<lambda>s1.
         Inr (s1\<lparr>fs_handlers := map_insert h \<lparr>rh_appId = appId, rh_session = session, rh_ppTimer = False,
                   rh_ipTimer = False, rh_cacheIp = []\<rparr> (fs_handlers s1), fs_next := h + 1\<rparr>)))"

definition flint_onWebsocketConnection :: "nat \<Rightarrow> string \<Rightarrow> flint_server \<Rightarrow> fault + flint_server" where
  "flint_onWebsocketConnection session path s =
     (if starts_with path ''/receiver/~'' then new_ReceiverApplicationHandler session (ierase_all ''/receiver/'' path) s
      else Inr s)"

text \<open>A handler of the REST interface works on the two managers; then their listeners hear of it.\<close>

definition in_flint ::
  "(string \<Rightarrow> json) \<Rightarrow> (json \<Rightarrow> string) \<Rightarrow> (flint \<Rightarrow> fault + flint) \<Rightarrow> flint_server \<Rightarrow> fault + flint_server" where
  "in_flint parse text f s =
     bindE (f (fs_flint s)) (\<lambda>fl.
     bindE (deliver_calls text (s\<lparr>fs_flint := fl\<rparr>)) (deliver_platform parse text))"

definition put_reply :: "http_response \<Rightarrow> flint_server \<Rightarrow> flint_server" where
  "put_reply r s = s\<lparr>fs_flint := (fs_flint s)\<lparr>fl_reply := r\<rparr>\<rparr>"

definition flint_onHttpRequest ::
  "(nat \<Rightarrow> string) \<Rightarrow> string \<Rightarrow> (string \<Rightarrow> json) \<Rightarrow> (json \<Rightarrow> string) \<Rightarrow> http_request \<Rightarrow> flint_server \<Rightarrow> fault + flint_server" where
  "flint_onHttpRequest uuid dev parse text rq s0 =
     (let s = put_reply no_response s0; path = hq_resource rq
      in if iequals path ''/setup/icon.png'' then Inr s
         else if iequals path ''/ssdp/device-desc.xml'' then
           Inr (put_reply (DeviceDescHandler dev rq (fs_platform s) no_response) s)
         else if istarts_with path ''/system/control'' then
           bindE (SystemControlHandler parse text rq (fs_platform s) no_response) (\<lambda>(r, p).
           Inr (put_reply r (s\<lparr>fs_platform := p\<rparr>)))
         else if istarts_with path ''/apps/~'' then
           in_flint parse text (ApplicationControlHandler (can_launch parse) uuid parse text rq) s
         else if istarts_with path ''/apps/'' then in_flint parse text (DialHandler (can_launch parse) text rq) s
         else Inr s)"

section \<open>Events\<close>

datatype flint_event =
    FsRequest http_request
  | FsOpened nat string
  | FsSays nat string
  | FsGone nat
  | FsPing nat
  | FsCheckIp nat
  | FsSecond
  | FsStartTimeout nat
  | FsStopTimeout nat
  | FsInactive nat
  | FsIpChanged string
  | FsDevice platform_event

text \<open>A timer fires when it is armed; the wait it ends is over then.\<close>

definition fire_timer ::
  "(receiver_handler \<Rightarrow> bool) \<Rightarrow> (receiver_handler \<Rightarrow> receiver_handler) \<Rightarrow> (nat \<Rightarrow> flint_server \<Rightarrow> fault + flint_server) \<Rightarrow> nat
    \<Rightarrow> flint_server \<Rightarrow> fault + flint_server" where
  "fire_timer armed disarm handler h s =
     (case map_find (fs_handlers s) h of
        None \<Rightarrow> Inr s
      | Some x \<Rightarrow> if armed x then bindE (upd_handler disarm h s) (handler h) else Inr s)"

fun flint_step ::
  "(nat \<Rightarrow> string) \<Rightarrow> string \<Rightarrow> (string \<Rightarrow> json) \<Rightarrow> (json \<Rightarrow> string) \<Rightarrow> flint_server \<Rightarrow> flint_event \<Rightarrow> fault + flint_server" where
  "flint_step uuid dev parse text s (FsRequest rq) = flint_onHttpRequest uuid dev parse text rq s"
| "flint_step uuid dev parse text s (FsOpened i path) =
     (if map_find (wn_sessions (fs_net s)) i \<noteq> None then Inr s
      else flint_onWebsocketConnection i path (s\<lparr>fs_net := ws_open i (fs_net s)\<rparr>))"
| "flint_step uuid dev parse text s (FsSays i msg) = ws_on_message fs_net (rh_onMessage uuid dev parse text) i msg s"
| "flint_step uuid dev parse text s (FsGone i) =
     ws_clear fs_net (\<lambda>f t. t\<lparr>fs_net := f (fs_net t)\<rparr>) (rh_onClose parse text) i s"
| "flint_step uuid dev parse text s (FsPing h) =
     fire_timer rh_ppTimer (\<lambda>x. x\<lparr>rh_ppTimer := False\<rparr>) (handleStartPing text) h s"
| "flint_step uuid dev parse text s (FsCheckIp h) =
     fire_timer rh_ipTimer (\<lambda>x. x\<lparr>rh_ipTimer := False\<rparr>) (handleCheckIp dev text) h s"
| "flint_step uuid dev parse text s FsSecond =
     bindE (in_sessions text (\<lambda>sm. bindE (second sm) (\<lambda>sm1. Inr ((), sm1))) s) (\<lambda>(_, s1). Inr s1)"
| "flint_step uuid dev parse text s (FsStartTimeout p) =
     in_apps parse text (\<lambda>am. am_step (can_launch parse) am (EvStartTimeout p)) s"
| "flint_step uuid dev parse text s (FsStopTimeout p) =
     in_apps parse text (\<lambda>am. am_step (can_launch parse) am (EvStopTimeout p)) s"
| "flint_step uuid dev parse text s (FsInactive p) =
     in_apps parse text (\<lambda>am. am_step (can_launch parse) am (EvInactive p)) s"
| "flint_step uuid dev parse text s (FsIpChanged ip) = Inr (s\<lparr>fs_ip := ip\<rparr>)"
| "flint_step uuid dev parse text s (FsDevice e) =
     bindE (pal_step parse text (fs_platform s) e) (\<lambda>p. Inr (s\<lparr>fs_platform := p\<rparr>))"

end
