(* ===== verification/Device.thy ===== *)
theory Device
  imports Platform Application
begin

text \<open>
  What holds of the device connections of \<open>Platform\<close>: the list of sessions and the live wrappers are
  the same, whatever the device sends and whenever it comes and goes, the commands sent are the
  commands a receiver of the same framing reads, and the device is last told what the application
  manager believes.
\<close>

section \<open>The invariant\<close>

definition pal_ok :: "platform \<Rightarrow> bool" where
  "pal_ok s \<longleftrightarrow>
     map_wf (pl_wrappers s) \<and> distinct (pl_sessions s)
   \<and> (\<forall>i. i \<in> set (pl_sessions s) \<longleftrightarrow> map_find (pl_wrappers s) i \<noteq> None)
   \<and> (\<forall>i w. map_find (pl_wrappers s) i = Some w \<longrightarrow> i < pl_next s)
   \<and> (\<forall>i j w v. map_find (pl_wrappers s) i = Some w \<longrightarrow> map_find (pl_wrappers s) j = Some v \<longrightarrow>
        iequals (tw_addr w) (tw_addr v) \<longrightarrow> i = j)"

text \<open>The fields the invariant is about.\<close>

definition same_connections :: "platform \<Rightarrow> platform \<Rightarrow> bool" where
  "same_connections s s' \<longleftrightarrow>
     pl_wrappers s' = pl_wrappers s \<and> pl_sessions s' = pl_sessions s \<and> pl_next s' = pl_next s"

lemma same_connections_refl [simp]: "same_connections s s"
  by (simp add: same_connections_def)

lemma same_connections_trans: "same_connections s t \<Longrightarrow> same_connections t u \<Longrightarrow> same_connections s u"
  by (simp add: same_connections_def)

lemma pal_ok_same: "pal_ok s \<Longrightarrow> same_connections s s' \<Longrightarrow> pal_ok s'"
  by (simp add: pal_ok_def same_connections_def)

text \<open>A step that can only fault in the way of a set of faults, and keeps a relation to the state before.\<close>

definition faults_in :: "fault set \<Rightarrow> ('s \<Rightarrow> bool) \<Rightarrow> fault + 's \<Rightarrow> bool" where
  "faults_in F P r \<longleftrightarrow> (case r of Inl f \<Rightarrow> f \<in> F | Inr s \<Rightarrow> P s)"

lemma faults_in_simps [simp]: "faults_in F P (Inl f) \<longleftrightarrow> f \<in> F" "faults_in F P (Inr s) \<longleftrightarrow> P s"
  by (simp_all add: faults_in_def)

lemma faults_in_bind:
  "faults_in F P r \<Longrightarrow> (\<And>x. r = Inr x \<Longrightarrow> P x \<Longrightarrow> faults_in F Q (f x)) \<Longrightarrow> faults_in F Q (bindE r f)"
  by (cases r) auto

lemma faults_in_mono: "faults_in F P r \<Longrightarrow> F \<subseteq> G \<Longrightarrow> (\<And>x. P x \<Longrightarrow> Q x) \<Longrightarrow> faults_in G Q r"
  by (cases r) auto

lemma faults_in_foldE:
  assumes "P s" and "\<And>t x. P t \<Longrightarrow> x \<in> set xs \<Longrightarrow> faults_in F P (f t x)"
  shows "faults_in F P (foldE f s xs)"
  using assms
proof (induction xs arbitrary: s)
  case (Cons x xs)
  show ?case unfolding foldE.simps
    by (rule faults_in_bind [where P = P]) (use Cons in auto)
qed simp

section \<open>Reports\<close>

abbreviation report_faults :: "fault set" where
  "report_faults \<equiv> {BadJson, SignedOverflow}"

lemma js_member_faults: "faults_in report_faults (\<lambda>_. True) (js_member j k)"
  by (cases j) (auto simp: js_member_def)

lemma js_read_faults:
  "faults_in report_faults (\<lambda>_. True) (js_string j)" "faults_in report_faults (\<lambda>_. True) (js_bool j)"
  "faults_in report_faults (\<lambda>_. True) (js_double j)"
  by (cases j; simp add: js_string_def js_bool_def js_double_def)+

lemma report_keeps:
  assumes "\<And>j. faults_in report_faults (\<lambda>_. True) (read j)" and "\<And>v. same_connections s (change v s)"
  shows "faults_in report_faults (same_connections s) (report doc key read change s)"
  unfolding report_def
proof (rule faults_in_bind [OF js_member_faults])
  fix j
  show "faults_in report_faults (same_connections s) (if j = JNull then Inr s else bindE (read j) (\<lambda>v. Inr (change v s)))"
    using assms by (auto intro!: faults_in_bind [OF assms(1)])
qed

lemma changes_keep [simp]:
  "same_connections s (onNameChange n s)" "same_connections s (onMuteChange b s)" "same_connections s (onVolumeChange v s)"
  by (simp_all add: same_connections_def onNameChange_def onMuteChange_def onVolumeChange_def)

lemma processMessage_keeps: "faults_in report_faults (same_connections s) (processMessage parse m s)"
proof -
  have r: "faults_in report_faults (same_connections s) (report d k read change t)"
    if t: "same_connections s t" and rd: "\<And>j. faults_in report_faults (\<lambda>_. True) (read j)"
      and ch: "\<And>v. same_connections t (change v t)"
    for d k t and read :: "json \<Rightarrow> fault + 'v" and change
  proof (rule faults_in_mono [where P = "same_connections t"])
    show "faults_in report_faults (same_connections t) (report d k read change t)" by (rule report_keeps) (rule rd, rule ch)
    show "same_connections s x" if "same_connections t x" for x using t that by (rule same_connections_trans)
  qed simp
  show ?thesis
    unfolding processMessage_def Let_def
    by (auto intro!: faults_in_bind [where P = "same_connections s"] r simp: js_read_faults)
qed

lemma atoi_faults: "faults_in report_faults (\<lambda>_. True) (atoi s)"
  by (simp add: atoi_def Let_def)

lemma parse_frame_faults: "faults_in report_faults (\<lambda>_. True) (parse_frame m d)"
  unfolding parse_frame_def Let_def by (auto intro!: faults_in_bind [OF atoi_faults])

lemma receive_keeps:
  "same_connections s t \<Longrightarrow>
   faults_in report_faults (\<lambda>r. same_connections s (snd r)) (receive_loop (processMessage parse) buffer data t)"
proof (induction "processMessage parse" buffer data t rule: receive_loop.induct)
  case (1 buffer data t)
  have p: "faults_in report_faults (same_connections s) (processMessage parse out t)" for out
    by (rule faults_in_mono [OF processMessage_keeps subset_refl]) (rule same_connections_trans [OF 1(2)])
  show ?case
    by (subst receive_loop.simps)
      (auto intro!: faults_in_bind [OF parse_frame_faults] faults_in_bind [OF p] 1 simp: Let_def split: prod.splits)
qed

section \<open>Every event keeps the invariant\<close>

lemma ok_wrapper: "pal_ok s \<Longrightarrow> i \<in> set (pl_sessions s) \<Longrightarrow> \<exists>w. map_find (pl_wrappers s) i = Some w"
  by (auto simp: pal_ok_def)

lemma pal_ok_buffer:
  assumes ok: "pal_ok s" and w: "map_find (pl_wrappers s) i = Some w"
  shows "pal_ok (s\<lparr>pl_wrappers := map_set i (w\<lparr>tw_buffer := b\<rparr>) (pl_wrappers s)\<rparr>)"
proof -
  let ?m = "map_set i (w\<lparr>tw_buffer := b\<rparr>) (pl_wrappers s)"
  have old: "\<exists>v0. map_find (pl_wrappers s) j = Some v0 \<and> tw_addr v0 = tw_addr v" if "map_find ?m j = Some v" for j v
    using that w by (auto simp: map_find_set split: if_splits)
  have "map_find ?m j \<noteq> None \<longleftrightarrow> map_find (pl_wrappers s) j \<noteq> None" for j
    using w by (simp add: map_find_set)
  moreover have "j < pl_next s" if "map_find ?m j = Some v" for j v
    using old [OF that] ok unfolding pal_ok_def by blast
  moreover have "j = k" if "map_find ?m j = Some v" "map_find ?m k = Some u" "iequals (tw_addr v) (tw_addr u)" for j k v u
    using old [OF that(1)] old [OF that(2)] that(3) ok unfolding pal_ok_def by metis
  ultimately show ?thesis using ok unfolding pal_ok_def by simp
qed

lemma pal_ok_message:
  assumes ok: "pal_ok s" and w: "map_find (pl_wrappers s) i = Some w"
  shows "faults_in report_faults pal_ok (wrapper_onMessage parse i bytes s)"
proof -
  have "pal_ok (t\<lparr>pl_wrappers := map_set i (w\<lparr>tw_buffer := b\<rparr>) (pl_wrappers t)\<rparr>)"
    if "same_connections s t" for t b
    by (rule pal_ok_buffer) (use w that pal_ok_same [OF ok that] in \<open>simp_all add: same_connections_def\<close>)
  then show ?thesis
    using w unfolding wrapper_onMessage_def tcp_receive_def get_wrapper_def
    by (auto intro!: faults_in_bind [OF receive_keeps [OF same_connections_refl]] split: prod.splits)
qed

lemma erase_addr_only:
  assumes "\<And>j. j \<in> set js \<Longrightarrow> \<exists>w. map_find (pl_wrappers s) j = Some w \<and> (iequals (tw_addr w) addr \<longleftrightarrow> j = i)"
    and "distinct js"
  shows "erase_addr s addr js = Inr (filter (\<lambda>j. j \<noteq> i) js)"
  using assms
proof (induction js)
  case (Cons j js)
  obtain w where "map_find (pl_wrappers s) j = Some w" "iequals (tw_addr w) addr \<longleftrightarrow> j = i"
    using Cons.prems(1) [of j] by auto
  then have "erase_addr s addr (j # js) = (if j = i then Inr js else bindE (erase_addr s addr js) (\<lambda>rest. Inr (j # rest)))"
    by (simp add: get_wrapper_def)
  moreover have "erase_addr s addr js = Inr (filter (\<lambda>j. j \<noteq> i) js)"
    by (rule Cons.IH) (use Cons.prems in simp_all)
  moreover have "j = i \<Longrightarrow> filter (\<lambda>j. j \<noteq> i) js = js" using Cons.prems(2) by (auto simp: filter_id_conv)
  ultimately show ?case by (cases "j = i") simp_all
qed simp

lemma pal_ok_closed:
  assumes ok: "pal_ok s" and w: "map_find (pl_wrappers s) i = Some w"
  shows "faults_in {} pal_ok (wrapper_onClose i s)"
proof -
  have "erase_addr s (tw_addr w) (pl_sessions s) = Inr (filter (\<lambda>j. j \<noteq> i) (pl_sessions s))"
  proof (rule erase_addr_only)
    fix j assume "j \<in> set (pl_sessions s)"
    then obtain v where "map_find (pl_wrappers s) j = Some v" using ok_wrapper [OF ok] by blast
    with ok w show "\<exists>v. map_find (pl_wrappers s) j = Some v \<and> (iequals (tw_addr v) (tw_addr w) \<longleftrightarrow> j = i)"
      unfolding pal_ok_def by (metis iequals_refl option.inject)
  qed (use ok in \<open>simp add: pal_ok_def\<close>)
  with w ok show ?thesis
    by (simp add: wrapper_onClose_def get_wrapper_def onSessionClose_def) (simp add: pal_ok_def map_find_erase)
qed

lemma ok_connect:
  assumes "pal_ok s" and "\<not> (\<exists>e \<in> set (pl_wrappers s). iequals (tw_addr (snd e)) addr)"
  shows "pal_ok (accept_handler addr s)"
proof -
  have n: "map_find (pl_wrappers s) (pl_next s) = None" "pl_next s \<notin> set (pl_sessions s)"
    using assms(1) by (auto simp: pal_ok_def)
  have a: "\<not> iequals (tw_addr w) addr" "\<not> iequals addr (tw_addr w)" if "map_find (pl_wrappers s) i = Some w" for i w
    using assms(2) map_find_SomeD [OF that] by (auto simp: iequals_sym)
  have "pal_ok (onSessionConnect addr s)"
    using assms(1) n a unfolding pal_ok_def onSessionConnect_def
    by (auto simp: map_find_insert less_Suc_eq split: if_splits)
  with assms(1) show ?thesis by (simp add: accept_handler_def)
qed

text \<open>A command to every session: what is sent, and nothing else.\<close>

definition commanded :: "string list \<Rightarrow> platform \<Rightarrow> platform" where
  "commanded ms s = s\<lparr>pl_sent := pl_sent s @ concat (map (\<lambda>m. map (\<lambda>i. (i, frame m)) (pl_sessions s)) ms)\<rparr>"

lemma commanded_fields [simp]:
  "pl_sessions (commanded ms s) = pl_sessions s" "same_connections s (commanded ms s)"
  by (simp_all add: commanded_def same_connections_def)

lemma commanded_Nil [simp]: "commanded [] s = s"
  by (simp add: commanded_def)

lemma commanded_twice [simp]: "commanded ns (commanded ms s) = commanded (ms @ ns) s"
  by (simp add: commanded_def)

lemma commanded_no_sessions: "pl_sessions s = [] \<Longrightarrow> commanded ms s = s"
  by (simp add: commanded_def)

lemma sends_all:
  assumes "\<forall>i \<in> set is. map_find (pl_wrappers s) i \<noteq> None"
  shows "foldE (\<lambda>t i. wrapper_send m i t) s is = Inr (s\<lparr>pl_sent := pl_sent s @ map (\<lambda>i. (i, m)) is\<rparr>)"
  using assms by (induction "is" arbitrary: s) (auto simp: wrapper_send_def get_wrapper_def)

lemma send_command_eq: "pal_ok s \<Longrightarrow> send_command text j s = Inr (commanded [cstr (text j)] s)"
proof -
  assume "pal_ok s"
  then have "\<forall>i \<in> set (pl_sessions s). map_find (pl_wrappers s) i \<noteq> None" by (auto simp: pal_ok_def)
  from sends_all [OF this, of "frame (cstr (text j))"] show ?thesis
    by (simp add: send_command_def sendMessageToAllSessions_def commanded_no_sessions) (simp add: commanded_def)
qed

lemma ok_commanded: "pal_ok s \<Longrightarrow> pal_ok (commanded ms s)"
  by (rule pal_ok_same [OF _ commanded_fields(2)])

lemmas command_defs = onSetVolume_def onSetMuted_def onLaunchWebApp_def onLaunchNativeApp_def onStopWebApp_def
  onStopNativeApp_def pal_setVolume_def pal_setMuted_def

lemma parseAppInfo_faults: "faults_in report_faults (\<lambda>_. True) (parseAppInfo parse info)"
  unfolding parseAppInfo_def by (rule faults_in_bind [OF js_member_faults]) (rule js_read_faults)

lemma ok_server: "pal_ok s \<Longrightarrow> pal_ok (s\<lparr>pl_server := b\<rparr>)"
  by (rule pal_ok_same [of s]) (simp_all add: same_connections_def)

lemma pal_step_ok: "pal_ok s \<Longrightarrow> faults_in report_faults pal_ok (pal_step parse text s e)"
proof (cases e)
  case (PalRead i err bytes)
  assume ok: "pal_ok s"
  show ?thesis
  proof (cases "map_find (pl_wrappers s) i")
    case None
    with ok PalRead show ?thesis by simp
  next
    case (Some w)
    from pal_ok_closed [OF ok Some] have "faults_in report_faults pal_ok (wrapper_onClose i s)"
      by (rule faults_in_mono) simp_all
    with pal_ok_message [OF ok Some] Some show ?thesis by (simp add: PalRead handle_read_def)
  qed
next
  case (PalLaunch info)
  assume ok: "pal_ok s"
  show ?thesis
    unfolding PalLaunch pal_step.simps plat_launchApplication_def bindE_assoc
    by (rule faults_in_bind [OF parseAppInfo_faults]) (simp add: command_defs send_command_eq ok ok_commanded)
next
  case (PalStop info)
  assume ok: "pal_ok s"
  show ?thesis
    unfolding PalStop pal_step.simps plat_stopApplication_def
    by (rule faults_in_bind [OF parseAppInfo_faults]) (simp add: command_defs send_command_eq ok ok_commanded)
qed (simp_all add: ok_connect command_defs send_command_eq ok_commanded ok_server pal_init_def pal_reset_def)

interpretation device: fallible_machine "pal_step parse text" pal_ok for parse "text"
proof unfold_locales
  fix s s' e assume "pal_ok s" and "pal_step parse text s e = Inr s'"
  then show "pal_ok s'" using pal_step_ok [of s parse "text" e] by simp
qed

lemma new_platform_ok: "pal_ok (new_PlatformPal uuid)" "pal_ok (new_PlatformFfos uuid)"
  by (simp_all add: pal_ok_def new_PlatformPal_def new_PlatformFfos_def)

text \<open>
  C30. Whatever the device sends, however it is cut, and whenever it connects and goes, the platform
  never uses a connection that is gone, and its list of sessions is always exactly the open
  connections. What can stop it is a report whose members have the wrong JSON types, or a length
  header beyond the range of \<open>int\<close>.
\<close>

theorem platform_memory_safe:
  "case foldE (pal_step parse text) (new_PlatformFfos uuid) es of
     Inl f \<Rightarrow> f = BadJson \<or> f = SignedOverflow
   | Inr s \<Rightarrow> pal_ok s"
proof -
  have "faults_in report_faults pal_ok (foldE (pal_step parse text) (new_PlatformFfos uuid) es)"
    by (rule faults_in_foldE) (simp_all add: new_platform_ok pal_step_ok)
  then show ?thesis by (auto simp: faults_in_def split: sum.splits)
qed

section \<open>Commands arrive\<close>

definition sent_to :: "nat \<Rightarrow> platform \<Rightarrow> string list" where
  "sent_to i s = map snd (filter (\<lambda>e. fst e = i) (pl_sent s))"

lemma sent_to_one:
  "distinct is \<Longrightarrow> map snd (filter (\<lambda>e. fst e = i) (map (\<lambda>j. (j, m)) is)) = (if i \<in> set is then [m] else [])"
  by (induction "is") auto

lemma sent_to_commanded:
  "distinct (pl_sessions s) \<Longrightarrow> i \<in> set (pl_sessions s) \<Longrightarrow> sent_to i (commanded ms s) = sent_to i s @ map frame ms"
  by (simp add: sent_to_def commanded_def, induction ms) (simp_all add: sent_to_one)

lemma send_commands:
  "pal_ok s \<Longrightarrow> foldE (\<lambda>t j. send_command text j t) s js = Inr (commanded (map (\<lambda>j. cstr (text j)) js) s)"
  by (induction js arbitrary: s) (simp_all add: send_command_eq ok_commanded)

text \<open>
  C31. A connected device gets the commands: what is sent to it, cut into reads in any way and read
  by a receiver of the same framing, is the texts of the commands, each once and in order. No
  command faults, and the device's connection is not changed by them.
\<close>

theorem commands_arrive:
  assumes "pal_ok s" and "i \<in> set (pl_sessions s)" and "\<forall>j \<in> set js. sendable (cstr (text j))"
  shows "\<exists>s'. foldE (\<lambda>t j. send_command text j t) s js = Inr s' \<and>
    (\<exists>bytes. sent_to i s' = sent_to i s @ bytes \<and>
      (\<forall>chunks. concat chunks = concat bytes \<longrightarrow>
        foldE (\<lambda>st c. tcp_receive process c st) ([], d) chunks
          = bindE (foldE (\<lambda>d m. process m d) d (map (\<lambda>j. cstr (text j)) js)) (\<lambda>d'. Inr ([], d'))))"
proof -
  let ?ms = "map (\<lambda>j. cstr (text j)) js"
  have "distinct (pl_sessions s)" using assms(1) by (simp add: pal_ok_def)
  then have "sent_to i (commanded ?ms s) = sent_to i s @ map frame ?ms" using assms(2) by (rule sent_to_commanded)
  moreover have "foldE (\<lambda>st c. tcp_receive process c st) ([], d) chunks
      = bindE (foldE (\<lambda>d m. process m d) d ?ms) (\<lambda>d'. Inr ([], d'))"
    if "concat chunks = concat (map frame ?ms)" for chunks
    by (rule receive_chunks) (use that assms(3) in \<open>auto simp: in_progress_def\<close>)
  ultimately show ?thesis using send_commands [OF assms(1)] by blast
qed

definition sample_platform :: platform where
  "sample_platform = (new_PlatformFfos [])\<lparr>pl_sessions := [0], pl_wrappers := [(0, \<lparr>tw_addr = ''tv:1'', tw_buffer = []\<rparr>)], pl_next := 1\<rparr>"

theorem commands_arrive_witness:
  "\<exists>s'. foldE (\<lambda>t j. send_command (\<lambda>_. ''{}'') j t) sample_platform [JNull] = Inr s' \<and>
    (\<exists>bytes. sent_to 0 s' = sent_to 0 sample_platform @ bytes \<and>
      (\<forall>chunks. concat chunks = concat bytes \<longrightarrow>
        foldE (\<lambda>st c. tcp_receive (\<lambda>m d. Inr (m # d)) c st) ([], []) chunks
          = bindE (foldE (\<lambda>d m. Inr (m # d)) [] (map (\<lambda>j. cstr ''{}'') [JNull])) (\<lambda>d'. Inr ([], d'))))"
proof (rule commands_arrive)
  show "pal_ok sample_platform" by (auto simp: sample_platform_def pal_ok_def new_PlatformFfos_def new_PlatformPal_def)
qed (simp_all add: sample_platform_def sendable_def cstr_def)

section \<open>The device and the application manager\<close>

text \<open>The calls of the application manager, on a device reached over TCP.\<close>

fun pal_call :: "(string \<Rightarrow> json) \<Rightarrow> (json \<Rightarrow> string) \<Rightarrow> platform \<Rightarrow> platform_call \<Rightarrow> fault + platform" where
  "pal_call parse text s (PlatLaunch i) = pal_step parse text s (PalLaunch i)"
| "pal_call parse text s (PlatStop i) = pal_step parse text s (PalStop i)"

definition app_url :: "(string \<Rightarrow> json) \<Rightarrow> string \<Rightarrow> string" where
  "app_url parse i =
     (case parseAppInfo parse i of Inl _ \<Rightarrow> [] | Inr url \<Rightarrow> if isWebApp url then url else ierase_first ''app:?'' url)"

text \<open>
  What the device was told last: to launch the application, or, when there is none, to stop one, or
  nothing at all. \<open>told\<close> says so of every connected device.
\<close>

definition told_last :: "(string \<Rightarrow> json) \<Rightarrow> (json \<Rightarrow> string) \<Rightarrow> string option \<Rightarrow> string list \<Rightarrow> bool" where
  "told_last parse text app ms \<longleftrightarrow>
     (case app of
        Some i \<Rightarrow> ms \<noteq> [] \<and> last ms = frame (cstr (text (app_command ''LAUNCH_RECEIVER'' (app_url parse i))))
      | None \<Rightarrow> ms = [] \<or> (\<exists>i. last ms = frame (cstr (text (app_command ''STOP_RECEIVER'' (app_url parse i))))))"

definition told :: "(string \<Rightarrow> json) \<Rightarrow> (json \<Rightarrow> string) \<Rightarrow> string option \<Rightarrow> platform \<Rightarrow> bool" where
  "told parse text app s \<longleftrightarrow> pal_ok s \<and> (\<forall>i \<in> set (pl_sessions s). told_last parse text app (sent_to i s))"

lemma app_command_sent:
  assumes "pal_ok s" and "told_last parse text app [frame (cstr (text (app_command cmd url)))]"
  shows "\<exists>s'. send_command text (app_command cmd url) s = Inr s' \<and> told parse text app s'"
proof (intro exI conjI)
  show "send_command text (app_command cmd url) s = Inr (commanded [cstr (text (app_command cmd url))] s)"
    by (rule send_command_eq [OF assms(1)])
  have "distinct (pl_sessions s)" using assms(1) by (simp add: pal_ok_def)
  with assms(2) show "told parse text app (commanded [cstr (text (app_command cmd url))] s)"
    by (simp add: told_def ok_commanded [OF assms(1)] sent_to_commanded told_last_def split: option.splits)
qed

interpretation tv: app_platform "pal_call parse text" "told parse text" "can_launch parse" for parse "text"
proof unfold_locales
  fix i u
  assume "can_launch parse i"
  then obtain url where url: "parseAppInfo parse i = Inr url" "isWebApp url \<or> isNativeApp url"
    by (auto simp: can_launch_def split: sum.splits)
  show "\<exists>u'. pal_call parse text u (PlatLaunch i) = Inr u' \<and> told parse text (Some i) u'" if "told parse text None u"
  proof -
    have "\<exists>u'. send_command text (app_command ''LAUNCH_RECEIVER'' (app_url parse i)) u = Inr u' \<and> told parse text (Some i) u'"
      by (rule app_command_sent) (use that in \<open>simp_all add: told_def told_last_def\<close>)
    with url show ?thesis by (auto simp: plat_launchApplication_def command_defs app_url_def)
  qed
  show "\<exists>u'. pal_call parse text u (PlatStop i) = Inr u' \<and> told parse text None u'" if "told parse text (Some i) u"
  proof -
    have "\<exists>u'. send_command text (app_command ''STOP_RECEIVER'' (app_url parse i)) u = Inr u' \<and> told parse text None u'"
      by (rule app_command_sent) (use that in \<open>auto simp: told_def told_last_def\<close>)
    with url show ?thesis by (auto simp: plat_stopApplication_def command_defs app_url_def)
  qed
qed


definition desktop_parse :: "string \<Rightarrow> json" where
  "desktop_parse t = JObj [(''url'', JStr (''http://'' @ t))]"

definition tv_text :: "json \<Rightarrow> string" where
  "tv_text j = (case j of JObj [(_, JStr c), (_, JObj [(_, JStr u)])] \<Rightarrow> c @ '' '' @ u | _ \<Rightarrow> [])"


end
