(* ===== verification/ReceiverSafety.thy ===== *)
theory ReceiverSafety
  imports ReceiverHandler Device
begin

text \<open>
  What holds of the receiver connections of \<open>ReceiverHandler\<close>: every handler belongs to one open
  connection, and the listener of the session manager is a live handler, whatever requests,
  messages, closes and timers come; and what a registration does.
\<close>

section \<open>Handlers and connections\<close>

definition conn_ok :: "flint_server \<Rightarrow> bool" where
  "conn_ok s \<longleftrightarrow>
     map_wf (fs_handlers s) \<and> map_wf (wn_sessions (fs_net s))
   \<and> (\<forall>h x. map_find (fs_handlers s) h = Some x \<longrightarrow> h < fs_next s \<and>
        (\<exists>w. map_find (wn_sessions (fs_net s)) (rh_session x) = Some w \<and> wss_handlers w = [h]))
   \<and> (\<forall>i w. map_find (wn_sessions (fs_net s)) i = Some w \<longrightarrow> wss_handlers w = [] \<or>
        (\<exists>h x. wss_handlers w = [h] \<and> map_find (fs_handlers s) h = Some x \<and> rh_session x = i))
   \<and> (\<forall>h. fs_listener s = Some h \<longrightarrow> map_find (fs_handlers s) h \<noteq> None)"

text \<open>A step that neither opens nor closes a connection nor changes the listener.\<close>

definition steady :: "flint_server \<Rightarrow> flint_server \<Rightarrow> bool" where
  "steady s s' \<longleftrightarrow>
     (\<forall>h. map_option rh_session (map_find (fs_handlers s') h) = map_option rh_session (map_find (fs_handlers s) h))
   \<and> (\<forall>i. map_option wss_handlers (map_find (wn_sessions (fs_net s')) i)
        = map_option wss_handlers (map_find (wn_sessions (fs_net s)) i))
   \<and> (map_wf (fs_handlers s) \<longrightarrow> map_wf (fs_handlers s')) \<and> (map_wf (wn_sessions (fs_net s)) \<longrightarrow> map_wf (wn_sessions (fs_net s')))
   \<and> fs_next s' = fs_next s \<and> fs_listener s' = fs_listener s"

lemma steady_refl [simp, intro]: "steady s s"
  by (simp add: steady_def)

lemma steady_trans: "steady s t \<Longrightarrow> steady t u \<Longrightarrow> steady s u"
  by (simp add: steady_def)

lemma map_option_SomeD: "map_option f a = map_option f b \<Longrightarrow> a = Some x \<Longrightarrow> \<exists>y. b = Some y \<and> f y = f x"
  by (cases b) auto

lemma steady_handler:
  "steady s s' \<Longrightarrow> map_find (fs_handlers s') h = Some x' \<Longrightarrow> \<exists>x. map_find (fs_handlers s) h = Some x \<and> rh_session x = rh_session x'"
  unfolding steady_def by (metis map_option_SomeD)

lemma steady_sym_parts:
  "steady s s' \<Longrightarrow> map_find (fs_handlers s) h = Some x \<Longrightarrow> \<exists>x'. map_find (fs_handlers s') h = Some x' \<and> rh_session x' = rh_session x"
  "steady s s' \<Longrightarrow> map_find (wn_sessions (fs_net s)) i = Some w \<Longrightarrow>
     \<exists>w'. map_find (wn_sessions (fs_net s')) i = Some w' \<and> wss_handlers w' = wss_handlers w"
  "steady s s' \<Longrightarrow> map_find (wn_sessions (fs_net s')) i = Some w' \<Longrightarrow>
     \<exists>w. map_find (wn_sessions (fs_net s)) i = Some w \<and> wss_handlers w = wss_handlers w'"
  unfolding steady_def by (metis map_option_SomeD)+

lemma conn_ok_steady:
  assumes ok: "conn_ok s" and st: "steady s s'"
  shows "conn_ok s'"
proof -
  have "h < fs_next s' \<and> (\<exists>w. map_find (wn_sessions (fs_net s')) (rh_session x') = Some w \<and> wss_handlers w = [h])"
    if x': "map_find (fs_handlers s') h = Some x'" for h x'
  proof -
    obtain x where x: "map_find (fs_handlers s) h = Some x" "rh_session x = rh_session x'"
      using steady_handler [OF st x'] by blast
    then obtain w where "h < fs_next s" "map_find (wn_sessions (fs_net s)) (rh_session x') = Some w" "wss_handlers w = [h]"
      using ok unfolding conn_ok_def by metis
    then show ?thesis using steady_sym_parts(2) [OF st] st unfolding steady_def by metis
  qed
  moreover have "wss_handlers w' = [] \<or> (\<exists>h x. wss_handlers w' = [h] \<and> map_find (fs_handlers s') h = Some x \<and> rh_session x = i)"
    if w': "map_find (wn_sessions (fs_net s')) i = Some w'" for i w'
  proof -
    obtain w where w: "map_find (wn_sessions (fs_net s)) i = Some w" "wss_handlers w = wss_handlers w'"
      using steady_sym_parts(3) [OF st w'] by blast
    then have "wss_handlers w' = [] \<or> (\<exists>h x. wss_handlers w' = [h] \<and> map_find (fs_handlers s) h = Some x \<and> rh_session x = i)"
      using ok unfolding conn_ok_def by metis
    then show ?thesis using steady_sym_parts(1) [OF st] by metis
  qed
  moreover have "map_find (fs_handlers s') h \<noteq> None" if "fs_listener s' = Some h" for h
  proof -
    have "map_find (fs_handlers s) h \<noteq> None" using ok st that unfolding conn_ok_def steady_def by simp
    then show ?thesis using steady_sym_parts(1) [OF st] by fastforce
  qed
  moreover have "map_wf (fs_handlers s')" "map_wf (wn_sessions (fs_net s'))"
    using ok st unfolding conn_ok_def steady_def by blast+
  ultimately show ?thesis unfolding conn_ok_def by blast
qed

section \<open>Steady steps\<close>

named_theorems steady_rules

lemma steady_fields:
  "fs_handlers s' = fs_handlers s \<Longrightarrow> wn_sessions (fs_net s') = wn_sessions (fs_net s) \<Longrightarrow> fs_next s' = fs_next s \<Longrightarrow>
   fs_listener s' = fs_listener s \<Longrightarrow> steady s s'"
  by (simp add: steady_def)

lemma steady_put [simp, intro]:
  "steady s (put_sessions sm s)" "steady s (put_apps am s)" "steady s (put_reply r s)"
  "steady s (s\<lparr>fs_platform := p\<rparr>)" "steady s (s\<lparr>fs_flint := fl\<rparr>)" "steady s (s\<lparr>fs_ip := ip\<rparr>)"
  by (rule steady_fields; simp add: put_sessions_def put_apps_def put_reply_def)+

lemma steady_upd:
  assumes f: "\<And>x. rh_session (f x) = rh_session x" and u: "upd_handler f h s = Inr s'"
  shows "steady s s'"
proof -
  from u obtain x where x: "map_find (fs_handlers s) h = Some x" "s' = s\<lparr>fs_handlers := map_set h (f x) (fs_handlers s)\<rparr>"
    by (auto simp: upd_handler_def get_handler_def split: option.splits)
  then show ?thesis by (simp add: steady_def map_find_set f)
qed

lemma steady_timers [steady_rules]:
  "cancel_timers h s = Inr s' \<Longrightarrow> steady s s'" "asyncSendPing h s = Inr s' \<Longrightarrow> steady s s'"
  "asyncCheckIp h s = Inr s' \<Longrightarrow> steady s s'"
  unfolding cancel_timers_def asyncSendPing_def asyncCheckIp_def by (erule steady_upd [rotated]; simp)+

lemma steady_rh_net:
  assumes "rh_net f s = Inr s'"
    and "\<And>n'. f (fs_net s) = Inr n' \<Longrightarrow> (\<forall>i. map_option wss_handlers (map_find (wn_sessions n') i)
        = map_option wss_handlers (map_find (wn_sessions (fs_net s)) i)) \<and> (map_wf (wn_sessions (fs_net s)) \<longrightarrow> map_wf (wn_sessions n'))"
  shows "steady s s'"
  using assms by (auto simp: rh_net_def steady_def)

lemma steady_net [steady_rules]:
  "rh_net (ws_send i m) s = Inr s' \<Longrightarrow> steady s s'" "rh_net (ws_close i) s = Inr s' \<Longrightarrow> steady s s'"
  by (erule steady_rh_net; auto simp: ws_send_def ws_close_def map_find_set)+

lemma steady_send [steady_rules]: "rh_send text j h s = Inr s' \<Longrightarrow> steady s s'"
  by (auto simp: rh_send_def intro: steady_rules)

lemma steady_texts [steady_rules]:
  "sendHeartbeat text t h s = Inr s' \<Longrightarrow> steady s s'"
  "rh_onSenderConnected text k h s = Inr s' \<Longrightarrow> steady s s'" "rh_onSenderDisconnected text k h s = Inr s' \<Longrightarrow> steady s s'"
  by (auto simp: sendHeartbeat_def rh_onSenderConnected_def rh_onSenderDisconnected_def intro: steady_rules)

lemma steady_onRegister [steady_rules]: "onRegister dev text h s = Inr s' \<Longrightarrow> steady s s'"
  unfolding onRegister_def
  by (elim bindE_eq_InrE, rule steady_trans [OF steady_upd [rotated] steady_send], assumption) simp_all

lemma steady_startHeartbeat [steady_rules]: "startHeartbeat text h s = Inr s' \<Longrightarrow> steady s s'"
  by (auto simp: startHeartbeat_def intro: steady_trans [OF steady_send steady_timers(2)])

lemma steady_close [steady_rules]: "rh_close h s = Inr s' \<Longrightarrow> steady s s'"
  by (auto simp: rh_close_def intro: steady_trans [OF steady_timers(1) steady_net(2)])

lemma steady_pings [steady_rules]:
  "handleStartPing text h s = Inr s' \<Longrightarrow> steady s s'" "handleCheckIp dev text h s = Inr s' \<Longrightarrow> steady s s'"
  by (auto simp: handleStartPing_def handleCheckIp_def split: if_splits
      intro: steady_rules steady_trans [OF steady_texts(1) steady_timers(2)] steady_trans [OF steady_onRegister steady_timers(3)])

lemma steady_told [steady_rules]: "listener_told text h c s = Inr s' \<Longrightarrow> steady s s'"
  by (cases c) (auto simp: onReceiverDisconnected_def split: if_splits intro: steady_rules)

lemma steady_foldE:
  assumes "\<And>t x t'. f t x = Inr t' \<Longrightarrow> steady t t'"
  shows "foldE f s xs = Inr s' \<Longrightarrow> steady s s'"
  by (induction xs arbitrary: s) (auto intro: steady_trans assms)

lemma steady_deliver_calls [steady_rules]: "deliver_calls text s = Inr s' \<Longrightarrow> steady s s'"
  by (auto simp: deliver_calls_def Let_def split: option.splits
      intro: steady_trans [OF steady_put(1) steady_foldE [OF steady_told]])

lemma steady_deliver_platform [steady_rules]: "deliver_platform parse text s = Inr s' \<Longrightarrow> steady s s'"
  by (auto simp: deliver_platform_def Let_def intro: steady_trans [OF steady_put(2) steady_put(4)])

lemma steady_in_sessions [steady_rules]: "in_sessions text f s = Inr (r, s') \<Longrightarrow> steady s s'"
  by (auto simp: in_sessions_def intro: steady_trans [OF steady_put(1) steady_deliver_calls])

lemma steady_in_apps [steady_rules]: "in_apps parse text f s = Inr s' \<Longrightarrow> steady s s'"
  by (auto simp: in_apps_def intro: steady_trans [OF steady_put(2) steady_deliver_platform])

lemma steady_in_flint [steady_rules]: "in_flint parse text f s = Inr s' \<Longrightarrow> steady s s'"
  by (auto simp: in_flint_def
      intro: steady_trans [OF steady_put(5)] steady_trans [OF steady_deliver_calls steady_deliver_platform])

lemma steady_touch [steady_rules]: "touch_receiver text a s = Inr s' \<Longrightarrow> steady s s'"
  by (auto simp: touch_receiver_def intro: steady_rules)

lemma steady_additional [steady_rules]: "rh_additional d p s = Inr s' \<Longrightarrow> steady s s'"
  by (auto simp: rh_additional_def split: json.splits)

lemma steady_heartbeat [steady_rules]: "rh_heartbeat text d h s = Inr s' \<Longrightarrow> steady s s'"
  by (auto simp: rh_heartbeat_def split: if_splits) (rule steady_texts(1), assumption)

section \<open>Every event keeps the connections\<close>

lemma steady_set_listener_same:
  assumes "set_listener text l s = Inr s'"
  shows "steady (s\<lparr>fs_listener := l\<rparr>) s'"
  using assms by (auto simp: set_listener_def intro: steady_in_sessions)

lemma ok_listener_None: "conn_ok s \<Longrightarrow> conn_ok (s\<lparr>fs_listener := None\<rparr>)"
  by (simp add: conn_ok_def)

lemma ok_listener_Some: "conn_ok s \<Longrightarrow> map_find (fs_handlers s) h \<noteq> None \<Longrightarrow> conn_ok (s\<lparr>fs_listener := Some h\<rparr>)"
  by (simp add: conn_ok_def)

lemma ok_set_listener:
  assumes "conn_ok s" and "\<And>h. l = Some h \<Longrightarrow> map_find (fs_handlers s) h \<noteq> None" and "set_listener text l s = Inr s'"
  shows "conn_ok s'"
  using conn_ok_steady [OF _ steady_set_listener_same [OF assms(3)]] assms(1,2)
  by (cases l) (auto simp: ok_listener_None ok_listener_Some)

lemma ok_register:
  assumes ok: "conn_ok s" and h: "map_find (fs_handlers s) h \<noteq> None"
    and r: "rh_register uuid dev parse text h appId app s = Inr s'"
  shows "conn_ok s'"
proof -
  from r obtain a where a: "get_app (fl_apps (fs_flint s)) app = Inr a" by (auto simp: rh_register_def)
  show ?thesis
  proof (cases "ap_useIpc a")
    case True
    with r a obtain s1 where s1: "set_listener text (Some h) s = Inr s1" by (auto simp: rh_register_def)
    have "conn_ok s1" by (rule ok_set_listener [OF ok _ s1]) (use h in auto)
    moreover have "steady s1 s'"
      using r a True s1
      by (auto simp: rh_register_def split: if_splits
          intro: steady_trans [OF steady_in_sessions steady_close]
            steady_trans [OF steady_in_sessions steady_trans [OF steady_in_apps steady_trans [OF steady_onRegister
              steady_trans [OF steady_timers(3) steady_trans [OF steady_startHeartbeat steady_touch]]]]])
    ultimately show ?thesis by (rule conn_ok_steady)
  next
    case False
    with r a have "steady s s'" by (auto simp: rh_register_def intro: steady_trans [OF steady_in_apps steady_close])
    with ok show ?thesis by (rule conn_ok_steady)
  qed
qed

lemma ok_says:
  assumes ok: "conn_ok s" and m: "rh_onMessage uuid dev parse text h msg s = Inr s'"
  shows "conn_ok s'"
proof -
  from m obtain x where x: "get_handler s h = Inr x" by (auto simp: rh_onMessage_def)
  have "steady s s' \<or> (\<exists>s1 app. steady s s1 \<and> rh_register uuid dev parse text h (rh_appId x) app s1 = Inr s')"
    using m x unfolding rh_onMessage_def Let_def
    by (auto split: option.splits if_splits)
      (meson steady_close steady_touch steady_in_apps steady_additional steady_heartbeat steady_trans)+
  then show ?thesis
  proof (elim disjE exE conjE)
    fix s1 app assume st: "steady s s1" and r: "rh_register uuid dev parse text h (rh_appId x) app s1 = Inr s'"
    have "map_find (fs_handlers s) h = Some x" using x by (auto simp: get_handler_def split: option.splits)
    then have "map_find (fs_handlers s1) h \<noteq> None" using steady_sym_parts(1) [OF st] by fastforce
    then show ?thesis using ok_register [OF conn_ok_steady [OF ok st] _ r] by blast
  qed (rule conn_ok_steady [OF ok])
qed

text \<open>Opening and closing.\<close>

lemma ok_open:
  assumes ok: "conn_ok s" and n: "map_find (wn_sessions (fs_net s)) i = None"
  shows "conn_ok (s\<lparr>fs_net := ws_open i (fs_net s)\<rparr>)"
proof -
  have "map_find (wn_sessions (ws_open i (fs_net s))) = (map_find (wn_sessions (fs_net s)))(i \<mapsto> \<lparr>wss_closing = False, wss_handlers = []\<rparr>)"
    using ok n by (simp add: ws_open_def conn_ok_def map_find_new)
  moreover have "map_wf (wn_sessions (ws_open i (fs_net s)))" using ok by (simp add: ws_open_def conn_ok_def)
  moreover have "rh_session x \<noteq> i" if "map_find (fs_handlers s) h = Some x" for h x
    using ok that n unfolding conn_ok_def by (metis option.distinct(1))
  ultimately show ?thesis using ok unfolding conn_ok_def by auto
qed

lemma ok_new_handler:
  assumes ok: "conn_ok s" and w: "map_find (wn_sessions (fs_net s)) i = Some w" "wss_handlers w = []"
    and s': "new_ReceiverApplicationHandler i appId s = Inr s'"
  shows "conn_ok s'"
proof -
  let ?h = "fs_next s" let ?x = "\<lparr>rh_appId = appId, rh_session = i, rh_ppTimer = False, rh_ipTimer = False, rh_cacheIp = []\<rparr>"
  have n: "map_find (fs_handlers s) ?h = None"
    using ok unfolding conn_ok_def by (metis less_irrefl not_Some_eq)
  have eq: "s' = s\<lparr>fs_net := (fs_net s)\<lparr>wn_sessions := map_set i (w\<lparr>wss_handlers := [?h]\<rparr>) (wn_sessions (fs_net s))\<rparr>,
      fs_handlers := map_insert ?h ?x (fs_handlers s), fs_next := ?h + 1\<rparr>"
    using s' w by (auto simp: new_ReceiverApplicationHandler_def rh_net_def ws_live Let_def)
  have hs: "map_find (fs_handlers s') = (map_find (fs_handlers s))(?h \<mapsto> ?x)"
    using ok n by (simp add: eq conn_ok_def map_find_new)
  have ws: "map_find (wn_sessions (fs_net s')) = (map_find (wn_sessions (fs_net s)))(i \<mapsto> w\<lparr>wss_handlers := [?h]\<rparr>)"
    using w by (simp add: eq map_find_upd)
  have other: "rh_session x \<noteq> i" if "map_find (fs_handlers s) h = Some x" for h x
    using ok that w unfolding conn_ok_def by fastforce
  have "map_wf (fs_handlers s')" "map_wf (wn_sessions (fs_net s'))" "fs_next s' = ?h + 1" "fs_listener s' = fs_listener s"
    using ok by (simp_all add: eq conn_ok_def)
  moreover have "wss_handlers u = [] \<or> (\<exists>k y. wss_handlers u = [k] \<and> map_find (fs_handlers s') k = Some y \<and> rh_session y = j)"
    if j: "map_find (wn_sessions (fs_net s')) j = Some u" for j u
  proof (cases "j = i")
    case True
    then show ?thesis using j by (simp add: ws hs) auto
  next
    case False
    then have "wss_handlers u = [] \<or> (\<exists>k y. wss_handlers u = [k] \<and> map_find (fs_handlers s) k = Some y \<and> rh_session y = j)"
      using j ok unfolding conn_ok_def ws by simp
    then show ?thesis using n unfolding hs by fastforce
  qed
  ultimately show ?thesis
    using ok other n unfolding conn_ok_def hs ws by (auto simp: less_Suc_eq)
qed

lemma steady_stop_alive: "stop_alive parse text a s = Inr s' \<Longrightarrow> steady s s'"
  by (auto simp: stop_alive_def split: option.splits intro: steady_in_apps steady_trans [OF steady_in_apps steady_in_apps])

lemma steady_stop_on_close: "stop_on_close parse text a s = Inr s' \<Longrightarrow> steady s s'"
  by (auto simp: stop_on_close_def split: option.splits if_splits intro: steady_in_apps steady_stop_alive)

lemma closing_steps:
  assumes "rh_onClose parse text h s = Inr s'"
  shows "\<exists>t. conn_ok s \<longrightarrow> conn_ok t \<and> s' = t\<lparr>fs_handlers := map_erase h (fs_handlers t)\<rparr> \<and> steady (s\<lparr>fs_listener := None\<rparr>) t"
proof -
  from assms obtain x :: receiver_handler and r s1 s2 s4 s5 where s1: "in_sessions text (disconnectReceiver (rh_appId x)) s = Inr (r, s1)"
    and s2: "set_listener text None s1 = Inr s2" and s4: "stop_on_close parse text (rh_appId x) s2 = Inr s4" and s5: "cancel_timers h s4 = Inr s5"
    and s': "s' = s5\<lparr>fs_handlers := map_erase h (fs_handlers s5)\<rparr>"
    unfolding rh_onClose_def by (auto split: prod.splits)
  have "steady (s1\<lparr>fs_listener := None\<rparr>) s5"
    using steady_trans [OF steady_set_listener_same [OF s2] steady_trans [OF steady_stop_on_close [OF s4] steady_timers(1) [OF s5]]] .
  moreover have "steady (s\<lparr>fs_listener := None\<rparr>) (s1\<lparr>fs_listener := None\<rparr>)"
    using steady_in_sessions [OF s1] by (simp add: steady_def)
  ultimately have "steady (s\<lparr>fs_listener := None\<rparr>) s5" by (rule steady_trans [rotated])
  then show ?thesis using s' conn_ok_steady ok_listener_None by blast
qed

lemma ok_gone:
  assumes ok: "conn_ok s" and c: "flint_step uuid dev parse text s (FsGone i) = Inr s'"
  shows "conn_ok s'"
proof (cases "map_find (wn_sessions (fs_net s)) i")
  case None
  with c ok show ?thesis by (simp add: ws_clear_def)
next
  case (Some w)
  have wh: "wss_handlers w = [] \<or> (\<exists>h x. wss_handlers w = [h] \<and> map_find (fs_handlers s) h = Some x \<and> rh_session x = i)"
    using ok Some unfolding conn_ok_def by blast
  then show ?thesis
  proof (elim disjE exE conjE)
    assume w: "wss_handlers w = []"
    have "rh_session x \<noteq> i" if "map_find (fs_handlers s) h = Some x" for h x
      using ok that Some w unfolding conn_ok_def by fastforce
    with c Some w ok show ?thesis
      by (auto simp: ws_clear_def ws_delete_def conn_ok_def map_find_erase split: if_splits) metis
  next
    fix h x assume w: "wss_handlers w = [h]" and x: "map_find (fs_handlers s) h = Some x" "rh_session x = i"
    from c Some w obtain s1 where s1: "rh_onClose parse text h s = Inr s1"
      and s': "s' = s1\<lparr>fs_net := ws_delete i (fs_net s1)\<rparr>" by (auto simp: ws_clear_def)
    obtain t where t: "conn_ok t" "s1 = t\<lparr>fs_handlers := map_erase h (fs_handlers t)\<rparr>" "steady (s\<lparr>fs_listener := None\<rparr>) t"
      using closing_steps [OF s1] ok by blast
    obtain y where y: "map_find (fs_handlers t) h = Some y" "rh_session y = i"
      using steady_sym_parts(1) [OF t(3), of h x] x by auto
    have l: "fs_listener t = None" using t(3) by (simp add: steady_def)
    have hs: "map_find (fs_handlers s') = (map_find (fs_handlers t))(h := None)"
      using t(1) by (simp add: s' t(2) conn_ok_def map_find_del)
    have ws: "map_find (wn_sessions (fs_net s')) = (map_find (wn_sessions (fs_net t)))(i := None)"
      using t(1) by (simp add: s' t(2) ws_delete_def conn_ok_def map_find_del)
    obtain v where v: "map_find (wn_sessions (fs_net t)) i = Some v" "wss_handlers v = [h]"
      using t(1) y unfolding conn_ok_def by blast
    have uniq: "rh_session z \<noteq> i" if "map_find (fs_handlers t) k = Some z" "k \<noteq> h" for k z
    proof
      assume "rh_session z = i"
      then have "wss_handlers v = [k]" using t(1) that(1) v(1) unfolding conn_ok_def by fastforce
      with v(2) that(2) show False by simp
    qed
    have uniq': "wss_handlers u = [h] \<Longrightarrow> j = i" if "map_find (wn_sessions (fs_net t)) j = Some u" for j u
      using t(1) that y unfolding conn_ok_def by (metis list.inject not_Cons_self2 option.inject)
    have "map_wf (fs_handlers s')" "map_wf (wn_sessions (fs_net s'))" "fs_next s' = fs_next t" "fs_listener s' = None"
      using t(1) l by (simp_all add: s' t(2) ws_delete_def conn_ok_def)
    then show ?thesis
      using t(1) uniq uniq' unfolding conn_ok_def hs ws by (auto simp del: ) (metis)+
  qed
qed

lemma conn_ok_opened:
  assumes ok: "conn_ok s" and n: "map_find (wn_sessions (fs_net s)) i = None"
    and c: "flint_onWebsocketConnection i path (s\<lparr>fs_net := ws_open i (fs_net s)\<rparr>) = Inr s'"
  shows "conn_ok s'"
proof -
  let ?s = "s\<lparr>fs_net := ws_open i (fs_net s)\<rparr>"
  have o: "conn_ok ?s" by (rule ok_open [OF ok n])
  have w: "map_find (wn_sessions (fs_net ?s)) i = Some \<lparr>wss_closing = False, wss_handlers = []\<rparr>"
    using ok n by (simp add: ws_open_def conn_ok_def map_find_insert)
  show ?thesis
  proof (cases "starts_with path ''/receiver/~''")
    case True
    with c show ?thesis
      by (intro ok_new_handler [OF o w]) (simp_all add: flint_onWebsocketConnection_def)
  qed (use c o in \<open>simp add: flint_onWebsocketConnection_def\<close>)
qed

lemma steady_request: "flint_onHttpRequest uuid dev parse text rq s = Inr s' \<Longrightarrow> steady s s'"
  unfolding flint_onHttpRequest_def Let_def
  by (auto split: if_splits intro: steady_trans [OF steady_put(3) steady_put(3)] steady_trans [OF steady_put(3) steady_in_flint]
      steady_trans [OF steady_put(3) steady_trans [OF steady_put(4) steady_put(3)]])

lemma steady_fire_timer:
  assumes "\<And>t t'. handler h t = Inr t' \<Longrightarrow> steady t t'" and "\<And>x. rh_session (disarm x) = rh_session x"
    and "fire_timer armed disarm handler h s = Inr s'"
  shows "steady s s'"
  using assms(3) by (auto simp: fire_timer_def split: option.splits if_splits intro: steady_trans [OF steady_upd assms(1)] assms(2))

lemma flint_step_ok:
  assumes ok: "conn_ok s" and st: "flint_step uuid dev parse text s e = Inr s'"
  shows "conn_ok s'"
proof (cases e)
  case (FsOpened i path)
  then show ?thesis
    using ok st conn_ok_opened [OF ok] by (cases "map_find (wn_sessions (fs_net s)) i") auto
next
  case (FsSays i msg)
  have "conn_ok t \<Longrightarrow> foldE (\<lambda>t h. rh_onMessage uuid dev parse text h msg t) t hs = Inr t' \<Longrightarrow> conn_ok t'" for t t' hs
    by (induction hs arbitrary: t) (auto dest: ok_says)
  then show ?thesis using ok st by (auto simp: FsSays ws_on_message_def split: option.splits if_splits)
next
  case (FsPing h)
  have "steady s s'"
    by (rule steady_fire_timer [where h = h]) (use st FsPing in \<open>auto intro: steady_pings\<close>)
  with ok show ?thesis by (rule conn_ok_steady)
next
  case (FsCheckIp h)
  have "steady s s'"
    by (rule steady_fire_timer [where h = h]) (use st FsCheckIp in \<open>auto intro: steady_pings\<close>)
  with ok show ?thesis by (rule conn_ok_steady)
next
  case (FsRequest rq)
  with st have "steady s s'" by (simp add: steady_request)
  with ok show ?thesis by (rule conn_ok_steady)
next
  case FsSecond
  with st have "steady s s'" by (auto intro: steady_in_sessions)
  with ok show ?thesis by (rule conn_ok_steady)
next
  case (FsDevice d)
  with st have "steady s s'" by auto
  with ok show ?thesis by (rule conn_ok_steady)
next
  case (FsGone i)
  with ok st show ?thesis using ok_gone [OF ok] by metis
next
  case (FsIpChanged ip)
  with st have "steady s s'" by auto
  with ok show ?thesis by (rule conn_ok_steady)
qed (use st in \<open>auto intro: conn_ok_steady [OF ok] steady_in_apps\<close>)

interpretation receivers: fallible_machine "flint_step uuid dev parse text" conn_ok for uuid dev parse "text"
  by unfold_locales (rule flint_step_ok)

lemma init_conn_ok: "conn_ok (init_flint_server dev)"
  by (simp add: conn_ok_def init_flint_server_def init_net_def)

definition handlers_live :: "flint_server \<Rightarrow> bool" where
  "handlers_live s \<longleftrightarrow>
     (\<forall>h. fs_listener s = Some h \<longrightarrow> (\<exists>x w. map_find (fs_handlers s) h = Some x
        \<and> map_find (wn_sessions (fs_net s)) (rh_session x) = Some w \<and> wss_handlers w = [h]))
   \<and> (\<forall>h x. map_find (fs_handlers s) h = Some x \<longrightarrow>
        (\<exists>w. map_find (wn_sessions (fs_net s)) (rh_session x) = Some w \<and> wss_handlers w = [h]))
   \<and> (\<forall>i w. map_find (wn_sessions (fs_net s)) i = Some w \<longrightarrow>
        (\<forall>h \<in> set (wss_handlers w). map_find (fs_handlers s) h \<noteq> None))"

text \<open>
  C29. Whatever requests, connections, messages, closes and timers the server has handled without a
  fault, the listener of its session manager is a handler that is alive and whose connection is
  open, every handler alive is the one of an open connection, and an open connection delivers its
  messages to handlers that are alive only.
\<close>

theorem receiver_handlers_live:
  "case foldE (flint_step uuid dev parse text) (init_flint_server dev) es of Inl _ \<Rightarrow> True | Inr s \<Rightarrow> handlers_live s"
proof (cases "foldE (flint_step uuid dev parse text) (init_flint_server dev) es")
  case (Inr s)
  have ok: "conn_ok s" by (rule receivers.run_inv [OF init_conn_ok Inr])
  have l: "\<exists>x. map_find (fs_handlers s) h = Some x" if "fs_listener s = Some h" for h
    using ok that unfolding conn_ok_def by blast
  have h: "\<exists>w. map_find (wn_sessions (fs_net s)) (rh_session x) = Some w \<and> wss_handlers w = [h]"
    if "map_find (fs_handlers s) h = Some x" for h x
    using ok that unfolding conn_ok_def by blast
  have w: "map_find (fs_handlers s) h \<noteq> None"
    if "map_find (wn_sessions (fs_net s)) i = Some w" "h \<in> set (wss_handlers w)" for i w h
  proof -
    have "wss_handlers w = [] \<or> (\<exists>h x. wss_handlers w = [h] \<and> map_find (fs_handlers s) h = Some x \<and> rh_session x = i)"
      using ok that(1) unfolding conn_ok_def by blast
    with that(2) show ?thesis by auto
  qed
  show ?thesis unfolding Inr sum.case handlers_live_def using l h w by blast
qed simp

end
