(* ===== verification/Registration.thy ===== *)
theory Registration
  imports ReceiverSafety
begin

text \<open>
  What a receiver application sees of the daemon: the answer to its registration, with the senders
  that are already there, and its heartbeat messages.
\<close>

section \<open>Texts sent on a connection\<close>

definition said :: "nat \<Rightarrow> string list \<Rightarrow> flint_server \<Rightarrow> flint_server" where
  "said i ms s = s\<lparr>fs_net := (fs_net s)\<lparr>wn_out := wn_out (fs_net s) @ map (WsSend i) ms\<rparr>\<rparr>"

lemma said_fields [simp]:
  "fs_flint (said i ms s) = fs_flint s" "fs_handlers (said i ms s) = fs_handlers s"
  "fs_listener (said i ms s) = fs_listener s" "fs_ip (said i ms s) = fs_ip s" "fs_platform (said i ms s) = fs_platform s"
  "wn_sessions (fs_net (said i ms s)) = wn_sessions (fs_net s)"
  "wn_out (fs_net (said i ms s)) = wn_out (fs_net s) @ map (WsSend i) ms"
  "said i ns (said i ms s) = said i (ms @ ns) s" "said i [] s = s"
  by (simp_all add: said_def)

text \<open>A handler whose connection is open.\<close>

definition linked :: "flint_server \<Rightarrow> nat \<Rightarrow> receiver_handler \<Rightarrow> bool" where
  "linked s h x \<longleftrightarrow>
     map_find (fs_handlers s) h = Some x \<and> map_find (wn_sessions (fs_net s)) (rh_session x) \<noteq> None"

lemma linked_get: "linked s h x \<Longrightarrow> get_handler s h = Inr x"
  by (simp add: linked_def get_handler_def)

lemma linked_send: "linked s h x \<Longrightarrow> rh_send text j h s = Inr (said (rh_session x) [cstr (text j)] s)"
  by (auto simp: linked_def rh_send_def get_handler_def rh_net_def ws_live said_def)

lemma linked_said [simp]: "linked (said i ms s) h x \<longleftrightarrow> linked s h x"
  by (simp add: linked_def)

lemma linked_upd:
  "linked s h x \<Longrightarrow> upd_handler f h s = Inr (s\<lparr>fs_handlers := map_set h (f x) (fs_handlers s)\<rparr>)"
  by (simp add: linked_def upd_handler_def get_handler_def)

lemma linked_set:
  "linked s h x \<Longrightarrow> rh_session y = rh_session x \<Longrightarrow> linked (s\<lparr>fs_handlers := map_set h y (fs_handlers s)\<rparr>) h y"
  by (auto simp: linked_def map_find_set)

lemma linked_put [simp]:
  "linked (put_sessions sm s) h x \<longleftrightarrow> linked s h x" "linked (put_apps am s) h x \<longleftrightarrow> linked s h x"
  "linked (s\<lparr>fs_listener := l\<rparr>) h x \<longleftrightarrow> linked s h x"
  by (simp_all add: linked_def put_sessions_def put_apps_def)

lemma put_fields [simp]:
  "fl_sessions (fs_flint (put_sessions sm s)) = sm" "fl_apps (fs_flint (put_sessions sm s)) = fl_apps (fs_flint s)"
  "fl_apps (fs_flint (put_apps am s)) = am" "fl_sessions (fs_flint (put_apps am s)) = fl_sessions (fs_flint s)"
  "put_sessions sm' (put_sessions sm s) = put_sessions sm' s" "put_apps am' (put_apps am s) = put_apps am' s"
  "fs_listener (put_sessions sm s) = fs_listener s" "fs_listener (put_apps am s) = fs_listener s"
  "fs_handlers (put_sessions sm s) = fs_handlers s" "fs_handlers (put_apps am s) = fs_handlers s"
  "fs_net (put_sessions sm s) = fs_net s" "fs_net (put_apps am s) = fs_net s"
  "fs_ip (put_sessions sm s) = fs_ip s" "fs_ip (put_apps am s) = fs_ip s"
  "fs_platform (put_sessions sm s) = fs_platform s" "fs_platform (put_apps am s) = fs_platform s"
  by (simp_all add: put_sessions_def put_apps_def)

lemma put_same [simp]: "put_sessions (fl_sessions (fs_flint s)) s = s" "put_apps (fl_apps (fs_flint s)) s = s"
  by (simp_all add: put_sessions_def put_apps_def)

section \<open>Calls that nobody has to be told of\<close>

lemma deliver_none: "sm_calls (fl_sessions (fs_flint s)) = [] \<Longrightarrow> deliver_calls text s = Inr s"
proof -
  assume c: "sm_calls (fl_sessions (fs_flint s)) = []"
  then have e: "(fl_sessions (fs_flint s))\<lparr>sm_calls := []\<rparr> = fl_sessions (fs_flint s)" by simp
  show ?thesis unfolding deliver_calls_def Let_def e by (simp add: c split: option.splits)
qed

lemma in_sessions_quiet:
  "f (fl_sessions (fs_flint s)) = Inr (r, sm) \<Longrightarrow> sm_calls sm = [] \<Longrightarrow> in_sessions text f s = Inr (r, put_sessions sm s)"
  by (simp add: in_sessions_def deliver_none)

lemma in_apps_quiet:
  assumes "f (fl_apps (fs_flint s)) = Inr am" and "am_calls am = []"
  shows "in_apps parse text f s = Inr (put_apps am s)"
proof -
  have "am\<lparr>am_calls := []\<rparr> = am" using assms(2) by simp
  then show ?thesis using assms by (simp add: in_apps_def deliver_platform_def Let_def) (simp add: put_apps_def)
qed

section \<open>The session manager during a registration\<close>

lemma notify_known:
  assumes "\<forall>e \<in> set it. \<exists>so. map_find (sm_heap s) (snd e) = Some so \<and> so_token so = fst e" and "sm_listener s"
  shows "notify_senders it s = Inr (s\<lparr>sm_calls := sm_calls s @ map (\<lambda>e. SenderConnected (fst e)) it\<rparr>)"
  using assms
proof (induction it arbitrary: s)
  case (Cons e it)
  obtain t p where e: "e = (t, p)" by (cases e)
  obtain so where so: "map_find (sm_heap s) p = Some so" "so_token so = t" using Cons.prems(1) e by auto
  let ?s = "s\<lparr>sm_calls := sm_calls s @ [SenderConnected t]\<rparr>"
  have "notify_senders it ?s = Inr (?s\<lparr>sm_calls := sm_calls ?s @ map (\<lambda>e. SenderConnected (fst e)) it\<rparr>)"
    by (rule Cons.IH) (use Cons.prems in simp_all)
  then show ?case using so Cons.prems(2) by (simp add: e get_session_def notify_def)
qed simp

lemma listener_on:
  assumes ok: "sessions_ok uuid {} s" and c: "sm_calls s = []"
  shows "setSessionListender True s =
    Inr (s\<lparr>sm_listener := True, sm_calls := map (\<lambda>e. SenderConnected (fst e)) (sm_senders s)\<rparr>)"
proof -
  have "\<exists>so. map_find (sm_heap s) (snd e) = Some so \<and> so_token so = fst e" if "e \<in> set (sm_senders s)" for e
  proof -
    have "map_find (sm_senders s) (fst e) = Some (snd e)" using that ok_wf [OF ok] by (simp add: map_find_iff)
    then show ?thesis by (rule ok_sender [OF ok]) blast
  qed
  then show ?thesis using c by (simp add: setSessionListender_def notify_known Let_def)
qed

lemma told_senders:
  assumes "linked s h x"
  shows "foldE (\<lambda>t c. listener_told text h c t) s (map (\<lambda>e. SenderConnected (fst e)) es)
    = Inr (said (rh_session x) (map (\<lambda>e. cstr (text (sender_json ''senderconnected'' (rh_appId x) (fst e)))) es) s)"
  using assms
proof (induction es arbitrary: s)
  case (Cons e es)
  then show ?case by (simp add: rh_onSenderConnected_def linked_get linked_send)
qed simp

lemma set_listener_known:
  assumes ok: "sessions_ok uuid {} (fl_sessions (fs_flint s))" and c: "sm_calls (fl_sessions (fs_flint s)) = []"
    and x: "linked s h x"
  shows "set_listener text (Some h) s = Inr (said (rh_session x)
      (map (\<lambda>e. cstr (text (sender_json ''senderconnected'' (rh_appId x) (fst e)))) (sm_senders (fl_sessions (fs_flint s))))
      (put_sessions ((fl_sessions (fs_flint s))\<lparr>sm_listener := True\<rparr>) (s\<lparr>fs_listener := Some h\<rparr>)))"
proof -
  have "(fl_sessions (fs_flint s))\<lparr>sm_listener := True, sm_calls := []\<rparr> = (fl_sessions (fs_flint s))\<lparr>sm_listener := True\<rparr>"
    using c by simp
  then show ?thesis
    using x by (simp add: set_listener_def in_sessions_def listener_on [OF ok c] deliver_calls_def Let_def told_senders)
qed

lemma create_receiver:
  assumes ok: "sessions_ok uuid {} s" and inj: "inj uuid" and r: "sm_receiver s = None" and c: "sm_calls s = []"
  obtains s' where "createReceiver uuid appId s = Inr (True, s')" and "sm_calls s' = []" and "sm_receiver s' \<noteq> None"
    and "sessions_ok uuid {} s'" and "sp_receiver (session_abs s') = Some (appId, 10)" and "sm_listener s' = sm_listener s"
proof -
  from session_step_ok [OF ok inj, of "SCreateReceiver appId"]
  obtain s' where s': "session_step uuid s (SCreateReceiver appId) = Inr s'" and ok': "sessions_ok uuid {} s'"
    and abs: "session_abs s' = spec_step uuid (session_abs s) (SCreateReceiver appId)" by blast
  from s' r obtain t p where t: "createReceiver uuid appId s = Inr (True, s')" "triggerTimer p t = Inr s'"
    "sm_calls t = sm_calls s" "sm_listener t = sm_listener s"
    by (auto simp: createReceiver_def new_session_def)
  have "sp_receiver (session_abs s) = None" using r by (simp add: session_abs_def)
  then have "sp_receiver (session_abs s') = Some (appId, 10)" using abs by simp
  moreover from this have "sm_receiver s' \<noteq> None" by (auto simp: session_abs_def)
  ultimately show ?thesis
    using that t ok' c triggerTimer_frame [OF t(2)] by simp
qed

lemma touch_registered:
  assumes ok: "sessions_ok uuid {} (fl_sessions (fs_flint s))" and inj: "inj uuid"
    and r: "sp_receiver (session_abs (fl_sessions (fs_flint s))) = Some (appId, n)"
    and c: "sm_calls (fl_sessions (fs_flint s)) = []"
  obtains sm where "touch_receiver text appId s = Inr (put_sessions sm s)" and "sessions_ok uuid {} sm" and "sm_calls sm = []"
    and "sp_receiver (session_abs sm) = Some (appId, 10)"
proof -
  from session_step_ok [OF ok inj, of "STouchReceiver appId"]
  obtain sm where sm: "session_step uuid (fl_sessions (fs_flint s)) (STouchReceiver appId) = Inr sm" and ok': "sessions_ok uuid {} sm"
    and abs: "session_abs sm = spec_step uuid (session_abs (fl_sessions (fs_flint s))) (STouchReceiver appId)" by blast
  from sm obtain b where b: "touchReceiver appId (fl_sessions (fs_flint s)) = Inr (b, sm)" by auto
  have "sm_calls sm = []" using b c by (auto simp: touchReceiver_def split: option.splits dest: triggerTimer_frame)
  moreover from this have "touch_receiver text appId s = Inr (put_sessions sm s)"
    by (simp add: touch_receiver_def in_sessions_quiet [where f = "touchReceiver appId", OF b])
  ultimately show ?thesis using that ok' abs r by simp
qed

lemma touch_unregistered:
  assumes "sm_receiver (fl_sessions (fs_flint s)) = None" and "sm_calls (fl_sessions (fs_flint s)) = []"
  shows "touch_receiver text appId s = Inr s"
  using assms by (simp add: touch_receiver_def in_sessions_quiet [where f = "touchReceiver appId" and r = False and sm = "fl_sessions (fs_flint s)"]
      touchReceiver_def)

section \<open>The application manager during a registration\<close>

lemma starting_alive:
  assumes "am_inv m" and "am_abs m = (Starting x, [])"
  obtains p a where "getAliveApplication m = Some p" and "map_find (am_heap m) p = Some a" and "ap_appId a = x" and "ap_useIpc a"
    and "am_top m = None" and "am_starting m = Some p" and "am_stopping m = None" and "am_pending m = []" and "ap_connected a"
  using assms(1)
proof (cases rule: am_inv_cases)
  case (starting p a)
  with assms(2) show ?thesis by (intro that [of p a]) (auto simp: getAliveApplication_def am_abs_def appId_of_def)
qed (use assms(2) in \<open>auto simp: am_abs_def\<close>)

lemma started_runs:
  assumes inv: "am_inv m" and abs: "am_abs m = (Starting x, [])" and p: "getAliveApplication m = Some p"
  obtains m' where "started plat p m = Inr m'" and "am_inv m'" and "am_abs m' = (Running x, [])" and "am_calls m' = am_calls m"
proof -
  obtain a where a: "map_find (am_heap m) p = Some a" "ap_useIpc a" "ap_connected a" "am_starting m = Some p"
    "am_top m = None" "am_stopping m = None" "am_pending m = []" "am_inv m"
    using starting_alive [OF inv abs] p inv by (metis option.inject)
  let ?b = "a\<lparr>ap_startTimer := False, ap_wsConnected := True, ap_appState := ''running''\<rparr>"
  let ?m = "m\<lparr>am_heap := map_set p ?b (am_heap m), am_top := Some p, am_starting := None\<rparr>"
  have eq: "started plat p m = Inr ?m"
    using a by (simp add: started.simps onAppStarted.simps onStarted_def setAppState_def map_find_set Let_def)
  have "calm m EvRegister" using a by (simp add: calm_def)
  then obtain m' where m': "am_step plat m EvRegister = Inr m'" "am_inv m'" "am_abs m' = phase_step (am_abs m) EvRegister"
    using step_register [OF inv] by blast
  have "m' = ?m" using m'(1) p eq by simp
  then show ?thesis using that [OF eq] m'(2,3) abs by simp
qed

section \<open>Registration\<close>

definition known_senders :: "flint_server \<Rightarrow> string list" where
  "known_senders s = map fst (sm_senders (fl_sessions (fs_flint s)))"

lemma register_runs:
  assumes ok: "sessions_ok uuid {} (fl_sessions (fs_flint s))" "inj uuid"
    and quiet: "sm_receiver (fl_sessions (fs_flint s)) = None" "sm_calls (fl_sessions (fs_flint s)) = []" "am_calls (fl_apps (fs_flint s)) = []"
    and x: "linked s h x"
    and am: "am_inv (fl_apps (fs_flint s))" "am_abs (fl_apps (fs_flint s)) = (Starting (rh_appId x), [])"
    and p: "getAliveApplication (fl_apps (fs_flint s)) = Some p"
  shows "\<exists>s'. rh_register uuid dev parse text h (rh_appId x) p s = Inr s' \<and>
      am_abs (fl_apps (fs_flint s')) = (Running (rh_appId x), []) \<and>
      sp_receiver (session_abs (fl_sessions (fs_flint s'))) = Some (rh_appId x, 10) \<and> fs_listener s' = Some h \<and>
      map_find (fs_handlers s') h = Some (x\<lparr>rh_ppTimer := True, rh_ipTimer := True, rh_cacheIp := fs_ip s\<rparr>) \<and>
      wn_out (fs_net s') = wn_out (fs_net s) @ map (\<lambda>j. WsSend (rh_session x) (cstr (text j)))
        (map (sender_json ''senderconnected'' (rh_appId x)) (known_senders s) @
         [register_json dev (pl_deviceName (fs_platform s)) (rh_appId x) (fs_ip s), startHeartbeat_json (rh_appId x)])"
proof -
  let ?i = "rh_session x" let ?sm = "fl_sessions (fs_flint s)" let ?sm1 = "?sm\<lparr>sm_listener := True\<rparr>"
  obtain a where a: "get_app (fl_apps (fs_flint s)) p = Inr a" "ap_useIpc a"
    using starting_alive [OF am] p by (metis get_app_Some option.inject)
  define told where "told = map (\<lambda>e. cstr (text (sender_json ''senderconnected'' (rh_appId x) (fst e)))) (sm_senders ?sm)"
  define s1 where "s1 = said ?i told (put_sessions ?sm1 (s\<lparr>fs_listener := Some h\<rparr>))"
  have l: "set_listener text (Some h) s = Inr s1"
    unfolding s1_def told_def by (rule set_listener_known [OF ok(1) quiet(2) x])
  have ok1: "sessions_ok uuid {} ?sm1" using ok(1) by (simp add: sessions_ok_def)
  obtain sm2 where sm2: "createReceiver uuid (rh_appId x) ?sm1 = Inr (True, sm2)" "sm_calls sm2 = []" "sessions_ok uuid {} sm2"
      "sp_receiver (session_abs sm2) = Some (rh_appId x, 10)"
    by (rule create_receiver [OF ok1 ok(2)]) (use quiet in simp_all)
  define s2 where "s2 = put_sessions sm2 s1"
  have c: "in_sessions text (createReceiver uuid (rh_appId x)) s1 = Inr (True, s2)"
    unfolding s2_def by (rule in_sessions_quiet) (simp_all add: s1_def sm2)
  obtain am' where am': "started (can_launch parse) p (fl_apps (fs_flint s)) = Inr am'" "am_abs am' = (Running (rh_appId x), [])" "am_calls am' = []"
    using started_runs [OF am p] quiet(3) by metis
  define s3 where "s3 = put_apps am' s2"
  have st: "in_apps parse text (started (can_launch parse) p) s2 = Inr s3"
    unfolding s3_def by (rule in_apps_quiet) (simp_all add: s2_def s1_def am')
  let ?x4 = "x\<lparr>rh_cacheIp := fs_ip s\<rparr>"
  define s4 where "s4 = s3\<lparr>fs_handlers := map_set h ?x4 (fs_handlers s3)\<rparr>"
  have x3: "linked s3 h x" using x by (simp add: s3_def s2_def s1_def)
  have x4: "linked s4 h ?x4" unfolding s4_def by (rule linked_set [OF x3]) simp
  let ?reg = "cstr (text (register_json dev (pl_deviceName (fs_platform s)) (rh_appId x) (fs_ip s)))"
  have fields: "fs_ip s3 = fs_ip s" "fs_platform s3 = fs_platform s" by (simp_all add: s3_def s2_def s1_def)
  have reg: "onRegister dev text h s3 = Inr (said ?i [?reg] s4)"
    using linked_upd [OF x3] linked_get [OF x4] linked_send [OF x4] fields by (simp add: onRegister_def s4_def)
  let ?x5 = "?x4\<lparr>rh_ipTimer := True\<rparr>" let ?x6 = "?x5\<lparr>rh_ppTimer := True\<rparr>"
  define s5 where "s5 = (said ?i [?reg] s4)\<lparr>fs_handlers := map_set h ?x5 (fs_handlers s4)\<rparr>"
  have ip: "asyncCheckIp h (said ?i [?reg] s4) = Inr s5"
    using linked_upd [of "said ?i [?reg] s4" h ?x4] x4 by (simp add: asyncCheckIp_def s5_def)
  have x5: "linked s5 h ?x5"
    using linked_set [of "said ?i [?reg] s4" h ?x4 ?x5] x4 by (simp add: s5_def)
  let ?hb = "cstr (text (startHeartbeat_json (rh_appId x)))"
  define s6 where "s6 = (said ?i [?hb] s5)\<lparr>fs_handlers := map_set h ?x6 (fs_handlers s5)\<rparr>"
  have hb: "startHeartbeat text h s5 = Inr s6"
    using linked_get [OF x5] linked_send [OF x5] linked_upd [of "said ?i [?hb] s5" h ?x5] x5
    by (simp add: startHeartbeat_def asyncSendPing_def s6_def)
  have s6: "fl_sessions (fs_flint s6) = sm2" "fl_apps (fs_flint s6) = am'" "fs_listener s6 = Some h"
    "map_find (fs_handlers s6) h = Some ?x6"
    "wn_out (fs_net s6) = wn_out (fs_net s) @ map (WsSend ?i) (told @ [?reg, ?hb])"
    using x by (simp_all add: s6_def s5_def s4_def s3_def s2_def s1_def linked_def map_find_set)
  obtain sm7 where t: "touch_receiver text (rh_appId x) s6 = Inr (put_sessions sm7 s6)"
      "sp_receiver (session_abs sm7) = Some (rh_appId x, 10)"
    by (rule touch_registered [of uuid s6 "rh_appId x" 10 "text"]) (use ok(2) sm2 s6(1) in simp_all)
  have "rh_register uuid dev parse text h (rh_appId x) p s = Inr (put_sessions sm7 s6)"
    using a l c st reg ip hb t by (simp add: rh_register_def)
  then show ?thesis
    using s6 am'(2) t(2) by (simp add: told_def known_senders_def comp_def)
qed


text \<open>
  C33. Every well-formed heartbeat message of the application that is alive fails: the handler reads
  the string from the document, which is an object, and not from its member.
\<close>

theorem heartbeat_message_fails:
  assumes "parse (cstr msg) = JObj ms" and "lookup_member ms ''appid'' = JStr appId" and "cstr appId = rh_appId x"
    and "lookup_member ms ''type'' = JStr type" and "iequals (cstr type) ''heartbeat''" and "lookup_member ms ''heartbeat'' \<noteq> JNull"
    and "map_find (fs_handlers s) h = Some x" and "getAliveApplication (fl_apps (fs_flint s)) = Some p"
    and "map_find (am_heap (fl_apps (fs_flint s))) p = Some a" and "ap_appId a = rh_appId x"
    and "touch_receiver text (rh_appId x) s = Inr s1"
  shows "rh_onMessage uuid dev parse text h msg s = Inl BadJson"
proof -
  have n: "\<not> iequals (cstr type) t" if "\<not> iequals ''heartbeat'' t" for t
    using assms(5) that iequals_sym iequals_trans by blast
  have "\<not> iequals ''heartbeat'' ''register''" "\<not> iequals ''heartbeat'' ''unregister''" "\<not> iequals ''heartbeat'' ''additionaldata''"
    by (simp_all add: iequals_def)
  from this [THEN n] show ?thesis
    using assms by (simp add: rh_onMessage_def Let_def get_handler_def rh_heartbeat_def js_string_def)
qed

section \<open>An example\<close>

definition tv_app :: app where
  "tv_app = (new_Application ''~tv'' [] True 0 [])\<lparr>ap_appState := ''starting'', ap_startTimer := True, ap_connected := True\<rparr>"

definition tv_handler :: receiver_handler where
  "tv_handler = \<lparr>rh_appId = ''~tv'', rh_session = 5, rh_ppTimer = False, rh_ipTimer = False, rh_cacheIp = []\<rparr>"

definition tv_server :: flint_server where
  "tv_server =
     \<lparr>fs_flint = \<lparr>fl_apps = init_manager\<lparr>am_heap := [(0, tv_app)], am_next := 1, am_starting := Some 0\<rparr>,
        fl_sessions = init_sessions, fl_reply = no_response\<rparr>,
      fs_platform = new_PlatformFfos [], fs_net = \<lparr>wn_sessions = [(5, \<lparr>wss_closing = False, wss_handlers = [0]\<rparr>)], wn_out = []\<rparr>,
      fs_handlers = [(0, tv_handler)], fs_next = 1, fs_listener = None, fs_ip = ''ip''\<rparr>"

definition tv_message :: "string \<Rightarrow> json" where
  "tv_message t = JObj [(''appid'', JStr ''~tv''), (''type'', JStr t), (''heartbeat'', JStr ''ping'')]"

lemma tv_am_inv: "am_inv (fl_apps (fs_flint tv_server))" "am_abs (fl_apps (fs_flint tv_server)) = (Starting ''~tv'', [])"
  by (auto simp: tv_server_def tv_app_def init_manager_def new_Application_def am_inv_def current_ok_def am_abs_def appId_of_def)

lemma init_quiet: "sm_receiver init_sessions = None" "sm_calls init_sessions = []"
  by (simp_all add: init_sessions_def)


theorem heartbeat_message_fails_witness:
  "rh_onMessage (\<lambda>n. replicate n CHR ''u'') ''dev'' (\<lambda>_. tv_message ''heartbeat'') (\<lambda>_. ''{}'') 0 ''m'' tv_server = Inl BadJson"
  by (rule heartbeat_message_fails [where ms = "[(''appid'', JStr ''~tv''), (''type'', JStr ''heartbeat''), (''heartbeat'', JStr ''ping'')]"
        and appId = "''~tv''" and type = "''heartbeat''" and x = tv_handler and p = 0 and a = tv_app and ?s1.0 = tv_server])
    (simp_all add: tv_message_def tv_server_def tv_handler_def tv_app_def new_Application_def cstr_def getAliveApplication_def
       init_manager_def touch_unregistered init_sessions_def)

end
