(* ===== verification/SSDP.thy ===== *)
theory SSDP
  imports AppControl
begin

text \<open>
  \<open>SSDPServer\<close> (flint/src/discovery/ssdp): the daemon answers the multicast searches of DIAL clients
  with a pointer to its device description, and advertises it every three seconds. \<open>ip\<close> is the
  address of the network manager, \<open>date\<close> the time as \<open>strftime\<close> prints it, \<open>dev\<close> the UUID of the
  device; what is sent is recorded in order.
\<close>

section \<open>State and texts\<close>

definition CRLF :: string where "CRLF = [CHR 0x0D, CHR 0x0A]"

definition FLINT_SEARCH_TARGET :: string where "FLINT_SEARCH_TARGET = ''urn:dial-multiscreen-org:service:dial:1''"
definition FLINT_HTTP_DESCRIPTOR :: string where "FLINT_HTTP_DESCRIPTOR = ''ssdp/device-desc.xml''"
definition FLINT_HTTP_PORT :: nat where "FLINT_HTTP_PORT = 9431"
definition FLINT_SSDP_ADDRESS :: string where "FLINT_SSDP_ADDRESS = ''239.255.255.250''"
definition FLINT_SSDP_PORT :: nat where "FLINT_SSDP_PORT = 1900"
definition FLINT_SSDP_TTL :: nat where "FLINT_SSDP_TTL = 1800"

record ssdp_server =
  ss_usn :: string
  ss_open :: bool
  ss_timer :: bool
  ss_sent :: "((string \<times> nat) \<times> string) list"

definition new_SSDPServer :: "string \<Rightarrow> ssdp_server" where
  "new_SSDPServer dev =
     \<lparr>ss_usn = ''uuid:'' @ dev @ ''::'' @ FLINT_SEARCH_TARGET, ss_open = False, ss_timer = False, ss_sent = []\<rparr>"

definition join_location :: "string \<Rightarrow> string" where
  "join_location ip = concat [''http://'', ip, '':'', show_nat FLINT_HTTP_PORT, ''/'', FLINT_HTTP_DESCRIPTOR]"

definition join_message :: "string \<Rightarrow> string \<Rightarrow> string \<Rightarrow> bool \<Rightarrow> string" where
  "join_message usn date ip advertise = concat
     ((if advertise then
         [''NOTIFY * HTTP/1.1'', CRLF,
          ''HOST: '', FLINT_SSDP_ADDRESS, '':'', show_nat FLINT_SSDP_PORT, CRLF,
          ''NT: '', FLINT_SEARCH_TARGET, CRLF,
          ''NTS: ssdp:alive'', CRLF]
       else
         [''HTTP/1.1 200 OK'', CRLF,
          ''ST: '', FLINT_SEARCH_TARGET, CRLF]) @
      [''USN: '', usn, CRLF,
       ''LOCATION: '', join_location ip, CRLF,
       ''CACHE-CONTROL: max-age='', show_nat FLINT_SSDP_TTL, CRLF,
       ''SERVER: '', ''Linux/3.8.13+, UPnP/1.0, Portable SDK for UPnP devices/1.6.18'', CRLF,
       ''DATE: '', date, CRLF,
       ''BOOTID.UPNP.ORG: 9'', CRLF,
       ''CONFIGID.UPNP.ORG: 1'', CRLF,
       ''OPT: '', QUOTE, ''http://schemas.upnp.org/upnp/1/0/'', QUOTE, ''; ns=01'', CRLF,
       ''X-USER-AGENT: redsonic'', CRLF,
       ''EXT:'', CRLF,
       CRLF])"

section \<open>Reading a search\<close>

text \<open>\<open>split_regex\<close> at the two characters of a line end.\<close>

fun split_crlf :: "string \<Rightarrow> string list" where
  "split_crlf [] = [[]]"
| "split_crlf [c] = [[c]]"
| "split_crlf (c # d # cs) =
     (if [c, d] = CRLF then [] # split_crlf cs
      else (case split_crlf (d # cs) of [] \<Rightarrow> [[c]] | w # ws \<Rightarrow> (c # w) # ws))"

definition trim_if :: "(char \<Rightarrow> bool) \<Rightarrow> string \<Rightarrow> string" where
  "trim_if P s = rev (dropWhile P (rev (dropWhile P s)))"

definition header_line :: "string \<Rightarrow> (string, string) std_map \<Rightarrow> (string, string) std_map" where
  "header_line line vars =
     (if line = [] then vars
      else
        let parts = split_on (CHR '':'') (trim_if isspace line)
        in if 2 \<le> length parts then
             map_insert (hd parts) (trim_if (\<lambda>c. c = CHR '' '' \<or> c = CHR 0x22) (join_on '':'' (tl parts))) vars
           else vars)"

definition search_vars :: "string \<Rightarrow> (string, string) std_map" where
  "search_vars message = foldl (\<lambda>vars line. header_line line vars) [] (tl (split_crlf message))"

definition search_wanted :: "(string, string) std_map \<Rightarrow> bool" where
  "search_wanted vars =
     (case (map_find vars ''MAN'', map_find vars ''MX'', map_find vars ''ST'') of
        (Some man, Some _, Some st) \<Rightarrow> man = ''ssdp:all'' \<or> (man = ''ssdp:discover'' \<and> st = FLINT_SEARCH_TARGET)
      | _ \<Rightarrow> False)"

definition ssdp_onSearch :: "string \<Rightarrow> string \<Rightarrow> string \<times> nat \<Rightarrow> string \<Rightarrow> ssdp_server \<Rightarrow> ssdp_server" where
  "ssdp_onSearch ip date client message s =
     (if search_wanted (search_vars message) \<and> \<not> iequals ip [] then
        s\<lparr>ss_sent := ss_sent s @ [(client, join_message (ss_usn s) date ip False)]\<rparr>
      else s)"

definition ssdp_parseMessage :: "string \<Rightarrow> string \<Rightarrow> string \<times> nat \<Rightarrow> string \<Rightarrow> ssdp_server \<Rightarrow> ssdp_server" where
  "ssdp_parseMessage ip date client message s =
     (if starts_with message ''M-SEARCH'' then ssdp_onSearch ip date client message s else s)"

definition ssdp_handle_packet :: "string \<Rightarrow> string \<Rightarrow> string \<times> nat \<Rightarrow> string \<Rightarrow> ssdp_server \<Rightarrow> ssdp_server" where
  "ssdp_handle_packet ip date client message s =
     (if ss_open s \<and> message \<noteq> [] then ssdp_parseMessage ip date client message s else s)"

section \<open>Advertising\<close>

definition ssdp_advertise :: "ssdp_server \<Rightarrow> ssdp_server" where
  "ssdp_advertise s = s\<lparr>ss_timer := True\<rparr>"

definition handle_advertise :: "string \<Rightarrow> string \<Rightarrow> ssdp_server \<Rightarrow> ssdp_server" where
  "handle_advertise ip date s =
     ssdp_advertise (if \<not> iequals ip [] then
         s\<lparr>ss_sent := ss_sent s @ [((FLINT_SSDP_ADDRESS, FLINT_SSDP_PORT), join_message (ss_usn s) date ip True)]\<rparr>
       else s)"

definition ssdp_onStart :: "ssdp_server \<Rightarrow> ssdp_server" where
  "ssdp_onStart s = ssdp_advertise (s\<lparr>ss_open := True\<rparr>)"

definition ssdp_onStop :: "ssdp_server \<Rightarrow> ssdp_server" where
  "ssdp_onStop s = s\<lparr>ss_open := False, ss_timer := False\<rparr>"

section \<open>What a search is read as\<close>

text \<open>A header of a search: its name, and its value without the blanks and quotes around it.\<close>

definition header_ok :: "string \<times> string \<Rightarrow> bool" where
  "header_ok h \<longleftrightarrow>
     (fst h \<noteq> [] \<and> (\<forall>c \<in> set (fst h). \<not> isspace c \<and> c \<noteq> CHR '':'')) \<and>
     (snd h \<noteq> [] \<and> (\<forall>c \<in> {hd (snd h), last (snd h)}. \<not> isspace c \<and> c \<noteq> CHR '' '' \<and> c \<noteq> CHR 0x22) \<and>
      (\<forall>c \<in> set (snd h). c \<noteq> CHR 0x0D \<and> c \<noteq> CHR 0x0A))"

definition search_text :: "string \<Rightarrow> (string \<times> string) list \<Rightarrow> string" where
  "search_text command hs = command @ CRLF @ concat (map (\<lambda>h. fst h @ '': '' @ snd h @ CRLF) hs) @ CRLF"

definition no_crlf :: "string \<Rightarrow> bool" where
  "no_crlf s \<longleftrightarrow> CHR 0x0D \<notin> set s"

lemma split_crlf_not_Nil [simp]: "split_crlf s \<noteq> []"
  by (induction s rule: split_crlf.induct) (auto split: list.splits)

lemma split_crlf_line: "no_crlf s \<Longrightarrow> split_crlf (s @ CRLF @ t) = s # split_crlf t"
proof (induction s)
  case Nil
  then show ?case by (simp add: CRLF_def)
next
  case (Cons c s)
  then have c: "c \<noteq> CHR 0x0D" "no_crlf s" by (auto simp: no_crlf_def)
  obtain d ds where d: "s @ CRLF @ t = d # ds" by (cases "s @ CRLF @ t") (auto simp: CRLF_def)
  have "split_crlf (d # ds) = s # split_crlf t" using Cons.IH [OF c(2)] unfolding d .
  moreover have "[c, d] \<noteq> CRLF" using c(1) by (simp add: CRLF_def)
  ultimately have "split_crlf (c # d # ds) = (c # s) # split_crlf t" by simp
  then show ?case using d by simp
qed

lemma split_search:
  assumes "no_crlf command" and "\<forall>h \<in> set hs. no_crlf (fst h @ '': '' @ snd h)"
  shows "split_crlf (search_text command hs) = command # map (\<lambda>h. fst h @ '': '' @ snd h) hs @ [[], []]"
proof -
  have l: "split_crlf (concat (map (\<lambda>h. fst h @ '': '' @ snd h @ CRLF) hs) @ CRLF) = map (\<lambda>h. fst h @ '': '' @ snd h) hs @ [[], []]"
    using assms(2)
  proof (induction hs)
    case Nil
    then show ?case by (simp add: CRLF_def)
  next
    case (Cons h hs)
    then have "split_crlf ((fst h @ '': '' @ snd h) @ CRLF @ concat (map (\<lambda>h. fst h @ '': '' @ snd h @ CRLF) hs) @ CRLF)
        = (fst h @ '': '' @ snd h) # map (\<lambda>h. fst h @ '': '' @ snd h) hs @ [[], []]"
      using split_crlf_line [of "fst h @ '': '' @ snd h"] by simp
    then show ?case by simp
  qed
  show ?thesis unfolding search_text_def split_crlf_line [OF assms(1)] l by simp
qed

lemma trim_if_id: "s \<noteq> [] \<Longrightarrow> \<not> P (hd s) \<Longrightarrow> \<not> P (last s) \<Longrightarrow> trim_if P s = s"
proof -
  assume s: "s \<noteq> []" "\<not> P (hd s)" "\<not> P (last s)"
  then have "dropWhile P s = s" by (cases s) auto
  moreover have "rev s \<noteq> []" "hd (rev s) = last s" using s(1) by (simp_all add: hd_rev)
  then have "dropWhile P (rev s) = rev s" using s(3) by (metis dropWhile.simps(2) list.exhaust_sel)
  ultimately show ?thesis by (simp add: trim_if_def)
qed

lemma trim_value: "v \<noteq> [] \<Longrightarrow> P (CHR '' '') \<Longrightarrow> \<not> P (hd v) \<Longrightarrow> \<not> P (last v) \<Longrightarrow> trim_if P ('' '' @ v) = v"
  using trim_if_id [of v P] by (simp add: trim_if_def)

lemma header_line_ok:
  assumes h: "header_ok h"
  shows "header_line (fst h @ '': '' @ snd h) vars = map_insert (fst h) (snd h) vars"
proof -
  let ?l = "fst h @ '': '' @ snd h"
  have k: "fst h \<noteq> []" "\<forall>c \<in> set (fst h). \<not> isspace c \<and> c \<noteq> CHR '':''" and v: "snd h \<noteq> []"
    and e: "\<not> isspace (last (snd h))" and q: "hd (snd h) \<noteq> CHR '' '' \<and> hd (snd h) \<noteq> CHR 0x22" "last (snd h) \<noteq> CHR '' '' \<and> last (snd h) \<noteq> CHR 0x22"
    using h by (simp_all add: header_ok_def)
  have "hd (fst h) \<in> set (fst h)" using k(1) by simp
  then have "\<not> isspace (hd ?l)" "\<not> isspace (last ?l)" using k v e by (simp_all add: hd_append)
  then have "trim_if isspace ?l = ?l" using k(1) by (intro trim_if_id) simp_all
  moreover have "split_on (CHR '':'') (fst h @ CHR '':'' # '' '' @ snd h) = fst h # split_on (CHR '':'') ('' '' @ snd h)"
    using k(2) by (intro split_on_append) auto
  moreover have "trim_if (\<lambda>c. c = CHR '' '' \<or> c = CHR 0x22) ('' '' @ snd h) = snd h"
    using v q by (intro trim_value) simp_all
  moreover have "1 \<le> length (split_on (CHR '':'') ('' '' @ snd h))"
    using split_on_not_Nil by (metis One_nat_def Suc_leI length_greater_0_conv)
  ultimately show ?thesis
    using k(1) by (simp add: header_line_def Let_def del: split_on.simps)
qed

lemma header_line_Nil [simp]: "header_line [] vars = vars"
  by (simp add: header_line_def)

lemma search_vars_text:
  assumes "no_crlf command" and "\<forall>h \<in> set hs. header_ok h"
  shows "search_vars (search_text command hs) = foldl (\<lambda>vars h. map_insert (fst h) (snd h) vars) [] hs"
proof -
  have "no_crlf (fst h @ '': '' @ snd h)" if "h \<in> set hs" for h
  proof -
    have ok: "header_ok h" using assms(2) that by blast
    have "isspace (CHR 0x0D)" by (simp add: isspace_def)
    then have "CHR 0x0D \<notin> set (fst h)" using ok by (auto simp: header_ok_def)
    moreover have "CHR 0x0D \<notin> set (snd h)" using ok by (auto simp: header_ok_def)
    ultimately show ?thesis by (auto simp: no_crlf_def)
  qed
  then have "split_crlf (search_text command hs) = command # map (\<lambda>h. fst h @ '': '' @ snd h) hs @ [[], []]"
    by (intro split_search) (use assms(1) in simp_all)
  moreover have "foldl (\<lambda>vars line. header_line line vars) m (map (\<lambda>h. fst h @ '': '' @ snd h) hs)
      = foldl (\<lambda>vars h. map_insert (fst h) (snd h) vars) m hs" for m
    using assms(2) by (induction hs arbitrary: m) (simp_all add: header_line_ok [unfolded append_Cons append_Nil])
  ultimately show ?thesis by (simp add: search_vars_def)
qed

lemma find_foldl_insert:
  "map_wf m \<Longrightarrow> map_find (foldl (\<lambda>vars h. map_insert (fst h) (snd h) vars) m hs) k
     = (case map_find m k of None \<Rightarrow> map_of hs k | Some v \<Rightarrow> Some v)"
  by (induction hs arbitrary: m) (auto simp: map_find_insert split: option.splits)



end
