(* ===== verification/Daemon.thy ===== *)
theory Daemon
  imports Prelude
begin

text \<open>
  The life of the daemon: \<open>IServer\<close> (flint/src/comm/IServer.cpp), \<open>FlintDaemon\<close>
  (flint/src/FlintDaemon.cpp) and \<open>FlintDiscovery\<close> (flint/src/discovery/FlintDiscovery.cpp). The
  daemon owns an \<open>io_service\<close> and four servers, one of which owns two more; it makes and starts them
  in order, and when one of them cannot start it stops and deletes everything again.

  The objects are the parts of the daemon: a part is absent (a null pointer) or present with its
  flag \<open>isRunning_\<close>. What is done to the objects is recorded in order. \<open>fails\<close> says which server
  throws when it is started, \<open>plat\<close> whether the platform can be initialised; \<open>io_service::run\<close>
  returns when the daemon has been stopped.
\<close>

section \<open>State\<close>

datatype part = Io | FlintSrv | WsSrv | PeerSrv | Discovery | Ssdp | Mdns

datatype error_code = NONE_ERROR | FLINTSERVER_ERROR | WEBSOCKETSERVER_ERROR | FLINTDISCOVERY_ERROR | PEERSERVER_ERROR

datatype life = New part | Start part | Stop part | Delete part | PlatformInit | PlatformReset | RunIo

record daemon =
  dm_running :: bool
  dm_error :: error_code
  dm_parts :: "part \<Rightarrow> bool option"
  dm_log :: "life list"

definition new_FlintDaemon :: daemon where
  "new_FlintDaemon = \<lparr>dm_running = False, dm_error = NONE_ERROR, dm_parts = (\<lambda>_. None), dm_log = []\<rparr>"

definition did :: "life \<Rightarrow> daemon \<Rightarrow> daemon" where
  "did l d = d\<lparr>dm_log := dm_log d @ [l]\<rparr>"

definition put_part :: "part \<Rightarrow> bool option \<Rightarrow> daemon \<Rightarrow> daemon" where
  "put_part p r d = d\<lparr>dm_parts := (dm_parts d)(p := r)\<rparr>"

section \<open>Making and deleting\<close>

definition delete_plain :: "part \<Rightarrow> daemon \<Rightarrow> daemon" where
  "delete_plain p d = (if dm_parts d p = None then d else put_part p None (did (Delete p) d))"

text \<open>The destructor of \<open>FlintDiscovery\<close> deletes its servers; \<open>io_service\<close> and the others own nothing here.\<close>

definition delete_part :: "part \<Rightarrow> daemon \<Rightarrow> daemon" where
  "delete_part p d =
     delete_plain p (if p = Discovery \<and> dm_parts d p \<noteq> None then delete_plain Mdns (delete_plain Ssdp d) else d)"

definition renew :: "part \<Rightarrow> daemon \<Rightarrow> daemon" where
  "renew p d = put_part p (Some False) (did (New p) (delete_part p d))"

section \<open>IServer\<close>

definition start_server :: "(daemon \<Rightarrow> bool \<times> daemon) \<Rightarrow> part \<Rightarrow> daemon \<Rightarrow> bool \<times> daemon" where
  "start_server onStart p d =
     (if dm_parts d p = Some True then (True, d) else onStart (put_part p (Some True) (did (Start p) d)))"

definition stop_server :: "(daemon \<Rightarrow> daemon) \<Rightarrow> part \<Rightarrow> daemon \<Rightarrow> daemon" where
  "stop_server onStop p d =
     (if dm_parts d p = Some True then onStop (put_part p (Some False) (did (Stop p) d)) else d)"

section \<open>FlintDiscovery\<close>

definition discovery_onStart :: "(part \<Rightarrow> bool) \<Rightarrow> daemon \<Rightarrow> bool \<times> daemon" where
  "discovery_onStart fails d =
     (let (ok, d1) = start_server (\<lambda>d. (\<not> fails Ssdp, d)) Ssdp (renew Ssdp d)
      in if ok then start_server (\<lambda>d. (\<not> fails Mdns, d)) Mdns (renew Mdns d1) else (False, d1))"

definition release_plain :: "part \<Rightarrow> daemon \<Rightarrow> daemon" where
  "release_plain p d = (if dm_parts d p = None then d else delete_plain p (stop_server (\<lambda>d. d) p d))"

definition discovery_onStop :: "daemon \<Rightarrow> daemon" where
  "discovery_onStop d = release_plain Mdns (release_plain Ssdp d)"

section \<open>FlintDaemon\<close>

definition start_part :: "(part \<Rightarrow> bool) \<Rightarrow> part \<Rightarrow> daemon \<Rightarrow> bool \<times> daemon" where
  "start_part fails p d =
     start_server (if p = Discovery then discovery_onStart fails else (\<lambda>d. (\<not> fails p, d))) p d"

definition try_start :: "(part \<Rightarrow> bool) \<Rightarrow> part \<Rightarrow> error_code \<Rightarrow> daemon \<Rightarrow> daemon" where
  "try_start fails p code d =
     (if dm_error d = NONE_ERROR then
        let (ok, d1) = start_part fails p d in if ok then d1 else d1\<lparr>dm_error := code\<rparr>
      else d)"

definition release_server :: "part \<Rightarrow> daemon \<Rightarrow> daemon" where
  "release_server p d =
     (if dm_parts d p = None then d
      else delete_part p (stop_server (if p = Discovery then discovery_onStop else (\<lambda>d. d)) p d))"

definition release_io :: "daemon \<Rightarrow> daemon" where
  "release_io d = (if dm_parts d Io = None then d else delete_part Io (did (Stop Io) d))"

definition clear :: "daemon \<Rightarrow> daemon" where
  "clear d =
     release_io (did PlatformReset (release_server PeerSrv (release_server WsSrv (release_server FlintSrv (release_server Discovery d)))))"

definition daemon_stop :: "daemon \<Rightarrow> daemon" where
  "daemon_stop d = (if \<not> dm_running d then d else clear (d\<lparr>dm_running := False\<rparr>))"

definition make_parts :: "daemon \<Rightarrow> daemon" where
  "make_parts d = renew Discovery (renew PeerSrv (renew WsSrv (renew FlintSrv (renew Io d))))"

definition start_parts :: "(part \<Rightarrow> bool) \<Rightarrow> daemon \<Rightarrow> daemon" where
  "start_parts fails d =
     try_start fails PeerSrv PEERSERVER_ERROR
     (try_start fails Discovery FLINTDISCOVERY_ERROR
     (try_start fails WsSrv WEBSOCKETSERVER_ERROR
     (try_start fails FlintSrv FLINTSERVER_ERROR d)))"

text \<open>An exception of the platform is not caught; the daemon is left as it is then.\<close>

definition daemon_onStart :: "(part \<Rightarrow> bool) \<Rightarrow> bool \<Rightarrow> daemon \<Rightarrow> daemon" where
  "daemon_onStart fails plat d =
     (let d1 = start_parts fails (make_parts (d\<lparr>dm_error := NONE_ERROR\<rparr>));
          d2 = did PlatformInit d1
      in if \<not> plat then d2
         else if dm_error d2 = NONE_ERROR then did RunIo d2
         else daemon_stop d2)"

definition daemon_start :: "(part \<Rightarrow> bool) \<Rightarrow> bool \<Rightarrow> daemon \<Rightarrow> daemon" where
  "daemon_start fails plat d = (if dm_running d then d else daemon_onStart fails plat (d\<lparr>dm_running := True\<rparr>))"

text \<open>The calls of the program around it; \<open>DaemonEnd\<close> is the destructor.\<close>

datatype daemon_call = DaemonStart "part \<Rightarrow> bool" bool | DaemonStop | DaemonEnd

fun daemon_step :: "daemon \<Rightarrow> daemon_call \<Rightarrow> daemon" where
  "daemon_step d (DaemonStart fails plat) = daemon_start fails plat d"
| "daemon_step d DaemonStop = daemon_stop d"
| "daemon_step d DaemonEnd = clear d"

section \<open>A sound life\<close>

text \<open>
  What may happen to the objects: everything is made on a live \<open>io_service\<close>, used and deleted only while
  it is alive, and the \<open>io_service\<close> goes last. The result is the set of the objects that are left.
\<close>

definition live_step :: "life \<Rightarrow> part set \<Rightarrow> part set option" where
  "live_step l live =
     (case l of
        New p \<Rightarrow> if p \<notin> live \<and> (p = Io \<or> Io \<in> live) then Some (insert p live) else None
      | Start p \<Rightarrow> if p \<in> live \<and> Io \<in> live then Some live else None
      | Stop p \<Rightarrow> if p \<in> live \<and> Io \<in> live then Some live else None
      | Delete p \<Rightarrow> if p \<in> live \<and> Io \<in> live \<and> (p = Io \<longrightarrow> live = {Io}) then Some (live - {p}) else None
      | PlatformInit \<Rightarrow> if Io \<in> live then Some live else None
      | RunIo \<Rightarrow> if Io \<in> live then Some live else None
      | PlatformReset \<Rightarrow> Some live)"

fun live_after :: "life list \<Rightarrow> part set \<Rightarrow> part set option" where
  "live_after [] live = Some live"
| "live_after (l # ls) live = (case live_step l live of None \<Rightarrow> None | Some live' \<Rightarrow> live_after ls live')"

lemma live_after_snoc: "live_after (ls @ [l]) live = Option.bind (live_after ls live) (live_step l)"
  by (induction ls arbitrary: live) (auto split: option.splits)

definition present :: "daemon \<Rightarrow> part set" where
  "present d = {p. dm_parts d p \<noteq> None}"

definition sound :: "daemon \<Rightarrow> bool" where
  "sound d \<longleftrightarrow> live_after (dm_log d) {} = Some (present d)"

lemma present_put [simp]:
  "present (put_part p (Some r) d) = insert p (present d)" "present (put_part p None d) = present d - {p}"
  by (auto simp: present_def put_part_def)

lemma daemon_fields [simp]:
  "dm_parts (did l d) = dm_parts d" "dm_running (did l d) = dm_running d" "dm_error (did l d) = dm_error d"
  "dm_running (put_part p r d) = dm_running d" "dm_error (put_part p r d) = dm_error d"
  "dm_parts (put_part p r d) = (dm_parts d)(p := r)" "dm_log (put_part p r d) = dm_log d" "dm_log (did l d) = dm_log d @ [l]"
  by (simp_all add: did_def put_part_def)

lemma present_did [simp]: "present (did l d) = present d"
  by (simp add: present_def)

lemma present_iff: "dm_parts d p = None \<longleftrightarrow> p \<notin> present d"
  by (simp add: present_def)

lemma sound_did: "sound d \<Longrightarrow> live_step l (present d) = Some (present e) \<Longrightarrow> dm_log e = dm_log d @ [l] \<Longrightarrow> sound e"
  by (simp add: sound_def live_after_snoc)

section \<open>Every operation keeps the life sound\<close>

text \<open>What the operations rely on: the \<open>io_service\<close> is there when anything is, and so is the discovery when its servers are.\<close>

definition owned :: "part set \<Rightarrow> bool" where
  "owned P \<longleftrightarrow> (P \<noteq> {} \<longrightarrow> Io \<in> P) \<and> (Ssdp \<in> P \<or> Mdns \<in> P \<longrightarrow> Discovery \<in> P)"

definition becomes :: "daemon \<Rightarrow> part set \<Rightarrow> bool" where
  "becomes d P \<longleftrightarrow> sound d \<and> present d = P"

lemma becomes_put_same: "becomes d P \<Longrightarrow> p \<in> P \<Longrightarrow> becomes (put_part p (Some r) d) P"
  by (auto simp: becomes_def sound_def)

lemma becomes_did:
  "becomes d P \<Longrightarrow> live_step l P = Some P \<Longrightarrow> becomes (did l d) P"
  by (auto simp: becomes_def sound_def live_after_snoc)

lemma becomes_deleted:
  "becomes d P \<Longrightarrow> p \<in> P \<Longrightarrow> Io \<in> P \<Longrightarrow> p = Io \<longrightarrow> P = {Io} \<Longrightarrow> becomes (put_part p None (did (Delete p) d)) (P - {p})"
  by (auto simp: becomes_def sound_def live_after_snoc live_step_def)

lemma becomes_made:
  "becomes d P \<Longrightarrow> p \<notin> P \<Longrightarrow> p = Io \<or> Io \<in> P \<Longrightarrow> becomes (put_part p (Some False) (did (New p) d)) (insert p P)"
  by (auto simp: becomes_def sound_def live_after_snoc live_step_def)

lemma becomes_None: "becomes d P \<Longrightarrow> dm_parts d p = None \<longleftrightarrow> p \<notin> P"
  by (simp add: becomes_def present_iff)

lemma deleted_plain: "becomes d P \<Longrightarrow> p \<noteq> Io \<Longrightarrow> Io \<in> P \<Longrightarrow> becomes (delete_plain p d) (P - {p})"
  using becomes_deleted [of d P p] by (auto simp: delete_plain_def becomes_None)

lemma deleted_part:
  assumes d: "becomes d P" and p: "p \<noteq> Io" and o: "owned P"
  shows "becomes (delete_part p d) (P - (if p = Discovery then {Discovery, Ssdp, Mdns} else {p}))"
proof (cases "p \<in> P")
  case False
  then have "delete_part p d = d" using becomes_None [OF d] by (simp add: delete_part_def delete_plain_def)
  moreover have "P - (if p = Discovery then {Discovery, Ssdp, Mdns} else {p}) = P" using False o by (auto simp: owned_def)
  ultimately show ?thesis using d by simp
next
  case True
  then have io: "Io \<in> P" using o by (auto simp: owned_def)
  have 1: "becomes (delete_plain Mdns (delete_plain Ssdp d)) (P - {Ssdp} - {Mdns})"
    using deleted_plain [OF deleted_plain [OF d, of Ssdp], of Mdns] io by simp
  have "becomes (delete_plain Discovery (delete_plain Mdns (delete_plain Ssdp d))) (P - {Ssdp} - {Mdns} - {Discovery})"
    using deleted_plain [OF 1, of Discovery] io by simp
  moreover have "P - {Ssdp} - {Mdns} - {Discovery} = P - {Discovery, Ssdp, Mdns}" by auto
  ultimately show ?thesis
    using True becomes_None [OF d] deleted_plain [OF d p io] by (simp add: delete_part_def)
qed

lemma renewed_fresh: "becomes d P \<Longrightarrow> p \<notin> P \<Longrightarrow> p = Io \<or> Io \<in> P \<Longrightarrow> becomes (renew p d) (insert p P)"
  using becomes_made [of d P p] by (simp add: renew_def delete_part_def delete_plain_def becomes_None)

lemma started_ok:
  assumes "becomes d P" and "p \<in> P" and "Io \<in> P" and "\<And>e. becomes e P \<Longrightarrow> \<exists>Q. becomes (snd (f e)) Q \<and> ok Q" and "ok P"
  shows "\<exists>Q. becomes (snd (start_server f p d)) Q \<and> ok Q"
proof -
  have "becomes (put_part p (Some True) (did (Start p) d)) P"
    using assms(1-3) by (intro becomes_put_same becomes_did) (simp_all add: live_step_def)
  with assms show ?thesis by (auto simp: start_server_def)
qed

lemma stopped_ok:
  assumes "becomes d P" and "p \<in> P" and "Io \<in> P" and "\<And>e. becomes e P \<Longrightarrow> becomes (f e) Q" and "dm_parts d p \<noteq> Some True \<Longrightarrow> becomes d Q"
  shows "becomes (stop_server f p d) Q"
proof -
  have "becomes (put_part p (Some False) (did (Stop p) d)) P"
    using assms(1-3) by (intro becomes_put_same becomes_did) (simp_all add: live_step_def)
  with assms show ?thesis by (auto simp: stop_server_def)
qed

lemma released_plain:
  assumes d: "becomes d P" and p: "p \<noteq> Io" and io: "Io \<in> P"
  shows "becomes (release_plain p d) (P - {p})"
proof (cases "p \<in> P")
  case True
  have "becomes (stop_server (\<lambda>d. d) p d) P" by (rule stopped_ok [OF d True io]) (use d in auto)
  then have "becomes (delete_plain p (stop_server (\<lambda>d. d) p d)) (P - {p})" using p io by (rule deleted_plain)
  with True show ?thesis using becomes_None [OF d] by (simp add: release_plain_def)
qed (use d becomes_None [OF d] in \<open>simp add: release_plain_def\<close>)

lemma discovery_stopped:
  assumes d: "becomes d P" and io: "Io \<in> P"
  shows "becomes (discovery_onStop d) (P - {Ssdp, Mdns})"
proof -
  have "P - {Ssdp} - {Mdns} = P - {Ssdp, Mdns}" by auto
  then show ?thesis
    unfolding discovery_onStop_def using released_plain [OF released_plain [OF d, of Ssdp], of Mdns] io by simp
qed

text \<open>Releasing a server leaves the others, whether it was running or not.\<close>

lemma released:
  assumes d: "becomes d P" and p: "p \<notin> {Io, Ssdp, Mdns}" and o: "owned P"
  shows "becomes (release_server p d) (P - (if p = Discovery then {Discovery, Ssdp, Mdns} else {p}))"
proof (cases "p \<in> P")
  case False
  then have "P - (if p = Discovery then {Discovery, Ssdp, Mdns} else {p}) = P" using o by (auto simp: owned_def)
  with False d show ?thesis using becomes_None [OF d] by (simp add: release_server_def)
next
  case True
  then have io: "Io \<in> P" using o by (auto simp: owned_def)
  let ?e = "stop_server (if p = Discovery then discovery_onStop else (\<lambda>d. d)) p d"
  obtain Q where Q: "becomes ?e Q" "owned Q" "Q - (if p = Discovery then {Discovery, Ssdp, Mdns} else {p}) = P - (if p = Discovery then {Discovery, Ssdp, Mdns} else {p})"
  proof (cases "p = Discovery \<and> dm_parts d p = Some True")
    case True
    have o': "owned (P - {Ssdp, Mdns})" using io o by (auto simp: owned_def)
    have "becomes (stop_server discovery_onStop Discovery d) (P - {Ssdp, Mdns})"
      by (rule stopped_ok [OF d _ io]) (use \<open>p \<in> P\<close> True io in \<open>auto intro: discovery_stopped\<close>)
    with True have "becomes ?e (P - {Ssdp, Mdns})" by simp
    then show ?thesis using o' by (rule that) (use True in auto)
  next
    case False
    have "becomes ?e P"
    proof (cases "p = Discovery")
      case True
      with False d show ?thesis by (simp add: stop_server_def)
    next
      case False
      have "becomes (stop_server (\<lambda>d. d) p d) P" by (rule stopped_ok [OF d \<open>p \<in> P\<close> io]) (use d in auto)
      with False show ?thesis by simp
    qed
    then show ?thesis using o by (rule that) simp
  qed
  from deleted_part [OF Q(1) _ Q(2), of p] p Q(3) True show ?thesis
    using becomes_None [OF d] by (simp add: release_server_def)
qed

lemma cleared_all:
  assumes d: "becomes d P" and o: "owned P"
  shows "becomes (clear d) {}"
proof -
  let ?D = "{Discovery, Ssdp, Mdns}"
  have 1: "becomes (release_server Discovery d) (P - ?D)" using released [OF d _ o, of Discovery] by simp
  have o1: "owned (P - ?D)" using o by (auto simp: owned_def)
  have 2: "becomes (release_server FlintSrv (release_server Discovery d)) (P - ?D - {FlintSrv})" using released [OF 1 _ o1, of FlintSrv] by simp
  have o2: "owned (P - ?D - {FlintSrv})" using o by (auto simp: owned_def)
  have 3: "becomes (release_server WsSrv (release_server FlintSrv (release_server Discovery d))) (P - ?D - {FlintSrv} - {WsSrv})"
    using released [OF 2 _ o2, of WsSrv] by simp
  have o3: "owned (P - ?D - {FlintSrv} - {WsSrv})" using o by (auto simp: owned_def)
  have 4: "becomes (release_server PeerSrv (release_server WsSrv (release_server FlintSrv (release_server Discovery d)))) (P - ?D - {FlintSrv} - {WsSrv} - {PeerSrv})"
    using released [OF 3 _ o3, of PeerSrv] by simp
  let ?d = "did PlatformReset (release_server PeerSrv (release_server WsSrv (release_server FlintSrv (release_server Discovery d))))"
  let ?P = "P - ?D - {FlintSrv} - {WsSrv} - {PeerSrv}"
  have 5: "becomes ?d ?P" using becomes_did [OF 4, of PlatformReset] by (simp add: live_step_def)
  have all: "q \<in> {Io, FlintSrv, WsSrv, PeerSrv, Discovery, Ssdp, Mdns}" for q by (cases q) auto
  show ?thesis
  proof (cases "Io \<in> P")
    case True
    then have P: "?P = {Io}" using all by auto
    have "becomes (did (Stop Io) ?d) {Io}" using becomes_did [OF 5 [unfolded P], of "Stop Io"] by (simp add: live_step_def)
    from becomes_deleted [OF this, of Io] show ?thesis
      using becomes_None [OF 5] P by (simp add: clear_def release_io_def delete_part_def delete_plain_def)
  next
    case False
    then have "P = {}" using o by (auto simp: owned_def)
    with 5 show ?thesis using becomes_None [OF 5] by (simp add: clear_def release_io_def)
  qed
qed

abbreviation base_parts :: "part set" where
  "base_parts \<equiv> {Io, FlintSrv, WsSrv, PeerSrv, Discovery}"

lemma made_parts: "becomes d {} \<Longrightarrow> becomes (make_parts d) base_parts"
proof -
  assume "becomes d {}"
  from renewed_fresh [OF renewed_fresh [OF renewed_fresh [OF renewed_fresh [OF renewed_fresh [OF this, of Io], of FlintSrv], of WsSrv], of PeerSrv], of Discovery]
  show ?thesis unfolding make_parts_def by (simp add: insert_commute)
qed

definition grown_parts :: "part set \<Rightarrow> bool" where
  "grown_parts P \<longleftrightarrow> base_parts \<subseteq> P \<and> owned P"

lemma tried:
  assumes "becomes d P" and "base_parts \<subseteq> P" and "p \<in> {FlintSrv, WsSrv, PeerSrv}"
  shows "becomes (try_start fails p code d) P"
proof -
  have "\<exists>Q. becomes (snd (start_part fails p d)) Q \<and> Q = P"
    unfolding start_part_def by (rule started_ok) (use assms in auto)
  then have "becomes (snd (start_part fails p d)) P" by simp
  with assms(1) show ?thesis
    by (cases "start_part fails p d") (simp add: try_start_def becomes_def sound_def present_def)
qed

lemma discovery_started:
  assumes d: "becomes d base_parts"
  shows "\<exists>Q. becomes (snd (discovery_onStart fails d)) Q \<and> grown_parts Q"
proof -
  let ?r = "start_server (\<lambda>d. (\<not> fails Ssdp, d)) Ssdp (renew Ssdp d)"
  have "becomes (renew Ssdp d) (insert Ssdp base_parts)" by (rule renewed_fresh [OF d]) simp_all
  then have "\<exists>Q. becomes (snd ?r) Q \<and> Q = insert Ssdp base_parts" by (rule started_ok) auto
  then have 1: "becomes (snd ?r) (insert Ssdp base_parts)" by simp
  then have "becomes (renew Mdns (snd ?r)) (insert Mdns (insert Ssdp base_parts))" by (rule renewed_fresh) simp_all
  then have "\<exists>Q. becomes (snd (start_server (\<lambda>d. (\<not> fails Mdns, d)) Mdns (renew Mdns (snd ?r)))) Q
      \<and> Q = insert Mdns (insert Ssdp base_parts)" by (rule started_ok) auto
  then have 2: "becomes (snd (start_server (\<lambda>d. (\<not> fails Mdns, d)) Mdns (renew Mdns (snd ?r)))) (insert Mdns (insert Ssdp base_parts))"
    by simp
  have "grown_parts (insert Ssdp base_parts)" "grown_parts (insert Mdns (insert Ssdp base_parts))"
    by (auto simp: grown_parts_def owned_def)
  with 1 2 show ?thesis
    by (cases ?r) (auto simp: discovery_onStart_def simp del: insert_iff)
qed

lemma started_parts:
  assumes d: "becomes d base_parts"
  shows "\<exists>Q. becomes (start_parts fails d) Q \<and> grown_parts Q"
proof -
  let ?d = "try_start fails WsSrv WEBSOCKETSERVER_ERROR (try_start fails FlintSrv FLINTSERVER_ERROR d)"
  have g: "grown_parts base_parts" by (auto simp: grown_parts_def owned_def)
  have 1: "becomes ?d base_parts" by (intro tried d) simp_all
  have "\<exists>Q. becomes (snd (start_part fails Discovery ?d)) Q \<and> grown_parts Q"
    unfolding start_part_def by (rule started_ok [OF 1]) (use g in \<open>auto intro: discovery_started\<close>)
  with 1 g have "\<exists>Q. becomes (try_start fails Discovery FLINTDISCOVERY_ERROR ?d) Q \<and> grown_parts Q"
    by (cases "start_part fails Discovery ?d") (auto simp: try_start_def becomes_def sound_def present_def)
  then obtain Q where Q: "becomes (try_start fails Discovery FLINTDISCOVERY_ERROR ?d) Q" "grown_parts Q" by blast
  have "becomes (start_parts fails d) Q"
    unfolding start_parts_def by (rule tried [OF Q(1)]) (use Q(2) in \<open>simp_all add: grown_parts_def\<close>)
  with Q(2) show ?thesis by blast
qed

definition daemon_inv :: "daemon \<Rightarrow> bool" where
  "daemon_inv d \<longleftrightarrow> (\<exists>P. becomes d P \<and> owned P \<and> (\<not> dm_running d \<longrightarrow> P = {}))"

lemma becomes_eq: "dm_parts e = dm_parts d \<Longrightarrow> dm_log e = dm_log d \<Longrightarrow> becomes e P \<longleftrightarrow> becomes d P"
  by (simp add: becomes_def sound_def present_def)

lemma owned_empty [simp]: "owned {}"
  by (simp add: owned_def)

lemma stop_inv: "daemon_inv d \<Longrightarrow> daemon_inv (daemon_stop d)"
proof -
  assume "daemon_inv d"
  then obtain P where P: "becomes d P" "owned P" by (auto simp: daemon_inv_def)
  have "becomes (d\<lparr>dm_running := False\<rparr>) P" using P(1) by (subst becomes_eq [of _ d]) simp_all
  then have "becomes (clear (d\<lparr>dm_running := False\<rparr>)) {}" using P(2) by (rule cleared_all)
  then have "daemon_inv (clear (d\<lparr>dm_running := False\<rparr>))" by (auto simp: daemon_inv_def)
  with \<open>daemon_inv d\<close> show ?thesis by (simp add: daemon_stop_def)
qed

lemma daemon_invE:
  assumes "daemon_inv d" obtains P where "becomes d P" and "owned P" and "\<not> dm_running d \<Longrightarrow> P = {}"
  using assms unfolding daemon_inv_def by blast

lemma daemon_invI: "becomes d P \<Longrightarrow> owned P \<Longrightarrow> (\<not> dm_running d \<Longrightarrow> P = {}) \<Longrightarrow> daemon_inv d"
  unfolding daemon_inv_def by blast

lemma clear_inv: "daemon_inv d \<Longrightarrow> daemon_inv (clear d)"
  by (erule daemon_invE) (rule daemon_invI [OF cleared_all owned_empty refl])

text \<open>Starting leaves everything made and started, or nothing at all when a server failed.\<close>

lemma delete_plain_running [simp]: "dm_running (delete_plain p d) = dm_running d"
  by (simp add: delete_plain_def)

lemma delete_part_running [simp]: "dm_running (delete_part p d) = dm_running d"
  by (simp add: delete_part_def)

lemma renew_running [simp]: "dm_running (renew p d) = dm_running d"
  by (simp add: renew_def)

lemma make_parts_running [simp]: "dm_running (make_parts d) = dm_running d"
  by (simp add: make_parts_def)

lemma start_server_running:
  "(\<And>e. dm_running (snd (f e)) = dm_running e) \<Longrightarrow> dm_running (snd (start_server f p d)) = dm_running d"
  by (simp add: start_server_def)

lemma discovery_running: "dm_running (snd (discovery_onStart fails d)) = dm_running d"
proof -
  have k: "dm_running (snd (start_server (\<lambda>d. (b, d)) p e)) = dm_running e" for b p e by (rule start_server_running) simp
  then show ?thesis
  proof (cases "start_server (\<lambda>d. (\<not> fails Ssdp, d)) Ssdp (renew Ssdp d)")
    case (Pair ok d1)
    with k [of "\<not> fails Ssdp" Ssdp "renew Ssdp d"] have "dm_running d1 = dm_running d" by simp
    with Pair k [of "\<not> fails Mdns" Mdns "renew Mdns d1"] show ?thesis by (simp add: discovery_onStart_def)
  qed
qed

lemma try_running: "dm_running (try_start fails p code d) = dm_running d"
proof -
  have "dm_running (snd (start_part fails p d)) = dm_running d"
    unfolding start_part_def by (rule start_server_running) (simp add: discovery_running)
  then show ?thesis by (cases "start_part fails p d") (simp add: try_start_def)
qed

lemma onStart_inv:
  assumes d: "becomes d {}" and r: "dm_running d"
  shows "daemon_inv (daemon_onStart fails plat d)"
proof -
  let ?s = "start_parts fails (make_parts (d\<lparr>dm_error := NONE_ERROR\<rparr>))"
  have "becomes (d\<lparr>dm_error := NONE_ERROR\<rparr>) {}" using d by (subst becomes_eq [of _ d]) simp_all
  then obtain Q where Q: "becomes ?s Q" "grown_parts Q" using started_parts [OF made_parts] by blast
  have run: "dm_running ?s" using r by (simp add: start_parts_def try_running)
  have g: "owned Q" "Io \<in> Q" using Q(2) by (auto simp: grown_parts_def)
  have p: "becomes (did PlatformInit ?s) Q" using becomes_did [OF Q(1), of PlatformInit] g(2) by (simp add: live_step_def)
  have "becomes (did RunIo (did PlatformInit ?s)) Q" using becomes_did [OF p, of RunIo] g(2) by (simp add: live_step_def)
  then have "daemon_inv (did RunIo (did PlatformInit ?s))" using g(1) run by (intro daemon_invI) simp_all
  moreover have i: "daemon_inv (did PlatformInit ?s)" using p g(1) run by (intro daemon_invI) simp_all
  ultimately show ?thesis using stop_inv [OF i] by (simp add: daemon_onStart_def Let_def)
qed

lemma start_inv: "daemon_inv d \<Longrightarrow> daemon_inv (daemon_start fails plat d)"
proof -
  assume i: "daemon_inv d"
  then obtain P where P: "becomes d P" "\<not> dm_running d \<Longrightarrow> P = {}" unfolding daemon_inv_def by blast
  show ?thesis
  proof (cases "dm_running d")
    case False
    with P have "becomes d {}" by simp
    then have "becomes (d\<lparr>dm_running := True\<rparr>) {}" by (subst becomes_eq [of _ d]) simp_all
    with False show ?thesis by (simp add: daemon_start_def onStart_inv)
  qed (use i in \<open>simp add: daemon_start_def\<close>)
qed

lemma step_inv: "daemon_inv d \<Longrightarrow> daemon_inv (daemon_step d c)"
  by (cases c) (simp_all add: start_inv stop_inv clear_inv)

lemma new_inv: "daemon_inv new_FlintDaemon"
  by (rule daemon_invI [of _ "{}"]) (simp_all add: becomes_def sound_def present_def new_FlintDaemon_def)

lemma life_inv: "daemon_inv d \<Longrightarrow> daemon_inv (foldl daemon_step d cs)"
  by (induction cs arbitrary: d) (simp_all add: step_inv)

text \<open>C20. Whatever the program calls, in any order, and whatever server or the platform fails to start: every object
  of the daemon is made once on a live \<open>io_service\<close>, used and deleted only while both are alive, the
  \<open>io_service\<close> is deleted last, the recorded objects are exactly those the daemon points to, and a daemon
  that does not run holds nothing.\<close>

theorem daemon_life_sound:
  "let d = foldl daemon_step new_FlintDaemon cs
   in live_after (dm_log d) {} = Some {p. dm_parts d p \<noteq> None} \<and> (dm_running d \<or> (\<forall>p. dm_parts d p = None))"
proof -
  let ?d = "foldl daemon_step new_FlintDaemon cs"
  obtain P where P: "becomes ?d P" "\<not> dm_running ?d \<Longrightarrow> P = {}"
    using life_inv [OF new_inv, of cs] unfolding daemon_inv_def by blast
  then have "live_after (dm_log ?d) {} = Some {p. dm_parts ?d p \<noteq> None}"
    by (simp add: becomes_def sound_def present_def)
  moreover have "dm_running ?d \<or> (\<forall>p. dm_parts ?d p = None)"
    using P by (auto simp: becomes_def present_def)
  ultimately show ?thesis by (simp add: Let_def)
qed

section \<open>What starting comes to\<close>

definition first_error :: "(part \<Rightarrow> bool) \<Rightarrow> error_code" where
  "first_error fails =
     (if fails FlintSrv then FLINTSERVER_ERROR else if fails WsSrv then WEBSOCKETSERVER_ERROR
      else if fails Ssdp \<or> fails Mdns then FLINTDISCOVERY_ERROR else if fails PeerSrv then PEERSERVER_ERROR else NONE_ERROR)"

lemma made_fields:
  assumes "dm_parts d = (\<lambda>_. None)"
  shows "dm_parts (make_parts d) = (\<lambda>_. None)(Io := Some False, FlintSrv := Some False, WsSrv := Some False, PeerSrv := Some False, Discovery := Some False)"
    and "dm_error (make_parts d) = dm_error d"
  using assms by (simp_all add: make_parts_def renew_def delete_part_def delete_plain_def)

lemma try_start_plain:
  "p \<noteq> Discovery \<Longrightarrow> dm_parts d p = Some False \<Longrightarrow> dm_error d = NONE_ERROR \<Longrightarrow>
     dm_parts (try_start fails p code d) = (dm_parts d)(p := Some True) \<and> dm_error (try_start fails p code d) = (if fails p then code else NONE_ERROR)"
  by (simp add: try_start_def start_part_def start_server_def)

lemma try_start_discovery:
  "dm_parts d Discovery = Some False \<Longrightarrow> dm_parts d Ssdp = None \<Longrightarrow> dm_parts d Mdns = None \<Longrightarrow> dm_error d = NONE_ERROR \<Longrightarrow>
     dm_error (try_start fails Discovery code d) = (if fails Ssdp \<or> fails Mdns then code else NONE_ERROR) \<and>
     (\<not> fails Ssdp \<and> \<not> fails Mdns \<longrightarrow>
        dm_parts (try_start fails Discovery code d) = (dm_parts d)(Discovery := Some True, Ssdp := Some True, Mdns := Some True))"
  by (simp add: try_start_def start_part_def start_server_def discovery_onStart_def renew_def delete_part_def delete_plain_def)

lemma try_start_failed: "dm_error d \<noteq> NONE_ERROR \<Longrightarrow> try_start fails p code d = d"
  by (simp add: try_start_def)

lemma start_parts_outcome:
  assumes d: "dm_parts d = (\<lambda>_. None)" "dm_error d = NONE_ERROR"
  shows "dm_error (start_parts fails (make_parts d)) = first_error fails"
    and "first_error fails = NONE_ERROR \<Longrightarrow> p \<noteq> Io \<Longrightarrow> dm_parts (start_parts fails (make_parts d)) p = Some True"
proof -
  let ?m = "make_parts d"
  note m = made_fields [OF d(1)] d(2)
  let ?f = "try_start fails FlintSrv FLINTSERVER_ERROR ?m"
  have f: "dm_parts ?f = (dm_parts ?m)(FlintSrv := Some True)" "dm_error ?f = (if fails FlintSrv then FLINTSERVER_ERROR else NONE_ERROR)"
    using try_start_plain [of FlintSrv ?m] m by simp_all
  let ?w = "try_start fails WsSrv WEBSOCKETSERVER_ERROR ?f"
  have w: "dm_parts ?w = (dm_parts ?f)(WsSrv := Some True)" "dm_error ?w = (if fails WsSrv then WEBSOCKETSERVER_ERROR else NONE_ERROR)"
    if "\<not> fails FlintSrv" using try_start_plain [of WsSrv ?f] m f that by simp_all
  let ?c = "try_start fails Discovery FLINTDISCOVERY_ERROR ?w"
  have c: "dm_error ?c = (if fails Ssdp \<or> fails Mdns then FLINTDISCOVERY_ERROR else NONE_ERROR)"
      "\<not> fails Ssdp \<Longrightarrow> \<not> fails Mdns \<Longrightarrow> dm_parts ?c = (dm_parts ?w)(Discovery := Some True, Ssdp := Some True, Mdns := Some True)"
    if "\<not> fails FlintSrv" "\<not> fails WsSrv" using try_start_discovery [of ?w] m f w that by simp_all
  let ?p = "try_start fails PeerSrv PEERSERVER_ERROR ?c"
  have p: "dm_error ?p = (if fails PeerSrv then PEERSERVER_ERROR else NONE_ERROR)" "dm_parts ?p = (dm_parts ?c)(PeerSrv := Some True)"
    if "\<not> fails FlintSrv" "\<not> fails WsSrv" "\<not> fails Ssdp" "\<not> fails Mdns" using try_start_plain [of PeerSrv ?c] m f w c that by simp_all
  have s: "start_parts fails ?m = ?p" by (simp add: start_parts_def)
  consider "fails FlintSrv" | "\<not> fails FlintSrv" "fails WsSrv" | "\<not> fails FlintSrv" "\<not> fails WsSrv" "fails Ssdp \<or> fails Mdns"
    | "\<not> fails FlintSrv" "\<not> fails WsSrv" "\<not> fails Ssdp" "\<not> fails Mdns" by blast
  then show "dm_error (start_parts fails ?m) = first_error fails"
    by cases (simp_all add: s f w c p try_start_failed first_error_def)
  assume "first_error fails = NONE_ERROR" "p \<noteq> Io"
  then show "dm_parts (start_parts fails ?m) p = Some True"
    by (cases p) (auto simp: s f w c p m first_error_def split: if_splits)
qed

lemma start_parts_io:
  assumes d: "dm_parts d = (\<lambda>_. None)" "dm_error d = NONE_ERROR" and e: "first_error fails = NONE_ERROR"
  shows "dm_parts (start_parts fails (make_parts d)) Io = Some False"
  using e by (simp add: start_parts_def try_start_def start_part_def start_server_def discovery_onStart_def renew_def
      delete_part_def delete_plain_def made_fields [OF d(1)] d(2) first_error_def split: if_splits)

lemma idle_parts: "daemon_inv d \<Longrightarrow> \<not> dm_running d \<Longrightarrow> dm_parts d = (\<lambda>_. None)"
  by (auto simp: daemon_inv_def becomes_def present_def)

lemma delete_part_error [simp]: "dm_error (delete_part p d) = dm_error d"
  by (simp add: delete_part_def delete_plain_def)

lemma stop_server_kept:
  "(\<And>e. dm_error (f e) = dm_error e \<and> dm_running (f e) = dm_running e) \<Longrightarrow>
     dm_error (stop_server f p d) = dm_error d \<and> dm_running (stop_server f p d) = dm_running d"
  by (simp add: stop_server_def)

lemma release_plain_kept: "dm_error (release_plain p d) = dm_error d \<and> dm_running (release_plain p d) = dm_running d"
  using stop_server_kept [of "\<lambda>d. d" p d] by (simp add: release_plain_def delete_plain_def)

lemma release_server_kept: "dm_error (release_server p d) = dm_error d \<and> dm_running (release_server p d) = dm_running d"
  using stop_server_kept [of "if p = Discovery then discovery_onStop else (\<lambda>d. d)" p d]
  by (simp add: release_server_def discovery_onStop_def release_plain_kept)

lemma clear_kept: "dm_error (clear d) = dm_error d \<and> dm_running (clear d) = dm_running d"
  by (simp add: clear_def release_io_def release_server_kept)

text \<open>
  C21. Starting a daemon that does not run, after any history: the error code names the first server in the
  order of starting that fails; with no failure the daemon runs and every server is there and started;
  with one it does not run and nothing is left.
\<close>

theorem daemon_start_outcome:
  fixes fails :: "part \<Rightarrow> bool" and cs :: "daemon_call list"
  assumes "d = foldl daemon_step new_FlintDaemon cs" and "\<not> dm_running d"
  defines "e \<equiv> daemon_start fails True d"
  shows "dm_error e = first_error fails \<and> (dm_running e \<longleftrightarrow> first_error fails = NONE_ERROR) \<and>
    (\<forall>p. dm_parts e p = (if first_error fails = NONE_ERROR then Some (p \<noteq> Io) else None))"
proof -
  let ?d = "d\<lparr>dm_running := True, dm_error := NONE_ERROR\<rparr>"
  let ?s = "start_parts fails (make_parts ?d)"
  have i: "daemon_inv d" using life_inv [OF new_inv] assms(1) by simp
  have p: "dm_parts ?d = (\<lambda>_. None)" using idle_parts [OF i assms(2)] by simp
  have s: "dm_error ?s = first_error fails" "\<And>p. first_error fails = NONE_ERROR \<Longrightarrow> p \<noteq> Io \<Longrightarrow> dm_parts ?s p = Some True" "dm_running ?s"
    using start_parts_outcome [OF p, of fails] by (simp_all add: start_parts_def try_running)
  have e: "e = (if first_error fails = NONE_ERROR then did RunIo (did PlatformInit ?s) else clear (did PlatformInit ?s\<lparr>dm_running := False\<rparr>))"
    using assms(2) s unfolding e_def by (simp add: daemon_start_def daemon_onStart_def Let_def daemon_stop_def)
  have inv: "daemon_inv e" using start_inv [OF i] unfolding e_def .
  show ?thesis
  proof (cases "first_error fails = NONE_ERROR")
    case True
    then have "dm_parts e Io = Some False" using start_parts_io [OF p] by (simp add: e)
    moreover have "dm_parts e p = Some True" if "p \<noteq> Io" for p using s(2) [OF True that] True by (simp add: e)
    ultimately have "dm_parts e p = Some (p \<noteq> Io)" for p by (cases "p = Io") simp_all
    with True s(1,3) show ?thesis by (simp add: e)
  next
    case False
    then have "\<not> dm_running e" by (simp add: e clear_kept)
    from idle_parts [OF inv this] False this show ?thesis using clear_kept s(1) by (simp add: e)
  qed
qed

theorem daemon_start_outcome_witness:
  "dm_error (daemon_start (\<lambda>p. p = Mdns) True new_FlintDaemon) = FLINTDISCOVERY_ERROR"
  using daemon_start_outcome [of new_FlintDaemon "[]" "\<lambda>p. p = Mdns"]
  by (simp add: first_error_def new_FlintDaemon_def)

end
