(* ===== verification/Numbers.thy ===== *)
theory Numbers
  imports BufferOps "HOL-Library.Signed_Division"
begin

text \<open>
  The rest of \<open>vos::Buffer\<close> (flint/src/discovery/mdns/Buffer.cpp): numbers written as text, names as
  DNS labels, the comparisons and the static constructors. A \<open>long int\<close> has 64 bits. The digits of a
  number are collected, the last one first, in an array of 23 characters on the stack, whose contents
  before it is written are the parameter \<open>junk\<close>.
\<close>

section \<open>Numbers\<close>

definition DIGITS :: string where
  "DIGITS = ''0123456789ABCDEF'' @ [NUL]"

definition digit_array :: "(nat \<Rightarrow> char) \<Rightarrow> string" where
  "digit_array junk = map junk [0..<23]"

text \<open>The loop that takes the digits off; the result is the index of the last one and the array.\<close>

function digit_loop :: "int \<Rightarrow> int \<Rightarrow> int \<Rightarrow> string \<Rightarrow> fault + int \<times> string" where
  "digit_loop base i x rebmun =
     (if i < 0 then Inr (x, rebmun)
      else if base = 0 then Inl DivByZero
      else
        bindE (mem_get DIGITS (i smod base)) (\<lambda>c.
        bindE (mem_set rebmun x c) (\<lambda>rebmun.
        let i = i sdiv base
        in if i = 0 then Inr (x, rebmun) else digit_loop base i (x + 1) rebmun)))"
  by pat_completeness auto
termination
  by (relation "measure (\<lambda>(base, i, x, r). nat (int (length r) - x))")
    (auto simp: mem_set_def split: if_splits)

function udigit_loop :: "64 word \<Rightarrow> 64 word \<Rightarrow> int \<Rightarrow> string \<Rightarrow> fault + int \<times> string" where
  "udigit_loop base i x rebmun =
     (if i = 0 then Inr (x, rebmun)
      else if base = 0 then Inl DivByZero
      else
        bindE (mem_get DIGITS (uint (i mod base))) (\<lambda>c.
        bindE (mem_set rebmun x c) (\<lambda>rebmun.
        let i = i div base
        in if i = 0 then Inr (x, rebmun) else udigit_loop base i (x + 1) rebmun)))"
  by pat_completeness auto
termination
  by (relation "measure (\<lambda>(base, i, x, r). nat (int (length r) - x))")
    (auto simp: mem_set_def split: if_splits)

declare digit_loop.simps [simp del] udigit_loop.simps [simp del]

text \<open>The loop that appends them, \<open>n\<close> being the index plus one.\<close>

fun emit_loop :: "allocator \<Rightarrow> string \<Rightarrow> nat \<Rightarrow> buffer \<Rightarrow> fault + int \<times> buffer" where
  "emit_loop A rebmun 0 b = Inr (0, b)"
| "emit_loop A rebmun (Suc x) b =
     bindE (mem_get rebmun (int x)) (\<lambda>c.
     bindE (appendc A b c) (\<lambda>(s, b).
     if s < 0 then Inr (-1, b) else emit_loop A rebmun x b))"

definition appendi :: "allocator \<Rightarrow> (nat \<Rightarrow> char) \<Rightarrow> buffer \<Rightarrow> 64 word \<Rightarrow> int \<Rightarrow> fault + int \<times> buffer" where
  "appendi A junk b i base =
     bindE (if sint i < 0 then appendc A b CHR ''-'' else Inr (0, b)) (\<lambda>(s, b).
     if s < 0 then Inr (-1, b)
     else if sint i = - (2 ^ 63) then Inl SignedOverflow
     else
       bindE (digit_loop base (if sint i < 0 then - sint i else sint i) 0 (digit_array junk)) (\<lambda>(x, rebmun).
       emit_loop A rebmun (nat (x + 1)) b))"

definition appendui :: "allocator \<Rightarrow> (nat \<Rightarrow> char) \<Rightarrow> buffer \<Rightarrow> 64 word \<Rightarrow> int \<Rightarrow> fault + int \<times> buffer" where
  "appendui A junk b i base =
     bindE (udigit_loop (word_of_int base) i 0 ((digit_array junk)[0 := CHR ''0''])) (\<lambda>(x, rebmun).
     emit_loop A rebmun (nat (x + 1)) b)"

text \<open>\<open>snprintf\<close> with \<open>%f\<close> is the parameter \<open>ftoa\<close>; a text of 32 characters or more is cut.\<close>

definition appendd :: "('d \<Rightarrow> string option) \<Rightarrow> allocator \<Rightarrow> buffer \<Rightarrow> 'd \<Rightarrow> fault + int \<times> buffer" where
  "appendd ftoa A b d =
     (case ftoa d of None \<Rightarrow> Inr (-1, b) | Some f \<Rightarrow> append_raw A b (Some (c_str (take 31 f))) 0)"

section \<open>Names\<close>

text \<open>The length of a label is one byte of an \<open>int\<close>, the lowest on the machines the daemon runs on.\<close>

definition flush_label :: "allocator \<Rightarrow> buffer \<Rightarrow> buffer \<Rightarrow> fault + buffer" where
  "flush_label A b subl =
     bindE (append_bin A b (Some [char_of_int (bindex subl)]) 1) (\<lambda>(_, b).
     bindE (append_buffer A b (Some subl)) (\<lambda>(_, b). Inr b))"

fun dns_label_loop :: "allocator \<Rightarrow> string \<Rightarrow> buffer \<Rightarrow> buffer \<Rightarrow> fault + buffer \<times> buffer" where
  "dns_label_loop A [] b subl = Inr (b, subl)"
| "dns_label_loop A (c # label) b subl =
     (if c = CHR ''.'' then
        if bindex subl \<noteq> 0 then
          bindE (flush_label A b subl) (\<lambda>b.
          bindE (reset subl 0) (\<lambda>subl.
          dns_label_loop A label b subl))
        else dns_label_loop A label b subl
      else bindE (appendc A subl c) (\<lambda>(_, subl). dns_label_loop A label b subl))"

definition append_dns_label :: "allocator \<Rightarrow> buffer \<Rightarrow> string \<Rightarrow> int \<Rightarrow> fault + int \<times> buffer" where
  "append_dns_label A b label len =
     bindE (new_Buffer A DFLT_SIZE) (\<lambda>subl.
     bindE (if bindex b + len + 1 > blength b then resize A b (bindex b + len + 1) else Inr (0, b)) (\<lambda>(_, b).
     bindE (dns_label_loop A (cstr label) b subl) (\<lambda>(b, subl).
     bindE (if bindex subl \<noteq> 0 then flush_label A b subl else Inr b) (\<lambda>b.
     bindE (appendc A b NUL) (\<lambda>(_, b). Inr (0, b))))))"

section \<open>Comparisons\<close>

text \<open>\<open>strcmp\<close>, \<open>strcasecmp\<close> and their bounded forms, as far as the sign goes.\<close>

fun str_cmp :: "(char \<Rightarrow> char) \<Rightarrow> nat option \<Rightarrow> string \<Rightarrow> string \<Rightarrow> fault + int" where
  "str_cmp f n [] t = (if n = Some 0 then Inr 0 else Inl OutOfBounds)"
| "str_cmp f n (c # s) [] = (if n = Some 0 then Inr 0 else Inl OutOfBounds)"
| "str_cmp f n (c # s) (d # t) =
     (if n = Some 0 then Inr 0
      else if (of_char (f c) :: nat) < of_char (f d) then Inr (-1)
      else if (of_char (f d) :: nat) < of_char (f c) then Inr 1
      else if c = NUL then Inr 0
      else str_cmp f (map_option (\<lambda>k. k - 1) n) s t)"

definition cmp_raw :: "buffer \<Rightarrow> string option \<Rightarrow> int \<Rightarrow> fault + int" where
  "cmp_raw b bfr len =
     (case bfr of None \<Rightarrow> Inr 1
      | Some t \<Rightarrow> bindE (deref (bdata b)) (\<lambda>m. str_cmp (\<lambda>c. c) (if len \<le> 0 then None else Some (nat len)) m t))"

definition cmp :: "buffer \<Rightarrow> buffer option \<Rightarrow> fault + int" where
  "cmp b bfr = (case bfr of None \<Rightarrow> Inr 1 | Some o' \<Rightarrow> cmp_raw b (bdata o') 0)"

definition like_raw :: "buffer \<Rightarrow> string option \<Rightarrow> int \<Rightarrow> fault + int" where
  "like_raw b bfr len =
     (case bfr of None \<Rightarrow> Inr 1
      | Some t \<Rightarrow> bindE (deref (bdata b)) (\<lambda>m. str_cmp tolower (if len \<le> 0 then None else Some (nat len)) m t))"

definition like :: "buffer \<Rightarrow> buffer option \<Rightarrow> fault + int" where
  "like b bfr = (case bfr of None \<Rightarrow> Inr 1 | Some o' \<Rightarrow> like_raw b (bdata o') 0)"

section \<open>Static constructors\<close>

text \<open>\<open>new\<close> throws when there is no memory, so it never gives a null pointer.\<close>

definition INIT :: "allocator \<Rightarrow> buffer option \<Rightarrow> buffer option \<Rightarrow> fault + int \<times> buffer option" where
  "INIT A o' bfr =
     (case o' of
        Some b \<Rightarrow> bindE (copy A b bfr) (\<lambda>(s, b). Inr (s, Some b))
      | None \<Rightarrow>
          bindE (new_Buffer A DFLT_SIZE) (\<lambda>b.
          bindE (copy A b bfr) (\<lambda>(s, b). Inr (s, if s \<noteq> 0 then None else Some b))))"

definition INIT_RAW :: "allocator \<Rightarrow> buffer option \<Rightarrow> string option \<Rightarrow> fault + int \<times> buffer option" where
  "INIT_RAW A o' bfr =
     (case o' of
        Some b \<Rightarrow> bindE (copy_raw A b bfr 0) (\<lambda>(_, b). Inr (-1, Some b))
      | None \<Rightarrow>
          bindE (new_Buffer A DFLT_SIZE) (\<lambda>b.
          bindE (copy_raw A b bfr 0) (\<lambda>(s, b). Inr (s, if s < 0 then None else Some b))))"

definition INIT_SIZE :: "allocator \<Rightarrow> buffer option \<Rightarrow> int \<Rightarrow> fault + int \<times> buffer option" where
  "INIT_SIZE A o' n =
     (case o' of
        Some b \<Rightarrow> bindE (resize A b n) (\<lambda>(s, b). Inr (s, Some b))
      | None \<Rightarrow>
          bindE (new_Buffer A DFLT_SIZE) (\<lambda>b.
          bindE (resize A b n) (\<lambda>(s, b). Inr (s, if s < 0 then None else Some b))))"

section \<open>The numerals and the room they need\<close>

lemma DIGITS_digits: "DIGITS = map digit_char [0..<16] @ [NUL]"
proof -
  have "map digit_char [0..<16] = ''0123456789ABCDEF''" by code_simp
  then show ?thesis by (simp add: DIGITS_def)
qed

lemma mem_get_map: "d < n \<Longrightarrow> mem_get (map f [0..<n] @ xs) (int d) = Inr (f d)"
  by (simp add: nth_append)

lemma DIGITS_digit: "d < 16 \<Longrightarrow> mem_get DIGITS (int d) = Inr (digit_char d)"
  unfolding DIGITS_digits by (rule mem_get_map)

lemma plain_char: "of_char c < (128 :: nat) \<Longrightarrow> \<not> int_of_char c < 0"
proof -
  assume c: "of_char c < (128 :: nat)"
  have "sint (word_of_nat (of_char c) :: 8 word) = signed_take_bit 7 (int (of_char c))" by (simp add: signed_of_nat)
  also have "\<dots> = int (of_char c)" using c by (subst signed_take_bit_int_eq_self) auto
  finally show ?thesis by (simp add: int_of_char_def u8_of_char_def)
qed

lemma of_char_small: "n < 256 \<Longrightarrow> of_char (char_of n) = (n :: nat)"
  by simp

lemma digit_char_plain: "d < 16 \<Longrightarrow> \<not> int_of_char (digit_char d) < 0"
  by (rule plain_char) (simp add: digit_char_def of_char_small del: of_char_of)

lemma digits_plain: "1 < b \<Longrightarrow> b \<le> 16 \<Longrightarrow> c \<in> set (digits_of b n) \<Longrightarrow> \<not> int_of_char c < 0"
proof (induction n rule: less_induct)
  case (less n)
  have "n mod b < b" using less.prems(1) by simp
  then have l: "n mod b < 16" using less.prems(2) by (rule less_le_trans)
  show ?case
  proof (cases "n < b")
    case True
    with less.prems show ?thesis
      using digit_char_plain [of n] by (auto simp: digits_of.simps [of b n])
  next
    case False
    with less.prems have "c = digit_char (n mod b) \<or> c \<in> set (digits_of b (n div b))" by (auto simp: digits_of.simps [of b n])
    moreover have "n div b < n" using False less.prems(1) by simp
    ultimately show ?thesis using less.IH [of "n div b"] less.prems digit_char_plain [OF l] by blast
  qed
qed

lemma length_digits: "1 < b \<Longrightarrow> length (digits_of b n) \<le> Suc k \<longleftrightarrow> n < b ^ Suc k"
proof (induction k arbitrary: n)
  case 0
  then show ?case by (auto simp: digits_of.simps [of b n] not_le)
next
  case (Suc k)
  show ?case
  proof (cases "n < b")
    case True
    with Suc.prems show ?thesis
      by (auto simp: digits_of.simps [of b n] intro: less_le_trans [of _ b])
  next
    case False
    with Suc.prems have "length (digits_of b n) \<le> Suc (Suc k) \<longleftrightarrow> n div b < b ^ Suc k"
      using Suc.IH by (simp add: digits_of.simps [of b n])
    also have "\<dots> \<longleftrightarrow> n < b ^ Suc (Suc k)" using Suc.prems by (simp add: div_less_iff_less_mult mult.commute)
    finally show ?thesis .
  qed
qed

lemma digit_loop_spec:
  assumes "1 < base" and "base \<le> 16"
  shows "digit_loop (int base) (int n) (int x) r =
    (if x + length (digits_of base n) \<le> length r
     then Inr (int (x + length (digits_of base n)) - 1,
        take x r @ rev (digits_of base n) @ drop (x + length (digits_of base n)) r)
     else Inl OutOfBounds)"
proof (induction n arbitrary: x r rule: less_induct)
  case (less n)
  have m: "int n smod int base = int (n mod base)" "int n sdiv int base = int (n div base)"
    using assms by (simp_all add: signed_modulo_int_def signed_divide_int_def sgn_if zmod_int zdiv_int)
  have d: "mem_get DIGITS (int (n mod base)) = Inr (digit_char (n mod base))"
    using assms by (intro DIGITS_digit) (auto intro: less_le_trans [of _ base])
  show ?case
  proof (cases "n < base")
    case True
    then show ?thesis
      using assms d by (simp add: digit_loop.simps [of "int base" "int n"] m digits_of.simps [of base n] mem_set_def
          upd_conv_take_nth_drop not_less_eq_eq)
  next
    case False
    have nz: "n div base \<noteq> 0" "n div base < n" using False assms by (simp_all add: div_eq_0_iff)
    have ds: "digits_of base n = digits_of base (n div base) @ [digit_char (n mod base)]"
      using False assms by (simp add: digits_of.simps [of base n])
    have step: "digit_loop (int base) (int n) (int x) r =
        bindE (mem_set r (int x) (digit_char (n mod base))) (\<lambda>r. digit_loop (int base) (int (n div base)) (int (Suc x)) r)"
      using assms d nz by (simp add: digit_loop.simps [of "int base" "int n"] m algebra_simps flip: of_nat_div of_nat_mod)
    show ?thesis
    proof (cases "x < length r")
      case True
      then have u: "mem_set r (int x) (digit_char (n mod base)) = Inr (take x r @ digit_char (n mod base) # drop (Suc x) r)"
        by (simp add: mem_set_def upd_conv_take_nth_drop)
      show ?thesis unfolding step u ds using True less.IH [OF nz(2), of "Suc x"] by (auto simp: ac_simps)
    next
      case False
      then show ?thesis unfolding step ds by (simp add: mem_set_def)
    qed
  qed
qed

lemma emit_loop_ok:
  assumes "ample A" and "buf_inv b" and "n \<le> length r" and "\<forall>c \<in> set (take n r). \<not> int_of_char c < 0"
  shows "\<exists>b'. emit_loop A r n b = Inr (0, b') \<and> appended b b' (rev (take n r))"
  using assms(2-)
proof (induction n arbitrary: b)
  case (Suc n)
  have c: "take (Suc n) r = take n r @ [r ! n]" using Suc.prems(2) by (simp add: take_Suc_conv_app_nth)
  obtain b1 where b1: "appendc A b (r ! n) = Inr (0, b1)" "appended b b1 [r ! n]"
    using appendc_ok [OF assms(1) Suc.prems(1), of "r ! n"] Suc.prems(3) by (auto simp: c)
  then have "\<exists>b'. emit_loop A r n b1 = Inr (0, b') \<and> appended b1 b' (rev (take n r))"
    using Suc.prems(2,3) by (intro Suc.IH) (auto simp: c)
  with b1 show ?case using Suc.prems(2) by (auto simp: c dest: appended_trans)
qed simp

lemma length_digit_array [simp]: "length (digit_array junk) = 23"
  by (simp add: digit_array_def)

text \<open>The loops together: the numeral is appended if it has room, and nothing is written outside the array.\<close>

lemma digits_emitted:
  assumes "ample A" and "buf_inv b" and "1 < base" "base \<le> 16" and "n < base ^ 23"
  shows "\<exists>b'. bindE (digit_loop (int base) (int n) 0 (digit_array junk)) (\<lambda>(x, r). emit_loop A r (nat (x + 1)) b) = Inr (0, b')
    \<and> appended b b' (digits_of base n)"
proof -
  have "length (digits_of base n) \<le> Suc 22" using assms(5) by (subst length_digits [OF assms(3)]) simp
  then have l: "length (digits_of base n) \<le> 23" by simp
  let ?r = "rev (digits_of base n) @ drop (length (digits_of base n)) (digit_array junk)"
  have "digit_loop (int base) (int n) 0 (digit_array junk) = Inr (int (length (digits_of base n)) - 1, ?r)"
    using digit_loop_spec [OF assms(3,4), of n 0 "digit_array junk"] l by simp
  moreover have "\<exists>b'. emit_loop A ?r (length (digits_of base n)) b = Inr (0, b') \<and> appended b b' (rev (take (length (digits_of base n)) ?r))"
    using digits_plain [OF assms(3,4)] l by (intro emit_loop_ok [OF assms(1,2)]) auto
  ultimately show ?thesis by simp
qed

lemma digits_overflow:
  assumes "1 < base" "base \<le> 16" and "base ^ 23 \<le> n"
  shows "digit_loop (int base) (int n) 0 (digit_array junk) = Inl OutOfBounds"
proof -
  have "\<not> length (digits_of base n) \<le> Suc 22" using assms(3) by (subst length_digits [OF assms(1)]) simp
  then show ?thesis using digit_loop_spec [OF assms(1,2), of n 0 "digit_array junk"] by simp
qed

lemma appendi_split:
  assumes "ample A" and "buf_inv b"
  shows "\<exists>b1. appended b b1 (if sint i < 0 then ''-'' else [])
    \<and> (\<forall>base. appendi A junk b i base = (if sint i = - (2 ^ 63) then Inl SignedOverflow
      else bindE (digit_loop base (int (nat \<bar>sint i\<bar>)) 0 (digit_array junk)) (\<lambda>(x, r). emit_loop A r (nat (x + 1)) b1)))"
proof -
  obtain b1 where b1: "(if sint i < 0 then appendc A b CHR ''-'' else Inr (0, b)) = Inr (0, b1)"
      "appended b b1 (if sint i < 0 then ''-'' else [])"
  proof (cases "sint i < 0")
    case True
    have "\<not> int_of_char CHR ''-'' < 0" by (rule plain_char) simp
    with True that appendc_ok [OF assms(1,2), of "CHR ''-''"] show thesis by auto
  qed (use that assms(2) in auto)
  have n: "(if sint i < 0 then - sint i else sint i) = int (nat \<bar>sint i\<bar>)" by simp
  show ?thesis using b1(2) unfolding appendi_def b1(1) n by auto
qed

lemma appendi_ok:
  assumes "ample A" and "buf_inv b" and "1 < base" and "base \<le> 16"
    and "sint i \<noteq> - (2 ^ 63)" and "7 \<le> base \<or> nat \<bar>sint i\<bar> < base ^ 23"
  shows "\<exists>b'. appendi A junk b i (int base) = Inr (0, b')
    \<and> appended b b' ((if sint i < 0 then ''-'' else []) @ digits_of base (nat \<bar>sint i\<bar>))"
proof -
  let ?n = "nat \<bar>sint i\<bar>"
  obtain b1 where b1: "appended b b1 (if sint i < 0 then ''-'' else [])"
    and e: "\<forall>base. appendi A junk b i base = (if sint i = - (2 ^ 63) then Inl SignedOverflow
      else bindE (digit_loop base (int ?n) 0 (digit_array junk)) (\<lambda>(x, r). emit_loop A r (nat (x + 1)) b1))"
    using appendi_split [OF assms(1,2), of i junk] by (elim exE conjE)
  have "sint i < 2 ^ 63" "- (2 ^ 63) \<le> sint i" using sint_lt [of i] sint_ge [of i] by simp_all
  then have "?n < 7 ^ 23" using assms(5) by simp
  moreover have "7 ^ 23 \<le> base ^ 23" if "7 \<le> base" using that by (rule power_mono) simp
  ultimately have r: "?n < base ^ 23" using assms(6) less_le_trans by blast
  obtain b' where "bindE (digit_loop (int base) (int ?n) 0 (digit_array junk)) (\<lambda>(x, r). emit_loop A r (nat (x + 1)) b1) = Inr (0, b')"
      "appended b1 b' (digits_of base ?n)"
    using digits_emitted [OF assms(1) appendedD(1) [OF b1] assms(3,4) r, of junk] by (elim exE conjE)
  with assms(5) appended_trans [OF b1] show ?thesis unfolding e [rule_format] by auto
qed

lemma udigit_loop_eq:
  assumes "0 < base" and "base < 2 ^ 63" and "i \<noteq> 0"
  shows "udigit_loop (word_of_int base) i x r = digit_loop base (uint i) x r"
  using assms(3)
proof (induction "word_of_int base :: 64 word" i x r rule: udigit_loop.induct)
  case (1 i x r)
  have b: "uint (word_of_int base :: 64 word) = base" using assms(1,2) by (simp add: uint_word_of_int)
  have p: "\<not> 0 < uint i \<Longrightarrow> uint i = 0" using uint_ge_0 [of i] by linarith
  from b have nz: "(word_of_int base :: 64 word) \<noteq> 0" using assms(1) by (metis less_irrefl uint_0_eq)
  have m: "uint (i mod word_of_int base) = uint i smod base" "uint (i div word_of_int base) = uint i sdiv base"
    using assms(1) by (simp_all add: uint_mod uint_div b signed_modulo_int_def signed_divide_int_def sgn_if p)
  have z: "i div word_of_int base = 0 \<longleftrightarrow> uint i sdiv base = 0" unfolding m(2) [symmetric] by (simp only: uint_0_iff)
  show ?case
  proof (cases "mem_get DIGITS (uint i smod base)")
    case (Inr c)
    then show ?thesis
    proof (cases "mem_set r x c")
      case Inr': (Inr r')
      have "udigit_loop (word_of_int base) (i div word_of_int base) (x + 1) r' = digit_loop base (uint i sdiv base) (x + 1) r'"
        if "uint i sdiv base \<noteq> 0"
        using 1(1) [OF 1(2) nz, of c r' "i div word_of_int base"] Inr Inr' that z m by simp
      with Inr Inr' 1(2) nz assms(1) show ?thesis
        by (simp add: udigit_loop.simps [of "word_of_int base" i] digit_loop.simps [of base "uint i"] m z)
    qed (use Inr 1(2) nz assms(1) in \<open>simp add: udigit_loop.simps [of "word_of_int base" i] digit_loop.simps [of base "uint i"] m\<close>)
  qed (use 1(2) nz assms(1) in \<open>simp add: udigit_loop.simps [of "word_of_int base" i] digit_loop.simps [of base "uint i"] m\<close>)
qed

lemma appendui_ok:
  assumes "ample A" and "buf_inv b"
  shows "\<exists>b'. appendui A junk b i 10 = Inr (0, b') \<and> appended b b' (digits_of 10 (unat i))"
proof (cases "i = 0")
  case True
  have zero: "digit_char 0 = CHR ''0''" by code_simp
  have "\<exists>b'. emit_loop A ((digit_array junk)[0 := CHR ''0'']) 1 b = Inr (0, b')
      \<and> appended b b' (rev (take 1 ((digit_array junk)[0 := CHR ''0''])))"
    by (rule emit_loop_ok [OF assms]) (auto simp: take_Suc_conv_app_nth int_of_char_def u8_of_char_def)
  then show ?thesis
    using True by (simp add: appendui_def udigit_loop.simps take_Suc_conv_app_nth digits_of.simps [of 10 0] zero)
next
  case False
  have "unat i < 10 ^ 23" using unsigned_less [of i, where ?'a = nat] by simp
  then have "\<exists>b'. bindE (digit_loop (int 10) (int (unat i)) 0 (digit_array ((\<lambda>k. if k = 0 then CHR ''0'' else junk k)))) (\<lambda>(x, r). emit_loop A r (nat (x + 1)) b) = Inr (0, b')
      \<and> appended b b' (digits_of 10 (unat i))"
    by (intro digits_emitted [OF assms]) simp_all
  moreover have "(digit_array junk)[0 := CHR ''0''] = digit_array (\<lambda>k. if k = 0 then CHR ''0'' else junk k)"
    by (rule nth_equalityI) (auto simp: digit_array_def nth_list_update)
  ultimately show ?thesis
    using udigit_loop_eq [of 10 i 0] False by (simp add: appendui_def)
qed

text \<open>
  C5. Writing a signed number in a base from 2 to 16 appends its sign and its numeral, unless it is the
  least number, whose negation overflows, or its numeral is longer than the 23 characters of the
  array; both ends are reached exactly there. From base 7 on every other 64-bit number fits.
\<close>

theorem appendi_bounds:
  assumes "ample A" and "buf_inv b" and "1 < base" and "base \<le> 16"
  shows "(sint i = - (2 ^ 63) \<longrightarrow> appendi A junk b i (int base) = Inl SignedOverflow) \<and>
    (sint i \<noteq> - (2 ^ 63) \<and> base ^ 23 \<le> nat \<bar>sint i\<bar> \<longrightarrow> appendi A junk b i (int base) = Inl OutOfBounds) \<and>
    (sint i \<noteq> - (2 ^ 63) \<and> (7 \<le> base \<or> nat \<bar>sint i\<bar> < base ^ 23) \<longrightarrow>
       (\<exists>b'. appendi A junk b i (int base) = Inr (0, b')
          \<and> appended b b' ((if sint i < 0 then ''-'' else []) @ digits_of base (nat \<bar>sint i\<bar>))))"
proof -
  obtain b1 where e: "\<forall>base. appendi A junk b i base = (if sint i = - (2 ^ 63) then Inl SignedOverflow
      else bindE (digit_loop base (int (nat \<bar>sint i\<bar>)) 0 (digit_array junk)) (\<lambda>(x, r). emit_loop A r (nat (x + 1)) b1))"
    using appendi_split [OF assms(1,2), of i junk] by (elim exE conjE)
  have "appendi A junk b i (int base) = Inl OutOfBounds" if "sint i \<noteq> - (2 ^ 63)" "base ^ 23 \<le> nat \<bar>sint i\<bar>"
    unfolding e [rule_format] digits_overflow [OF assms(3,4) that(2)] using that(1) by simp
  moreover have "appendi A junk b i (int base) = Inl SignedOverflow" if "sint i = - (2 ^ 63)"
    unfolding e [rule_format] using that by simp
  ultimately show ?thesis using appendi_ok [OF assms] by blast
qed

theorem appendi_bounds_witness:
  "appendi \<lparr>al_grants = \<lambda>_. True, al_fill = \<lambda>_. NUL\<rparr> (\<lambda>_. NUL) \<lparr>bindex = 0, blength = 0, bdata = None\<rparr> (2 ^ 62) (int 2) = Inl OutOfBounds
   \<and> (\<exists>b'. appendi \<lparr>al_grants = \<lambda>_. True, al_fill = \<lambda>_. NUL\<rparr> (\<lambda>_. NUL) \<lparr>bindex = 0, blength = 0, bdata = None\<rparr> (- 255) (int 16) = Inr (0, b')
       \<and> content b' = ''-'' @ digits_of 16 255)"
proof -
  let ?A = "\<lparr>al_grants = \<lambda>_. True, al_fill = \<lambda>_. NUL\<rparr>"
  have A: "ample ?A" by (simp add: ample_def)
  have s: "sint (2 ^ 62 :: 64 word) = 2 ^ 62" "sint (- 255 :: 64 word) = - 255" by code_simp+
  have "appendi ?A (\<lambda>_. NUL) \<lparr>bindex = 0, blength = 0, bdata = None\<rparr> (2 ^ 62) (int 2) = Inl OutOfBounds"
    using appendi_bounds [OF A buf_inv_empty, of 2 "2 ^ 62" "\<lambda>_. NUL"] unfolding s by simp
  moreover have "\<exists>b'. appendi ?A (\<lambda>_. NUL) \<lparr>bindex = 0, blength = 0, bdata = None\<rparr> (- 255) (int 16) = Inr (0, b')
       \<and> content b' = ''-'' @ digits_of 16 255"
    using appendi_bounds [OF A buf_inv_empty, of 16 "- 255" "\<lambda>_. NUL"] unfolding s by auto
  ultimately show ?thesis by blast
qed

end
