(* ===== verification/Printf.thy ===== *)
theory Printf
  imports Numbers
begin

text \<open>
  The printf family of \<open>vos::Buffer\<close> (flint/src/discovery/mdns/Buffer.cpp): \<open>VSNPRINTF\<close> reads a format
  and builds the text of each directive in a second buffer, \<open>vprint\<close> runs it twice, once for the
  length. The arguments are a list of typed values; an argument that is not of the type the directive
  asks for is the fault \<open>BadVarArg\<close>. \<open>ftoa\<close> is \<open>snprintf\<close> with \<open>%f\<close>, \<open>junk\<close> the contents of the stack
  (see \<open>Numbers\<close>). A function that leaves with \<open>-1\<close> has the result \<open>None\<close>.
\<close>

section \<open>Arguments and flags\<close>

datatype 'd arg = ArgInt "32 word" | ArgUInt "32 word" | ArgULong "64 word" | ArgStr "string option" | ArgDouble 'd

datatype fl = FL_LEFT | FL_SIGN | FL_ALT_OUT | FL_ZERO | FL_WIDTH | FL_SHORT | FL_LONG | FL_LONG_DBL | FL_OCTAL | FL_HEX | FL_NUMBER

definition bindR :: "fault + 'a option \<Rightarrow> ('a \<Rightarrow> fault + 'b option) \<Rightarrow> fault + 'b option" where
  "bindR m f = bindE m (\<lambda>r. case r of None \<Rightarrow> Inr None | Some x \<Rightarrow> f x)"

definition okR :: "fault + int \<times> buffer \<Rightarrow> fault + buffer option" where
  "okR m = bindE m (\<lambda>(s, b). Inr (if s < 0 then None else Some b))"

definition dec_int :: "int \<Rightarrow> fault + int" where
  "dec_int i = (if i = - (2 ^ 31) then Inl SignedOverflow else Inr (i - 1))"

section \<open>Reading a directive\<close>

fun fmt_flags :: "string \<Rightarrow> fl set \<Rightarrow> string \<times> fl set" where
  "fmt_flags [] flag = ([], flag)"
| "fmt_flags (c # p) flag =
     (if c = CHR ''-'' then fmt_flags p (insert FL_LEFT flag)
      else if c = CHR ''+'' then fmt_flags p (insert FL_SIGN flag)
      else if c = CHR ''#'' then fmt_flags p (insert FL_ALT_OUT flag)
      else if c = CHR ''0'' then fmt_flags p (insert FL_ZERO flag)
      else (c # p, flag))"

text \<open>\<open>strtol\<close> ends at the largest \<open>long\<close>; the result is cut to an \<open>int\<close>.\<close>

definition strtol_int :: "string \<Rightarrow> int" where
  "strtol_int ds = sint (word_of_int (min (int (digits_value 0 ds)) (2 ^ 63 - 1)) :: 32 word)"

definition fmt_width :: "string \<Rightarrow> fl set \<Rightarrow> int \<Rightarrow> string \<times> fl set \<times> int" where
  "fmt_width p flag flen =
     (case p of
        [] \<Rightarrow> (p, flag, flen)
      | c # _ \<Rightarrow> if isdigit c then (dropWhile isdigit p, insert FL_WIDTH flag, strtol_int (takeWhile isdigit p)) else (p, flag, flen))"

definition fmt_size :: "string \<Rightarrow> fl set \<Rightarrow> string \<times> fl set" where
  "fmt_size p flag =
     (case p of
        [] \<Rightarrow> (p, flag)
      | c # p' \<Rightarrow>
          if c = CHR ''h'' then (p', insert FL_SHORT flag)
          else if c = CHR ''l'' then (p', insert FL_LONG flag)
          else if c = CHR ''L'' then (p', insert FL_LONG_DBL flag)
          else (p, flag))"

section \<open>The text of a directive\<close>

text \<open>\<open>va_arg\<close> reads an \<open>int\<close> as an \<open>unsigned\<close> and back if both types have its value.\<close>

fun va_int :: "'d arg list \<Rightarrow> fault + 32 word \<times> 'd arg list" where
  "va_int (ArgInt i # args) = Inr (i, args)"
| "va_int (ArgUInt i # args) = (if 0 \<le> sint i then Inr (i, args) else Inl BadVarArg)"
| "va_int args = Inl BadVarArg"

fun va_uint :: "'d arg list \<Rightarrow> fault + 32 word \<times> 'd arg list" where
  "va_uint (ArgUInt i # args) = Inr (i, args)"
| "va_uint (ArgInt i # args) = (if 0 \<le> sint i then Inr (i, args) else Inl BadVarArg)"
| "va_uint args = Inl BadVarArg"

fun va_ulong :: "'d arg list \<Rightarrow> fault + 64 word \<times> 'd arg list" where
  "va_ulong (ArgULong i # args) = Inr (i, args)"
| "va_ulong args = Inl BadVarArg"

fun va_str :: "'d arg list \<Rightarrow> fault + string option \<times> 'd arg list" where
  "va_str (ArgStr s # args) = Inr (s, args)"
| "va_str args = Inl BadVarArg"

fun va_double :: "'d arg list \<Rightarrow> fault + 'd \<times> 'd arg list" where
  "va_double (ArgDouble d # args) = Inr (d, args)"
| "va_double args = Inl BadVarArg"

definition fmt_conv ::
  "('d \<Rightarrow> string option) \<Rightarrow> allocator \<Rightarrow> (nat \<Rightarrow> char) \<Rightarrow> char \<Rightarrow> 'd arg list \<Rightarrow> fl set \<Rightarrow> int \<Rightarrow> buffer
    \<Rightarrow> fault + ('d arg list \<times> fl set \<times> int \<times> buffer) option" where
  "fmt_conv ftoa A junk c args flag flen ob =
     (if c = CHR ''c'' then
        bindE (va_int args) (\<lambda>(i, args).
        bindR (okR (appendc A ob (char_of_int (sint i)))) (\<lambda>ob. Inr (Some (args, flag, flen, ob))))
      else if c = CHR ''d'' \<or> c = CHR ''i'' then
        bindE (va_int args) (\<lambda>(i, args).
        bindR (okR (appendi A junk ob (scast i) 10)) (\<lambda>ob. Inr (Some (args, insert FL_NUMBER flag, flen, ob))))
      else if c = CHR ''u'' then
        bindE (if FL_LONG \<in> flag then va_ulong args else bindE (va_uint args) (\<lambda>(i, args). Inr (ucast i, args))) (\<lambda>(i, args).
        bindR (okR (appendui A junk ob i 10)) (\<lambda>ob. Inr (Some (args, insert FL_NUMBER flag, flen, ob))))
      else if c = CHR ''s'' then
        bindE (va_str args) (\<lambda>(s, args).
        bindR (okR (append_raw A ob s 0)) (\<lambda>ob. Inr (Some (args, flag, flen, ob))))
      else if c = CHR ''f'' then
        bindE (va_double args) (\<lambda>(d, args).
        bindR (okR (appendd ftoa A ob d)) (\<lambda>ob. Inr (Some (args, insert FL_NUMBER flag, flen, ob))))
      else if c = CHR ''o'' then
        let flag = insert FL_OCTAL (insert FL_NUMBER flag) - {FL_SIGN}
        in bindE (if flen \<noteq> 0 \<and> FL_ALT_OUT \<in> flag then dec_int flen else Inr flen) (\<lambda>flen.
           bindE (va_int args) (\<lambda>(i, args).
           bindR (okR (appendi A junk ob (scast i) 8)) (\<lambda>ob. Inr (Some (args, flag, flen, ob)))))
      else if c = CHR ''p'' \<or> c = CHR ''x'' \<or> c = CHR ''X'' then
        let flag = insert FL_HEX (insert FL_NUMBER (if c = CHR ''p'' then insert FL_ALT_OUT flag else flag)) - {FL_SIGN};
            flen = (if 2 \<le> flen then (if FL_ALT_OUT \<in> flag then flen - 2 else flen) else 0)
        in bindE (va_int args) (\<lambda>(i, args).
           bindR (okR (appendi A junk ob (scast i) 16)) (\<lambda>ob. Inr (Some (args, flag, flen, ob))))
      else
        bindR (okR (appendc A ob CHR ''%'')) (\<lambda>ob.
        bindR (okR (appendc A ob c)) (\<lambda>ob. Inr (Some (args, {}, flen, ob)))))"

text \<open>The padding; the results of \<open>shiftr\<close> are not looked at.\<close>

definition shift :: "allocator \<Rightarrow> buffer \<Rightarrow> int \<Rightarrow> int \<Rightarrow> fault + buffer" where
  "shift A b n c = bindE (shiftr A b n c) (\<lambda>(_, b). Inr b)"

definition fmt_pad :: "allocator \<Rightarrow> fl set \<Rightarrow> int \<Rightarrow> buffer \<Rightarrow> fault + int \<times> buffer" where
  "fmt_pad A flag flen ob =
     (if flag = {} then Inr (flen, ob)
      else
        bindE (if FL_WIDTH \<in> flag \<and> FL_SIGN \<in> flag \<and> FL_NUMBER \<in> flag then dec_int flen else Inr flen) (\<lambda>w.
        let flen1 = (if FL_WIDTH \<in> flag then (if bindex ob < w then w - bindex ob else 0) else flen);
            zero = FL_NUMBER \<in> flag \<and> FL_ZERO \<in> flag \<and> flen1 \<noteq> 0
        in bindE (if zero then shift A ob flen1 (int_of_char CHR ''0'') else Inr ob) (\<lambda>ob.
           bindE (if FL_NUMBER \<in> flag \<and> FL_SIGN \<in> flag then bindE (shift A ob 1 0) (\<lambda>ob. replace ob 0 CHR ''+'') else Inr ob) (\<lambda>ob.
           bindE (if \<not> zero \<and> flen1 \<noteq> 0 then shift A ob flen1 (int_of_char CHR '' '') else Inr ob) (\<lambda>ob.
           bindE (if FL_ALT_OUT \<in> flag then
                    if FL_OCTAL \<in> flag then shift A ob 1 (int_of_char CHR ''0'')
                    else if FL_HEX \<in> flag then bindE (shift A ob 2 (int_of_char CHR ''x'')) (\<lambda>ob. replace ob 0 CHR ''0'')
                    else Inr ob
                  else Inr ob) (\<lambda>ob.
           Inr (0, ob)))))))"

section \<open>The format\<close>

lemma fmt_flags_length: "length (fst (fmt_flags p flag)) \<le> length p"
  by (induction p flag rule: fmt_flags.induct) auto

lemma fmt_width_length: "length (fst (fmt_width p flag flen)) \<le> length p"
  by (auto simp: fmt_width_def length_dropWhile_le split: list.splits intro: le_SucI)

lemma fmt_size_length: "length (fst (fmt_size p flag)) \<le> length p"
  by (auto simp: fmt_size_def split: list.splits)

definition fmt_directive :: "string \<Rightarrow> int \<Rightarrow> string \<times> fl set \<times> int" where
  "fmt_directive p flen =
     (let (p1, flag) = fmt_flags p {};
          (p2, flag, flen) = fmt_width p1 flag flen;
          (p3, flag) = fmt_size p2 flag
      in (p3, flag, flen))"

lemma fmt_directive_length: "length (fst (fmt_directive p flen)) \<le> length p"
proof -
  obtain p1 f1 where 1: "fmt_flags p {} = (p1, f1)" by (cases "fmt_flags p {}")
  obtain p2 f2 l where 2: "fmt_width p1 f1 flen = (p2, f2, l)" by (cases "fmt_width p1 f1 flen")
  obtain p3 f3 where 3: "fmt_size p2 f2 = (p3, f3)" by (cases "fmt_size p2 f2")
  show ?thesis
    using fmt_flags_length [of p "{}"] fmt_width_length [of p1 f1 flen] fmt_size_length [of p2 f2]
    by (simp add: fmt_directive_def 1 2 3)
qed

function vsn_loop ::
  "('d \<Rightarrow> string option) \<Rightarrow> allocator \<Rightarrow> (nat \<Rightarrow> char) \<Rightarrow> string \<Rightarrow> 'd arg list \<Rightarrow> int \<Rightarrow> buffer \<Rightarrow> buffer \<Rightarrow> fault + buffer option"
where
  "vsn_loop ftoa A junk p args flen b ob =
     (case p of
        [] \<Rightarrow> Inr (Some b)
      | c # p \<Rightarrow>
          if c \<noteq> CHR ''%'' then bindR (okR (appendc A b c)) (\<lambda>b. vsn_loop ftoa A junk p args flen b ob)
          else
            (case fmt_directive p flen of
               (p', flag, flen) \<Rightarrow>
                 (case p' of
                    [] \<Rightarrow> Inr (Some b)
                  | k # p'' \<Rightarrow>
                      bindR (fmt_conv ftoa A junk k args flag flen ob) (\<lambda>(args, flag, flen, ob).
                      bindE (fmt_pad A flag flen ob) (\<lambda>(flen, ob).
                      bindE (append_buffer A b (Some ob)) (\<lambda>(_, b).
                      bindE (reset ob 0) (\<lambda>ob.
                      vsn_loop ftoa A junk p'' args flen b ob)))))))"
  by pat_completeness auto
termination
  apply (relation "measure (\<lambda>(ftoa, A, junk, p, args, flen, b, ob). length p)")
  subgoal by simp
  subgoal by simp
  subgoal premises prems for ftoa A junk p args flen b ob c p1 x y xa ya k p''
    using prems fmt_directive_length [of p1 flen]
    apply auto
    apply (metis fst_conv length_Cons less_Suc_eq_le Suc_le_lessD less_or_eq_imp_le)
    done
  done

declare vsn_loop.simps [simp del]

text \<open>\<open>VSNPRINTF\<close> up to the copy into the caller's array: the text it has built.\<close>

definition VSNPRINTF ::
  "('d \<Rightarrow> string option) \<Rightarrow> allocator \<Rightarrow> (nat \<Rightarrow> char) \<Rightarrow> string \<Rightarrow> 'd arg list \<Rightarrow> fault + buffer option" where
  "VSNPRINTF ftoa A junk fmt args =
     bindE (new_Buffer A DFLT_SIZE) (\<lambda>b.
     bindE (new_Buffer A DFLT_SIZE) (\<lambda>ob.
     vsn_loop ftoa A junk (cstr fmt) args 0 b ob))"

definition vsn_copy :: "string \<Rightarrow> int \<Rightarrow> int \<Rightarrow> buffer \<Rightarrow> fault + string" where
  "vsn_copy m i len b =
     (let n = (if len < bindex b then len else bindex b)
      in if n = 0 then Inr m
         else bindE (deref (bdata b)) (\<lambda>src. bindE (mem_slice src 0 n) (\<lambda>xs. mem_blit m i xs)))"

definition vprint ::
  "('d \<Rightarrow> string option) \<Rightarrow> allocator \<Rightarrow> (nat \<Rightarrow> char) \<Rightarrow> buffer \<Rightarrow> string option \<Rightarrow> 'd arg list \<Rightarrow> fault + int \<times> buffer" where
  "vprint ftoa A junk b fmt args =
     (case fmt of
        None \<Rightarrow> Inr (0, b)
      | Some fmt \<Rightarrow>
          bindE (VSNPRINTF ftoa A junk fmt args) (\<lambda>r.
          case r of
            None \<Rightarrow> Inr (-1, b)
          | Some t \<Rightarrow>
              bindE (resize A b (bindex b + (bindex t + 1))) (\<lambda>(s, b).
              if s < 0 then Inr (-1, b)
              else
                bindE (VSNPRINTF ftoa A junk fmt args) (\<lambda>r.
                case r of
                  None \<Rightarrow> Inr (-1, b)
                | Some t' \<Rightarrow>
                    bindE (deref (bdata b)) (\<lambda>m.
                    bindE (vsn_copy m (bindex b) (bindex t + 1) t') (\<lambda>m.
                    bindE (mem_set m (bindex b + bindex t') NUL) (\<lambda>m.
                    Inr (bindex t', b\<lparr>bindex := bindex b + bindex t', bdata := Some m\<rparr>))))))))"

text \<open>\<open>aprint\<close> gathers its arguments and calls \<open>vprint\<close>.\<close>

definition aprint ::
  "('d \<Rightarrow> string option) \<Rightarrow> allocator \<Rightarrow> (nat \<Rightarrow> char) \<Rightarrow> buffer \<Rightarrow> string option \<Rightarrow> 'd arg list \<Rightarrow> fault + int \<times> buffer" where
  "aprint ftoa A junk b fmt args = vprint ftoa A junk b fmt args"

section \<open>What C asks of the format\<close>

text \<open>
  A format is a list of pieces: plain characters, and directives with the flags \<open>0\<close> and \<open>+\<close> and a
  width. \<open>piece_text\<close> is the text the C standard gives a piece, \<open>piece_ok\<close> the pieces for which the
  code agrees with it: see \<open>printf_standard\<close> and, for the others, \<open>printf_departs\<close>.
\<close>

datatype 'd piece = Plain char | Conv (pc_zero: bool) (pc_plus: bool) (pc_width: nat) (pc_conv: char) (pc_arg: "'d arg")

fun piece_fmt :: "'d piece \<Rightarrow> string" where
  "piece_fmt (Plain c) = [c]"
| "piece_fmt (Conv zero sg w k a) =
     CHR ''%'' # (if zero then ''0'' else []) @ (if sg then ''+'' else []) @ (if w = 0 then [] else show_nat w)
       @ (case a of ArgULong _ \<Rightarrow> ''l'' | _ \<Rightarrow> []) @ [k]"

fun piece_args :: "'d piece \<Rightarrow> 'd arg list" where
  "piece_args (Plain c) = []"
| "piece_args (Conv zero sg w k a) = [a]"

fun conv_text :: "char \<Rightarrow> 'd arg \<Rightarrow> string" where
  "conv_text k (ArgInt i) =
     (if k = CHR ''X'' then digits_of 16 (unat i) else if k = CHR ''c'' then [char_of_int (sint i)] else show_int (sint i))"
| "conv_text k (ArgUInt i) = show_nat (unat i)"
| "conv_text k (ArgULong i) = show_nat (unat i)"
| "conv_text k (ArgStr s) = (case s of None \<Rightarrow> [] | Some s \<Rightarrow> cstr s)"
| "conv_text k (ArgDouble d) = []"

definition numeric :: "char \<Rightarrow> bool" where
  "numeric k \<longleftrightarrow> k \<noteq> CHR ''c'' \<and> k \<noteq> CHR ''s''"

definition padded :: "bool \<Rightarrow> string \<Rightarrow> nat \<Rightarrow> string \<Rightarrow> string" where
  "padded zero sign w t =
     (let n = w - length sign - length t
      in if zero then sign @ replicate n (CHR ''0'') @ t else replicate n (CHR '' '') @ sign @ t)"

fun piece_text :: "'d piece \<Rightarrow> string" where
  "piece_text (Plain c) = [c]"
| "piece_text (Conv zero sg w k a) = padded (zero \<and> numeric k) (if sg then ''+'' else []) w (conv_text k a)"

fun piece_ok :: "'d piece \<Rightarrow> bool" where
  "piece_ok (Plain c) \<longleftrightarrow> c \<noteq> CHR ''%'' \<and> c \<noteq> NUL \<and> \<not> int_of_char c < 0"
| "piece_ok (Conv zero sg w k a) \<longleftrightarrow>
     w < 2 ^ 31 \<and>
     (case a of
        ArgInt i \<Rightarrow>
          (k = CHR ''d'' \<or> k = CHR ''i'') \<and> (zero \<or> sg \<longrightarrow> 0 \<le> sint i)
          \<or> k = CHR ''X'' \<and> \<not> sg \<and> 0 \<le> sint i
          \<or> k = CHR ''c'' \<and> \<not> sg \<and> \<not> int_of_char (char_of_int (sint i)) < 0
      | ArgUInt i \<Rightarrow> k = CHR ''u'' \<and> \<not> sg
      | ArgULong i \<Rightarrow> k = CHR ''u'' \<and> \<not> sg
      | ArgStr s \<Rightarrow> k = CHR ''s'' \<and> \<not> sg \<and> (case s of None \<Rightarrow> False | Some s \<Rightarrow> NUL \<in> set s)
      | ArgDouble d \<Rightarrow> False)"


section \<open>Directives are read as they are written\<close>

lemma hd_digits: "0 < n \<Longrightarrow> hd (digits_of 10 n) \<noteq> CHR ''0''"
proof (induction n rule: less_induct)
  case (less n)
  have d: "digit_char m \<noteq> CHR ''0''" if "0 < m" "m < 10" for m
  proof
    assume "digit_char m = CHR ''0''"
    then have "(of_char (digit_char m) :: nat) = of_char (CHR ''0'')" by simp
    with that show False by simp
  qed
  show ?case
  proof (cases "n < 10")
    case True
    with less.prems d show ?thesis by (simp add: digits_of.simps [of 10 n])
  next
    case False
    then have "0 < n div 10" "n div 10 < n" by (simp_all add: div_greater_zero_iff)
    with less.IH False show ?thesis by (simp add: digits_of.simps [of 10 n] hd_append)
  qed
qed

definition conv_char :: "char \<Rightarrow> bool" where
  "conv_char k \<longleftrightarrow> k \<in> {CHR ''d'', CHR ''i'', CHR ''u'', CHR ''s'', CHR ''c'', CHR ''X'', CHR ''l''}"

lemma fmt_flags_stop: "isdigit c \<and> c \<noteq> CHR ''0'' \<or> conv_char c \<Longrightarrow> fmt_flags (c # p) flag = (c # p, flag)"
  by (auto simp: conv_char_def isdigit_def)

lemma conv_char_nodigit: "conv_char k \<Longrightarrow> \<not> isdigit k"
  by (auto simp: conv_char_def isdigit_def)

lemma strtol_show_nat: "w < 2 ^ 31 \<Longrightarrow> strtol_int (show_nat w) = int w"
  by (simp add: strtol_int_def min_def signed_of_nat signed_take_bit_int_eq_self)

lemma show_nat_cons:
  assumes "0 < w"
  obtains c cs where "show_nat w = c # cs" and "isdigit c" and "c \<noteq> CHR ''0''"
proof (cases "show_nat w")
  case (Cons c cs)
  with hd_digits [OF assms] isdigit_show_nat [of c w] that show thesis by (simp add: show_nat_def)
qed simp

lemma takeWhile_width: "conv_char k \<Longrightarrow> takeWhile isdigit (show_nat w @ k # p) = show_nat w"
    "conv_char k \<Longrightarrow> dropWhile isdigit (show_nat w @ k # p) = k # p"
  by (simp_all add: conv_char_nodigit isdigit_show_nat takeWhile_append dropWhile_append)

definition conv_flags :: "bool \<Rightarrow> bool \<Rightarrow> nat \<Rightarrow> bool \<Rightarrow> fl set" where
  "conv_flags zero sg w long =
     (if zero then {FL_ZERO} else {}) \<union> (if sg then {FL_SIGN} else {}) \<union> (if 0 < w then {FL_WIDTH} else {})
       \<union> (if long then {FL_LONG} else {})"

lemma fmt_directive_piece:
  assumes "w < 2 ^ 31" and "conv_char k" and "k \<noteq> CHR ''l''"
  shows "fmt_directive ((if zero then ''0'' else []) @ (if sg then ''+'' else []) @ (if w = 0 then [] else show_nat w)
      @ (if long then ''l'' else []) @ k # p) 0 = (k # p, conv_flags zero sg w long, int w)"
proof -
  let ?r = "(if long then ''l'' else []) @ k # p"
  let ?q = "(if w = 0 then [] else show_nat w) @ ?r"
  let ?f = "(if zero then {FL_ZERO} else {}) \<union> (if sg then {FL_SIGN} else {})"
  obtain l r where r: "?r = l # r" "conv_char l" using assms(2) by (cases long) (auto simp: conv_char_def)
  have "fmt_flags ?q f = (?q, f)" for f
  proof (cases "w = 0")
    case False
    then obtain c cs where "show_nat w = c # cs" "isdigit c" "c \<noteq> CHR ''0''" using show_nat_cons [of w] by auto
    with False show ?thesis by (simp add: fmt_flags_stop del: fmt_flags.simps)
  next
    case True
    then show ?thesis using r(2) by (simp add: r(1) fmt_flags_stop del: fmt_flags.simps)
  qed
  then have 1: "fmt_flags ((if zero then ''0'' else []) @ (if sg then ''+'' else []) @ ?q) {} = (?q, ?f)" by auto
  have 2: "fmt_width ?q g 0 = (?r, (if 0 < w then insert FL_WIDTH g else g), int w)" for g
  proof (cases "w = 0")
    case True
    then show ?thesis using conv_char_nodigit [OF r(2)] by (simp add: r(1) fmt_width_def)
  next
    case False
    then have "0 < w" by simp
    then obtain c cs where c: "show_nat w = c # cs" "isdigit c" by (rule show_nat_cons)
    with False show ?thesis
      using takeWhile_width [OF r(2), of w r] strtol_show_nat [OF assms(1)] unfolding r(1) by (simp add: fmt_width_def)
  qed
  have 3: "fmt_size ?r g = (k # p, if long then insert FL_LONG g else g)" for g
    using assms(2,3) by (auto simp: fmt_size_def conv_char_def)
  show ?thesis unfolding fmt_directive_def Let_def 1 prod.case 2 3 by (auto simp: conv_flags_def)
qed

section \<open>Conversions and padding\<close>

lemma shift_ok:
  assumes "ample A" and "buf_inv b" and "0 < n"
  shows "\<exists>b'. shift A b (int n) c = Inr b' \<and> buf_inv b' \<and> content b' = replicate n (char_of_int c) @ content b"
  using shiftr_spec [OF assms(2), of n A c] assms(1,3) by (auto simp: shift_def split: if_splits)

lemma pad_chars [simp]: "char_of_int (int_of_char CHR ''0'') = CHR ''0''" "char_of_int (int_of_char CHR '' '') = CHR '' ''"
  by code_simp+

lemma fmt_pad_ok:
  assumes "ample A" and ob: "buf_inv ob" and "FL_ALT_OUT \<notin> flag" and "FL_SIGN \<in> flag \<Longrightarrow> FL_NUMBER \<in> flag"
    and "FL_WIDTH \<notin> flag \<Longrightarrow> w = 0"
  shows "\<exists>ob'. fmt_pad A flag (int w) ob = Inr (0, ob') \<and> buf_inv ob' \<and>
    content ob' = padded (FL_ZERO \<in> flag \<and> FL_NUMBER \<in> flag) (if FL_SIGN \<in> flag then ''+'' else []) w (content ob)"
proof (cases "flag = {}")
  case True
  with assms show ?thesis by (simp add: fmt_pad_def padded_def)
next
  case False
  let ?Z = "FL_NUMBER \<in> flag \<and> FL_ZERO \<in> flag" and ?S = "FL_NUMBER \<in> flag \<and> FL_SIGN \<in> flag"
  define n where "n = w - (if ?S then 1 else 0) - length (content ob)"
  obtain wi where wi: "(if FL_WIDTH \<in> flag \<and> FL_SIGN \<in> flag \<and> FL_NUMBER \<in> flag then dec_int (int w) else Inr (int w)) = Inr wi"
      "(if FL_WIDTH \<in> flag then (if bindex ob < wi then wi - bindex ob else 0) else int w) = int n"
  proof (rule that [of "int w - (if FL_WIDTH \<in> flag \<and> ?S then 1 else 0)"], goal_cases)
    case 1
    show ?case by (auto simp: dec_int_def)
  next
    case 2
    show ?case using assms(5) by (auto simp: n_def bindex_content [OF ob])
  qed
  obtain o1 where o1: "(if FL_NUMBER \<in> flag \<and> FL_ZERO \<in> flag \<and> int n \<noteq> 0 then shift A ob (int n) (int_of_char CHR ''0'') else Inr ob) = Inr o1"
      "buf_inv o1" "content o1 = (if ?Z then replicate n CHR ''0'' else []) @ content ob"
    using shift_ok [OF assms(1) ob, of n "int_of_char CHR ''0''"] ob by (cases "?Z \<and> n \<noteq> 0") auto
  obtain o2 where o2: "(if ?S then bindE (shift A o1 1 0) (\<lambda>ob. replace ob 0 CHR ''+'') else Inr o1) = Inr o2" "buf_inv o2"
      "content o2 = (if ?S then ''+'' else []) @ content o1"
  proof (cases ?S)
    case True
    obtain o' where o': "shift A o1 1 0 = Inr o'" "buf_inv o'" "content o' = replicate 1 (char_of_int 0) @ content o1"
      using shift_ok [OF assms(1) o1(2), of 1 0] by auto
    with replace_spec [of o' 0 "CHR ''+''"] True that show thesis by auto
  qed (use that o1 in auto)
  obtain o3 where o3: "(if \<not> (FL_NUMBER \<in> flag \<and> FL_ZERO \<in> flag \<and> int n \<noteq> 0) \<and> int n \<noteq> 0 then shift A o2 (int n) (int_of_char CHR '' '') else Inr o2) = Inr o3"
      "buf_inv o3" "content o3 = (if ?Z then [] else replicate n CHR '' '') @ content o2"
    using shift_ok [OF assms(1) o2(2), of n "int_of_char CHR '' ''"] o2(2) by (cases "n = 0"; cases ?Z) auto
  have "fmt_pad A flag (int w) ob = Inr (0, o3)"
    unfolding fmt_pad_def if_not_P [OF False] wi bindE_simps Let_def o1(1) o2(1) o3(1) using assms(3) by simp
  moreover have "content o3 = padded (FL_ZERO \<in> flag \<and> FL_NUMBER \<in> flag) (if FL_SIGN \<in> flag then ''+'' else []) w (content ob)"
    using assms(4) by (auto simp: o1 o2 o3 padded_def n_def)
  ultimately show ?thesis using o3(2) by blast
qed

lemma okR_ok: "okR (Inr (0, b)) = Inr (Some b)" "0 \<le> s \<Longrightarrow> okR (Inr (s, b)) = Inr (Some b)"
  by (simp_all add: okR_def)

lemma bindR_Inr [simp]: "bindR (Inr (Some x)) f = f x"
  by (simp add: bindR_def)

lemma conv_char_plain: "piece_ok (Conv zero sg w k a) \<Longrightarrow> conv_char k \<and> k \<noteq> CHR ''l'' \<and> w < 2 ^ 31"
  by (auto simp: conv_char_def split: arg.splits)

lemma take_bit_64: "take_bit 64 (unat (i :: 32 word)) = unat i"
  by (rule take_bit_nat_eq_self) (use unsigned_less [of i, where ?'a = nat] in simp)

lemma sint_unat: "0 \<le> sint (i :: 32 word) \<Longrightarrow> nat (sint i) = unat i"
  using sint_lt [of i] by (simp add: uint_sint take_bit_int_eq_self del: uint_nat flip: nat_uint_eq)

text \<open>A conversion appends its text, and leaves the flags and the width the padding needs.\<close>

lemma fmt_conv_ok:
  assumes "ample A" and ob: "buf_inv ob" and "piece_ok (Conv zero sg w k a)"
    and "long \<longleftrightarrow> (case a of ArgULong _ \<Rightarrow> True | _ \<Rightarrow> False)"
  shows "\<exists>flag w' ob'. fmt_conv ftoa A junk k (a # args) (conv_flags zero sg w long) (int w) ob = Inr (Some (args, flag, int w', ob'))
    \<and> appended ob ob' (conv_text k a) \<and> (w' = w \<or> w' = 0 \<and> w \<le> length (conv_text k a) \<and> \<not> sg)
    \<and> FL_ALT_OUT \<notin> flag \<and> (FL_NUMBER \<in> flag \<longleftrightarrow> numeric k) \<and> (FL_ZERO \<in> flag \<longleftrightarrow> zero) \<and> (FL_SIGN \<in> flag \<longleftrightarrow> sg)
    \<and> (FL_WIDTH \<in> flag \<longleftrightarrow> 0 < w)"
proof (cases a)
  case (ArgInt i)
  have r: "sint i < 2 ^ 31" "- (2 ^ 31) \<le> sint i" using sint_lt [of i] sint_ge [of i] by simp_all
  then have s: "sint (scast i :: 64 word) = sint i" by (simp add: signed_scast_eq signed_take_bit_int_eq_self)
  consider "k = CHR ''d'' \<or> k = CHR ''i''" | "k = CHR ''X''" "0 \<le> sint i" "\<not> sg" | "k = CHR ''c''" "\<not> sg" "\<not> int_of_char (char_of_int (sint i)) < 0"
    using assms(3) ArgInt by auto
  then show ?thesis
  proof cases
    case 1
    obtain ob' where "appendi A junk ob (scast i) 10 = Inr (0, ob')" "appended ob ob' (show_int (sint i))"
      using appendi_ok [OF assms(1) ob, of 10 "scast i" junk] r by (auto simp: s show_int_def show_nat_def)
    with 1 ArgInt assms(4) show ?thesis
      by (auto simp: fmt_conv_def okR_ok conv_flags_def numeric_def intro!: exI [of _ w])
  next
    case 2
    obtain ob' where "appendi A junk ob (scast i) 16 = Inr (0, ob')" "appended ob ob' (digits_of 16 (unat i))"
      using appendi_ok [OF assms(1) ob, of 16 "scast i" junk] r 2 by (auto simp: s sint_unat)
    moreover have "1 \<le> length (digits_of 16 (unat i))" by (simp add: Suc_le_eq)
    ultimately show ?thesis using 2 ArgInt assms(4)
      by (auto simp: fmt_conv_def okR_ok conv_flags_def numeric_def Let_def intro!: exI [of _ "if 2 \<le> w then w else 0"])
  next
    case 3
    obtain ob' where "appendc A ob (char_of_int (sint i)) = Inr (0, ob')" "appended ob ob' [char_of_int (sint i)]"
      using appendc_ok [OF assms(1) ob, of "char_of_int (sint i)"] 3 by auto
    with 3 ArgInt assms(4) show ?thesis
      by (auto simp: fmt_conv_def okR_ok conv_flags_def numeric_def intro!: exI [of _ w])
  qed
next
  case (ArgUInt i)
  obtain ob' where "appendui A junk ob (ucast i) 10 = Inr (0, ob')" "appended ob ob' (show_nat (unat i))"
    using appendui_ok [OF assms(1) ob, of junk "ucast i"] by (auto simp: show_nat_def unsigned_ucast_eq take_bit_64)
  with ArgUInt assms(3,4) show ?thesis
    by (auto simp: fmt_conv_def okR_ok conv_flags_def numeric_def intro!: exI [of _ w])
next
  case (ArgULong i)
  obtain ob' where "appendui A junk ob i 10 = Inr (0, ob')" "appended ob ob' (show_nat (unat i))"
    using appendui_ok [OF assms(1) ob, of junk i] by (auto simp: show_nat_def)
  with ArgULong assms(3,4) show ?thesis
    by (auto simp: fmt_conv_def okR_ok conv_flags_def numeric_def intro!: exI [of _ w])
next
  case (ArgStr so)
  with assms(3) obtain str where str: "so = Some str" "NUL \<in> set str" "k = CHR ''s''" "\<not> sg" by (auto split: option.splits)
  have n: "raw_length str 0 = Inr (int (length (cstr str)))" "length (cstr str) \<le> length str"
    using str(2) by (simp_all add: raw_length_def strlen_def length_cstr_le)
  have "take (length (cstr str)) str = cstr str" by (rule take_length_cstr)
  then obtain s' ob' where "append_raw A ob (Some str) 0 = Inr (s', ob')" "0 \<le> s'" "appended ob ob' (cstr str)"
    using append_raw_spec [OF ob n(1), of A] n(2) assms(1) by (auto split: if_splits)
  with ArgStr str assms(4) show ?thesis
    by (auto simp: fmt_conv_def okR_ok conv_flags_def numeric_def intro!: exI [of _ w])
qed (use assms(3) in simp)

lemma padded_short: "w \<le> length t \<Longrightarrow> padded z [] w t = t"
  by (simp add: padded_def)

text \<open>One directive: read, converted, padded and moved to the result.\<close>

lemma directive_ok:
  assumes "ample A" and b: "buf_inv b" and ob: "buf_inv ob" "content ob = []" and p: "piece_ok (Conv zero sg w k a)"
  shows "\<exists>b' ob'. vsn_loop ftoa A junk (piece_fmt (Conv zero sg w k a) @ fmt) (a # args) 0 b ob = vsn_loop ftoa A junk fmt args 0 b' ob'
    \<and> appended b b' (piece_text (Conv zero sg w k a)) \<and> buf_inv ob' \<and> content ob' = []"
proof -
  let ?long = "case a of ArgULong _ \<Rightarrow> True | _ \<Rightarrow> False"
  have k: "conv_char k" "k \<noteq> CHR ''l''" "w < 2 ^ 31" using conv_char_plain [OF p] by auto
  have l: "(case a of ArgULong _ \<Rightarrow> ''l'' | _ \<Rightarrow> []) = (if ?long then ''l'' else [])" by (cases a) simp_all
  obtain flag w' o1 where c: "fmt_conv ftoa A junk k (a # args) (conv_flags zero sg w ?long) (int w) ob = Inr (Some (args, flag, int w', o1))"
      "appended ob o1 (conv_text k a)" "w' = w \<or> w' = 0 \<and> w \<le> length (conv_text k a) \<and> \<not> sg"
      "FL_ALT_OUT \<notin> flag" "FL_NUMBER \<in> flag \<longleftrightarrow> numeric k" "FL_ZERO \<in> flag \<longleftrightarrow> zero" "FL_SIGN \<in> flag \<longleftrightarrow> sg"
      "FL_WIDTH \<in> flag \<longleftrightarrow> 0 < w"
    using fmt_conv_ok [OF assms(1) ob(1) p refl, of ftoa junk args] by (elim exE conjE)
  have n: "sg \<Longrightarrow> numeric k" using p by (auto simp: numeric_def split: arg.splits)
  have o1: "buf_inv o1" "content o1 = conv_text k a" using c(2) ob(2) by auto
  obtain o2 where o2: "fmt_pad A flag (int w') o1 = Inr (0, o2)" "buf_inv o2"
      "content o2 = padded (FL_ZERO \<in> flag \<and> FL_NUMBER \<in> flag) (if FL_SIGN \<in> flag then ''+'' else []) w' (content o1)"
    using fmt_pad_ok [OF assms(1) o1(1) c(4), of w'] c n by auto
  have "content o2 = padded (zero \<and> numeric k) (if sg then ''+'' else []) w (conv_text k a)"
    using c(3) unfolding o2(3) o1(2) c by (auto simp: padded_short)
  moreover obtain s b' where "append_buffer A b (Some o2) = Inr (s, b')" "appended b b' (content o2)"
    using append_buffer_spec [OF b o2(2), of A] assms(1) by (auto split: if_splits)
  moreover obtain o3 where "reset o2 0 = Inr o3" "buf_inv o3" "content o3 = []" using reset_spec [OF o2(2)] by auto
  ultimately show ?thesis
    using fmt_directive_piece [OF k(3,1,2), of zero sg ?long fmt] c(1) o2(1)
    by (intro exI [of _ b'] exI [of _ o3]) (simp add: vsn_loop.simps [of _ _ _ "CHR ''%'' # _"] l)
qed

lemma vsn_loop_ok:
  assumes "ample A" and "buf_inv b" and "buf_inv ob" and "content ob = []" and "\<forall>p \<in> set ps. piece_ok p"
  shows "\<exists>b'. vsn_loop ftoa A junk (concat (map piece_fmt ps)) (concat (map piece_args ps)) 0 b ob = Inr (Some b')
    \<and> appended b b' (concat (map piece_text ps))"
  using assms(2-)
proof (induction ps arbitrary: b ob)
  case Nil
  then show ?case by (simp add: vsn_loop.simps)
next
  case (Cons p ps)
  show ?case
  proof (cases p)
    case (Plain c)
    with Cons.prems(4) have c: "c \<noteq> CHR ''%''" "\<not> int_of_char c < 0" by auto
    obtain b1 where b1: "appendc A b c = Inr (0, b1)" "appended b b1 [c]" using appendc_ok [OF assms(1) Cons.prems(1), of c] c by auto
    with Cons.IH [of b1 ob] Cons.prems obtain b' where
      "vsn_loop ftoa A junk (concat (map piece_fmt ps)) (concat (map piece_args ps)) 0 b1 ob = Inr (Some b')"
      "appended b1 b' (concat (map piece_text ps))" by auto
    with b1 appended_trans [OF b1(2)] show ?thesis
      by (auto simp: Plain c vsn_loop.simps [of _ _ _ "c # _"] okR_ok)
  next
    case (Conv zero sg w k a)
    with Cons.prems(4) have p: "piece_ok (Conv zero sg w k a)" by simp
    obtain b1 o1 where b1: "vsn_loop ftoa A junk (piece_fmt (Conv zero sg w k a) @ concat (map piece_fmt ps)) (a # concat (map piece_args ps)) 0 b ob
        = vsn_loop ftoa A junk (concat (map piece_fmt ps)) (concat (map piece_args ps)) 0 b1 o1"
      "appended b b1 (piece_text (Conv zero sg w k a))" "buf_inv o1" "content o1 = []"
      using directive_ok [OF assms(1) Cons.prems(1-3) p, of ftoa junk "concat (map piece_fmt ps)" "concat (map piece_args ps)"] by (elim exE conjE)
    with Cons.IH [of b1 o1] Cons.prems obtain b' where
      "vsn_loop ftoa A junk (concat (map piece_fmt ps)) (concat (map piece_args ps)) 0 b1 o1 = Inr (Some b')"
      "appended b1 b' (concat (map piece_text ps))" by auto
    with b1(1) appended_trans [OF b1(2)] show ?thesis unfolding Conv by (auto simp del: piece_fmt.simps piece_text.simps)
  qed
qed

lemma no_NUL_fmt: "\<forall>p \<in> set ps. piece_ok p \<Longrightarrow> NUL \<notin> set (concat (map piece_fmt ps))"
proof (induction ps)
  case (Cons p ps)
  have "NUL \<notin> set (show_nat w)" for w using isdigit_show_nat [of NUL w] by (auto simp: isdigit_def)
  with Cons show ?case by (cases p) (auto split: arg.splits if_splits)
qed simp

lemma VSNPRINTF_ok:
  assumes "ample A" and "\<forall>p \<in> set ps. piece_ok p"
  shows "\<exists>t. VSNPRINTF ftoa A junk (concat (map piece_fmt ps)) (concat (map piece_args ps)) = Inr (Some t)
    \<and> buf_inv t \<and> content t = concat (map piece_text ps)"
proof -
  obtain b where b: "new_Buffer A DFLT_SIZE = Inr b" "buf_inv b" "content b = []"
    using new_Buffer_spec [of DFLT_SIZE A] by (auto simp: DFLT_SIZE_def)
  have "cstr (concat (map piece_fmt ps)) = concat (map piece_fmt ps)" by (rule cstr_id) (rule no_NUL_fmt [OF assms(2)])
  with vsn_loop_ok [OF assms(1) b(2,2,3) assms(2), of ftoa junk] b show ?thesis by (auto simp: VSNPRINTF_def appended_def)
qed

lemma vsn_copy_ok:
  assumes "buf_inv t" and "i + length (content t) \<le> length m"
  shows "vsn_copy m (int i) (bindex t + 1) t = Inr (take i m @ content t @ drop (i + length (content t)) m)"
proof (cases "bdata t")
  case None
  with assms show ?thesis by (simp add: vsn_copy_def Let_def buf_inv_def content_def)
next
  case (Some src)
  with block_content [OF assms(1)] obtain r where "src = content t @ NUL # r" by blast
  with Some assms show ?thesis by (auto simp: vsn_copy_def bindex_content simp flip: of_nat_add)
qed

text \<open>
  C4. Printing a format to a buffer appends what the C standard says and returns its length, for
  formats of plain characters and of \<open>d\<close>, \<open>i\<close>, \<open>u\<close>, \<open>lu\<close>, \<open>X\<close>, \<open>s\<close> and \<open>c\<close> directives with matching arguments, the
  flags \<open>0\<close> and \<open>+\<close> on numbers that are not negative, and any width.
\<close>

theorem printf_standard:
  assumes "ample A" and "buf_inv b" and "\<forall>p \<in> set ps. piece_ok p"
  shows "\<exists>b'. aprint ftoa A junk b (Some (concat (map piece_fmt ps))) (concat (map piece_args ps))
      = Inr (int (length (concat (map piece_text ps))), b')
    \<and> appended b b' (concat (map piece_text ps))"
proof -
  obtain t where t: "VSNPRINTF ftoa A junk (concat (map piece_fmt ps)) (concat (map piece_args ps)) = Inr (Some t)"
    "buf_inv t" "content t = concat (map piece_text ps)"
    using VSNPRINTF_ok [OF assms(1,3), of ftoa junk] by (elim exE conjE)
  let ?sz = "bindex b + (bindex t + 1)"
  have sz: "0 < ?sz" using bindex_nonneg [OF assms(2)] bindex_nonneg [OF t(2)] by simp
  obtain b1 where r: "resize A b ?sz = Inr (0, b1)" "appended b b1 []" "?sz \<le> blength b1" "bindex b1 = bindex b" "bdata b1 \<noteq> None"
    using resize_inv [OF assms(2) less_imp_le [OF sz], of A] assms(1) sz by (auto split: if_splits)
  then obtain m where m: "bdata b1 = Some m" by auto
  obtain i l where b1: "b1 = \<lparr>bindex = int i, blength = int l, bdata = Some m\<rparr>" "length m = Suc l" "i \<le> l" "m ! i = NUL"
    using appendedD(1) [OF r(2)] m by (rule buf_inv_block)
  have n: "bindex t = int (length (content t))" by (rule bindex_content [OF t(2)])
  have le: "i + length (content t) < length m" using r(3,4) b1(1,2) n by simp
  have i: "take i m = content b" using r(2) b1(1,3) by (auto simp: appended_def content_def)
  from i le have j: "length (content b) = i" by (metis length_take less_imp_le min.absorb2 add_leE)
  let ?m = "take i m @ content t @ drop (i + length (content t)) m"
  let ?m' = "?m[i + length (content t) := NUL]"
  have c: "vsn_copy m (int i) (bindex t + 1) t = Inr ?m" using le by (intro vsn_copy_ok [OF t(2)]) simp
  have s: "mem_set ?m (int i + bindex t) NUL = Inr ?m'" using le unfolding n by (simp flip: of_nat_add)
  have "aprint ftoa A junk b (Some (concat (map piece_fmt ps))) (concat (map piece_args ps))
      = Inr (bindex t, b1\<lparr>bindex := int i + bindex t, bdata := Some ?m'\<rparr>)"
    using r(1) b1(1) c s by (simp add: aprint_def vprint_def t(1))
  moreover have "appended b (b1\<lparr>bindex := int i + bindex t, bdata := Some ?m'\<rparr>) (content t)"
    using le b1(2) j unfolding n i by (simp add: appended_def buf_inv_def content_def [of "_ \<lparr>bindex := _\<rparr>"] content_def [of "\<lparr>bindex = _, blength = _, bdata = _\<rparr>"] b1(1) nth_append flip: of_nat_add)
  ultimately show ?thesis unfolding n t(3) by blast
qed

theorem printf_standard_witness:
  "\<exists>b'. aprint (\<lambda>_ :: nat. None) \<lparr>al_grants = \<lambda>_. True, al_fill = \<lambda>_. NUL\<rparr> (\<lambda>_. NUL)
      \<lparr>bindex = 0, blength = 0, bdata = None\<rparr> (Some ''n=%+5d/%02X/%4s'') [ArgInt 42, ArgInt 7, ArgStr (Some (c_str ''up''))]
      = Inr (15, b')
    \<and> content b' = ''n=  +42/07/  up''"
proof -
  let ?A = "\<lparr>al_grants = \<lambda>_. True, al_fill = \<lambda>_. NUL\<rparr>"
  let ?ps = "[Plain CHR ''n'', Plain CHR ''='', Conv False True 5 CHR ''d'' (ArgInt 42), Plain CHR ''/'',
      Conv True False 2 CHR ''X'' (ArgInt 7), Plain CHR ''/'', Conv False False 4 CHR ''s'' (ArgStr (Some (c_str ''up'')))] :: nat piece list"
  have A: "ample ?A" by (simp add: ample_def)
  have w: "show_nat 5 = ''5''" "show_nat 2 = ''2''" "show_nat 4 = ''4''" by code_simp+
  have ok: "\<forall>p \<in> set ?ps. piece_ok p" by (simp add: plain_char c_str_def)
  have f: "concat (map piece_fmt ?ps) = ''n=%+5d/%02X/%4s''" by (simp add: w)
  have a: "concat (map piece_args ?ps) = [ArgInt 42, ArgInt 7, ArgStr (Some (c_str ''up''))]" by simp
  have t: "concat (map piece_text ?ps) = ''n=  +42/07/  up''" by code_simp
  show ?thesis
    using printf_standard [OF A buf_inv_empty ok, of "\<lambda>_. None" "\<lambda>_. NUL"] unfolding f a t by auto
qed

text \<open>
  Where the code departs from C: the flag \<open>-\<close> does not move the text to the left, zeros and the sign \<open>+\<close>
  come before a minus sign, \<open>0x\<close> before the padding, and the width of an unknown directive, such as
  the one of a percent sign, is kept for the next one.
\<close>

definition printed :: "string \<Rightarrow> nat arg list \<Rightarrow> string" where
  "printed fmt args =
     (case aprint (\<lambda>_. None) \<lparr>al_grants = \<lambda>_. True, al_fill = \<lambda>_. NUL\<rparr> (\<lambda>_. NUL) \<lparr>bindex = 0, blength = 0, bdata = None\<rparr>
        (Some fmt) args of
      Inl _ \<Rightarrow> [] | Inr (_, b) \<Rightarrow> content b)"

lemma printf_departs:
  "printed ''%-5d.'' [ArgInt 42] = ''   42.''"
  "printed ''%05d'' [ArgInt (- 42)] = ''00-42''"
  "printed ''%#6X'' [ArgInt 171] = ''0x  AB''"
  "printed ''%%'' [] = ''%%''"
  "printed ''%3%%-c'' [ArgInt 65] = ''%%   A''"
  by code_simp+

end
