(* ===== verification/UnixPlatform.thy ===== *)
theory UnixPlatform
  imports Device
begin

text \<open>
  The desktop platforms (flint/src/platform/PlatformUnix, PlatformLinux, PlatformDarwin): an
  application is a process, a browser for a web application. Boost.Process is the parameter \<open>execute\<close>:
  the id of the new process, or none if it throws, given what was asked of the system before. The
  calls to the system are recorded. \<open>exists_file\<close> is the file system, \<open>uuid\<close> the id of the device.
\<close>

section \<open>Operations\<close>

datatype os_call = Executed nat "string list" | ExecuteFailed "string list" | Terminated nat | Waited nat

record unix_platform =
  ux_pid :: nat
  ux_browserPath :: string
  ux_os :: "os_call list"

definition new_PlatformUnix :: unix_platform where
  "new_PlatformUnix = \<lparr>ux_pid = 0, ux_browserPath = [], ux_os = []\<rparr>"

definition new_PlatformLinux :: "(string \<Rightarrow> bool) \<Rightarrow> unix_platform" where
  "new_PlatformLinux exists_file =
     (let chromePath = []
      in if exists_file chromePath then new_PlatformUnix\<lparr>ux_browserPath := chromePath\<rparr> else new_PlatformUnix)"

definition new_PlatformDarwin :: "(string \<Rightarrow> bool) \<Rightarrow> unix_platform" where
  "new_PlatformDarwin exists_file =
     (let chromePath = ''/Applications/Google Chrome.app/Contents/MacOS/Google Chrome''
      in if exists_file chromePath then new_PlatformUnix\<lparr>ux_browserPath := chromePath\<rparr> else new_PlatformUnix)"

definition execute_process :: "(os_call list \<Rightarrow> string list \<Rightarrow> nat option) \<Rightarrow> string list \<Rightarrow> unix_platform \<Rightarrow> unix_platform" where
  "execute_process execute args u =
     (case execute (ux_os u) args of
        None \<Rightarrow> u\<lparr>ux_pid := 0, ux_os := ux_os u @ [ExecuteFailed args]\<rparr>
      | Some pid \<Rightarrow> u\<lparr>ux_pid := pid, ux_os := ux_os u @ [Executed pid args]\<rparr>)"

definition browser_args :: "string \<Rightarrow> string \<Rightarrow> string \<Rightarrow> string list" where
  "browser_args browserPath uuid url =
     [browserPath, ''--no-default-browser-check'', ''--enable-logging'', ''--no-first-run'', ''--disable-Application-cache'',
      ''--disable-cache'', ''--enable-kiosk-mode'', ''--kiosk'', ''--start-maximized'', ''--window-size=1280,720'',
      ''--allow-insecure-websocket-from-https-origin'', ''--allow-running-insecure-content'',
      ''--user-data-dir=/tmp/'' @ uuid, ''--app='' @ url]"

definition unix_onLaunchWebApp ::
  "(os_call list \<Rightarrow> string list \<Rightarrow> nat option) \<Rightarrow> string \<Rightarrow> string \<Rightarrow> unix_platform \<Rightarrow> unix_platform" where
  "unix_onLaunchWebApp execute uuid url u =
     (if url = [] then u else execute_process execute (browser_args (ux_browserPath u) uuid url) u)"

definition unix_onLaunchNativeApp ::
  "(string \<Rightarrow> bool) \<Rightarrow> (os_call list \<Rightarrow> string list \<Rightarrow> nat option) \<Rightarrow> string \<Rightarrow> unix_platform \<Rightarrow> unix_platform" where
  "unix_onLaunchNativeApp exists_file execute app u =
     (if exists_file app then execute_process execute [app] u else u)"

definition stop_process :: "unix_platform \<Rightarrow> unix_platform" where
  "stop_process u =
     (if ux_pid u \<noteq> 0 then u\<lparr>ux_os := ux_os u @ [Terminated (ux_pid u), Waited (ux_pid u)], ux_pid := 0\<rparr> else u)"

definition unix_onStopWebApp :: "string \<Rightarrow> unix_platform \<Rightarrow> unix_platform" where
  "unix_onStopWebApp url u = stop_process u"

definition unix_onStopNativeApp :: "string \<Rightarrow> unix_platform \<Rightarrow> unix_platform" where
  "unix_onStopNativeApp app u = stop_process u"

text \<open>\<open>Platform::launchApplication\<close> and \<open>stopApplication\<close> over these handlers.\<close>

definition unix_launchApplication ::
  "(string \<Rightarrow> bool) \<Rightarrow> (os_call list \<Rightarrow> string list \<Rightarrow> nat option) \<Rightarrow> string \<Rightarrow> (string \<Rightarrow> json) \<Rightarrow> string \<Rightarrow> unix_platform
    \<Rightarrow> fault + bool \<times> unix_platform" where
  "unix_launchApplication exists_file execute uuid parse appInfo u =
     bindE (parseAppInfo parse appInfo) (\<lambda>url.
     if isWebApp url then Inr (True, unix_onLaunchWebApp execute uuid url u)
     else if isNativeApp url then Inr (True, unix_onLaunchNativeApp exists_file execute (ierase_first ''app:?'' url) u)
     else Inr (False, u))"

definition unix_stopApplication :: "(string \<Rightarrow> json) \<Rightarrow> string \<Rightarrow> unix_platform \<Rightarrow> fault + unix_platform" where
  "unix_stopApplication parse appInfo u =
     bindE (parseAppInfo parse appInfo) (\<lambda>url.
     if isWebApp url then Inr (unix_onStopWebApp url u)
     else if isNativeApp url then Inr (unix_onStopNativeApp (ierase_first ''app:?'' url) u)
     else Inr u)"

text \<open>The calls of the application manager.\<close>

fun unix_call ::
  "(string \<Rightarrow> bool) \<Rightarrow> (os_call list \<Rightarrow> string list \<Rightarrow> nat option) \<Rightarrow> string \<Rightarrow> (string \<Rightarrow> json) \<Rightarrow> unix_platform \<Rightarrow> platform_call
    \<Rightarrow> fault + unix_platform" where
  "unix_call exists_file execute uuid parse u (PlatLaunch i) =
     bindE (unix_launchApplication exists_file execute uuid parse i u) (\<lambda>(_, u). Inr u)"
| "unix_call exists_file execute uuid parse u (PlatStop i) = unix_stopApplication parse i u"

section \<open>The processes that are left\<close>

text \<open>The processes started and not ended since, with their arguments.\<close>

fun proc_step :: "(nat \<times> string list) list \<Rightarrow> os_call \<Rightarrow> (nat \<times> string list) list" where
  "proc_step L (Executed pid args) = L @ [(pid, args)]"
| "proc_step L (Terminated pid) = filter (\<lambda>(p, _). p \<noteq> pid) L"
| "proc_step L _ = L"

definition live :: "os_call list \<Rightarrow> (nat \<times> string list) list" where
  "live h = foldl proc_step [] h"

text \<open>The arguments an application is started with.\<close>

definition app_args :: "string \<Rightarrow> string \<Rightarrow> (string \<Rightarrow> json) \<Rightarrow> string \<Rightarrow> string list" where
  "app_args browserPath uuid parse i =
     (case parseAppInfo parse i of
        Inl _ \<Rightarrow> []
      | Inr url \<Rightarrow> if isWebApp url then browser_args browserPath uuid url else [ierase_first ''app:?'' url])"

definition runs_only :: "string \<Rightarrow> (string \<Rightarrow> json) \<Rightarrow> string option \<Rightarrow> unix_platform \<Rightarrow> bool" where
  "runs_only uuid parse app u \<longleftrightarrow>
     live (ux_os u) =
       (case app of
          None \<Rightarrow> []
        | Some i \<Rightarrow> if ux_pid u = 0 then [] else [(ux_pid u, app_args (ux_browserPath u) uuid parse i)])
   \<and> (app = None \<longrightarrow> ux_pid u = 0)"

text \<open>The id of a process is not zero.\<close>

definition process_ids :: "(os_call list \<Rightarrow> string list \<Rightarrow> nat option) \<Rightarrow> bool" where
  "process_ids execute \<longleftrightarrow> (\<forall>h args. execute h args \<noteq> Some 0)"

lemma live_snoc [simp]: "live (h @ [c]) = proc_step (live h) c" "live (h @ [c, d]) = proc_step (proc_step (live h) c) d"
  by (simp_all add: live_def)

lemma execute_runs:
  assumes "process_ids execute" and "runs_only uuid parse None u" and "args = app_args (ux_browserPath u) uuid parse i"
  shows "runs_only uuid parse (Some i) (execute_process execute args u)"
proof (cases "execute (ux_os u) args")
  case (Some pid)
  with assms(1) have "pid \<noteq> 0" unfolding process_ids_def by metis
  with Some assms(2,3) show ?thesis by (simp add: runs_only_def execute_process_def)
qed (use assms(2) in \<open>simp add: runs_only_def execute_process_def\<close>)

lemma unix_launch:
  assumes "process_ids execute" and "runs_only uuid parse None u" and "can_launch parse i"
  shows "\<exists>u'. unix_call exists_file execute uuid parse u (PlatLaunch i) = Inr u' \<and> runs_only uuid parse (Some i) u'"
proof -
  from assms(3) obtain url where url: "parseAppInfo parse i = Inr url" "isWebApp url \<or> isNativeApp url"
    by (auto simp: can_launch_def split: sum.splits)
  then have ne: "isWebApp url \<Longrightarrow> url \<noteq> []" by (auto simp: isWebApp_def starts_with_def)
  have idle: "runs_only uuid parse (Some i) u" using assms(2) by (auto simp: runs_only_def)
  show ?thesis
    using url ne idle execute_runs [where execute = execute and i = i, OF assms(1,2)]
    by (auto simp: unix_launchApplication_def unix_onLaunchWebApp_def unix_onLaunchNativeApp_def app_args_def)
qed

lemma unix_stop:
  assumes "runs_only uuid parse (Some i) u" and "can_launch parse i"
  shows "\<exists>u'. unix_call exists_file execute uuid parse u (PlatStop i) = Inr u' \<and> runs_only uuid parse None u'"
proof -
  from assms(2) obtain url where "parseAppInfo parse i = Inr url" "isWebApp url \<or> isNativeApp url"
    by (auto simp: can_launch_def split: sum.splits)
  moreover have "runs_only uuid parse None (stop_process u)" using assms(1) by (auto simp: runs_only_def stop_process_def)
  ultimately show ?thesis by (auto simp: unix_stopApplication_def unix_onStopWebApp_def unix_onStopNativeApp_def)
qed

interpretation desktop: app_platform "unix_call exists_file execute uuid parse"
    "\<lambda>app u. process_ids execute \<and> runs_only uuid parse app u" "can_launch parse" for exists_file execute uuid parse
proof unfold_locales
  fix i u assume i: "can_launch parse i"
  show "\<exists>u'. unix_call exists_file execute uuid parse u (PlatLaunch i) = Inr u' \<and> process_ids execute \<and> runs_only uuid parse (Some i) u'"
    if "process_ids execute \<and> runs_only uuid parse None u" for u
    using unix_launch [where execute = execute and u = u, OF _ _ i] that by blast
  show "\<exists>u'. unix_call exists_file execute uuid parse u (PlatStop i) = Inr u' \<and> process_ids execute \<and> runs_only uuid parse None u'"
    if "process_ids execute \<and> runs_only uuid parse (Some i) u" for u
    using unix_stop [where u = u, OF _ i] that by blast
qed


text \<open>
  On Linux the path of the browser is empty, whatever is installed, so a browser is asked for by the
  empty name.
\<close>

lemma linux_without_browser:
  "unix_onLaunchWebApp execute uuid url (new_PlatformLinux exists_file) =
    (if url = [] then new_PlatformLinux exists_file
     else execute_process execute ([] # tl (browser_args [] uuid url)) (new_PlatformLinux exists_file))"
  by (simp add: unix_onLaunchWebApp_def new_PlatformLinux_def new_PlatformUnix_def browser_args_def)


end
