(* ===== verification/Logging.thy ===== *)
theory Logging
  imports Numbers
begin

text \<open>
  The log lines (flint/src/utils/LogStream, Logging): numbers are written straight into a fixed buffer
  of 4000 characters, texts are copied, and what does not fit is left out. \<open>junk\<close> is what the buffer
  holds when it is made, \<open>snprintf\<close> with \<open>%.12g\<close> is the parameter \<open>ftoa\<close>.
\<close>

section \<open>Numbers\<close>

definition log_digits :: string where
  "log_digits = ''9876543210123456789'' @ [NUL]"

definition digitsHex :: string where
  "digitsHex = ''0123456789ABCDEF'' @ [NUL]"

text \<open>\<open>zero\<close> points to the tenth of \<open>digits\<close>; the remainder of a negative number is negative.\<close>

function convert_loop :: "int \<Rightarrow> int \<Rightarrow> string \<Rightarrow> fault + int \<times> string" where
  "convert_loop i p m =
     bindE (mem_get log_digits (9 + i smod 10)) (\<lambda>c.
     bindE (mem_set m p c) (\<lambda>m.
     if i sdiv 10 \<noteq> 0 then convert_loop (i sdiv 10) (p + 1) m else Inr (p + 1, m)))"
  by pat_completeness auto
termination
  by (relation "measure (\<lambda>(i, p, m). nat (int (length m) - p))") (auto simp: mem_set_def split: if_splits)

function hex_loop :: "nat \<Rightarrow> int \<Rightarrow> string \<Rightarrow> fault + int \<times> string" where
  "hex_loop i p m =
     bindE (mem_get digitsHex (int (i mod 16))) (\<lambda>c.
     bindE (mem_set m p c) (\<lambda>m.
     if i div 16 \<noteq> 0 then hex_loop (i div 16) (p + 1) m else Inr (p + 1, m)))"
  by pat_completeness auto
termination
  by (relation "measure (\<lambda>(i, p, m). nat (int (length m) - p))") (auto simp: mem_set_def split: if_splits)

declare convert_loop.simps [simp del] hex_loop.simps [simp del]

definition mem_reverse :: "string \<Rightarrow> int \<Rightarrow> int \<Rightarrow> fault + string" where
  "mem_reverse m i j = bindE (mem_slice m i (j - i)) (\<lambda>xs. mem_blit m i (rev xs))"

definition convert :: "string \<Rightarrow> int \<Rightarrow> int \<Rightarrow> fault + int \<times> string" where
  "convert m buf value =
     bindE (convert_loop value buf m) (\<lambda>(p, m).
     bindE (if value < 0 then bindE (mem_set m p CHR ''-'') (\<lambda>m. Inr (p + 1, m)) else Inr (p, m)) (\<lambda>(p, m).
     bindE (mem_set m p NUL) (\<lambda>m.
     bindE (mem_reverse m buf p) (\<lambda>m. Inr (p - buf, m)))))"

definition convertHex :: "string \<Rightarrow> int \<Rightarrow> 64 word \<Rightarrow> fault + int \<times> string" where
  "convertHex m buf value =
     bindE (hex_loop (unat value) buf m) (\<lambda>(p, m).
     bindE (mem_set m p NUL) (\<lambda>m.
     bindE (mem_reverse m buf p) (\<lambda>m. Inr (p - buf, m))))"

section \<open>The buffer\<close>

definition kSmallBuffer :: int where "kSmallBuffer = 4000"
definition kMaxNumericSize :: int where "kMaxNumericSize = 32"

record fixed_buffer =
  fb_data :: string
  fb_cur :: int

definition new_FixedBuffer :: "string \<Rightarrow> fixed_buffer" where
  "new_FixedBuffer junk = \<lparr>fb_data = junk, fb_cur = 0\<rparr>"

definition avail :: "fixed_buffer \<Rightarrow> int" where
  "avail b = kSmallBuffer - fb_cur b"

text \<open>The space left is compared as a \<open>size_t\<close>.\<close>

definition fb_append :: "string \<Rightarrow> int \<Rightarrow> fixed_buffer \<Rightarrow> fault + fixed_buffer" where
  "fb_append buf len b =
     (if avail b mod 2 ^ 64 > len then
        bindE (mem_slice buf 0 len) (\<lambda>xs.
        bindE (mem_blit (fb_data b) (fb_cur b) xs) (\<lambda>m.
        Inr (b\<lparr>fb_data := m, fb_cur := fb_cur b + len\<rparr>)))
      else Inr b)"

definition fb_add :: "int \<Rightarrow> fixed_buffer \<Rightarrow> fixed_buffer" where
  "fb_add len b = b\<lparr>fb_cur := fb_cur b + len\<rparr>"

definition fb_toString :: "fixed_buffer \<Rightarrow> string" where
  "fb_toString b = take (nat (fb_cur b)) (fb_data b)"

section \<open>The stream\<close>

text \<open>
  What the overloads of \<open>operator<<\<close> take: the integers of up to 64 bits, signed or not, a pointer, a
  \<open>double\<close>, a \<open>char\<close>, a C string and a text with its length, such as a \<open>std::string\<close>.
\<close>

datatype 'd log_item = LBool bool | LSigned "64 word" | LUnsigned "64 word" | LPointer "64 word" | LDouble 'd
  | LChar char | LCStr string | LText string

definition formatInteger :: "int \<Rightarrow> fixed_buffer \<Rightarrow> fault + fixed_buffer" where
  "formatInteger v b =
     (if avail b \<ge> kMaxNumericSize then
        bindE (convert (fb_data b) (fb_cur b) v) (\<lambda>(len, m). Inr (fb_add len (b\<lparr>fb_data := m\<rparr>)))
      else Inr b)"

definition put_pointer :: "64 word \<Rightarrow> fixed_buffer \<Rightarrow> fault + fixed_buffer" where
  "put_pointer v b =
     (if avail b \<ge> kMaxNumericSize then
        bindE (mem_set (fb_data b) (fb_cur b) CHR ''0'') (\<lambda>m.
        bindE (mem_set m (fb_cur b + 1) CHR ''x'') (\<lambda>m.
        bindE (convertHex m (fb_cur b + 2) v) (\<lambda>(len, m). Inr (fb_add (len + 2) (b\<lparr>fb_data := m\<rparr>)))))
      else Inr b)"

definition put_double :: "('d \<Rightarrow> string) \<Rightarrow> 'd \<Rightarrow> fixed_buffer \<Rightarrow> fault + fixed_buffer" where
  "put_double ftoa v b =
     (if avail b \<ge> kMaxNumericSize then
        bindE (mem_blit (fb_data b) (fb_cur b) (take (nat kMaxNumericSize - 1) (ftoa v) @ [NUL])) (\<lambda>m.
        Inr (fb_add (int (length (ftoa v))) (b\<lparr>fb_data := m\<rparr>)))
      else Inr b)"

fun put_item :: "('d \<Rightarrow> string) \<Rightarrow> fixed_buffer \<Rightarrow> 'd log_item \<Rightarrow> fault + fixed_buffer" where
  "put_item ftoa b (LBool v) = fb_append (if v then ''1'' else ''0'') 1 b"
| "put_item ftoa b (LSigned v) = formatInteger (sint v) b"
| "put_item ftoa b (LUnsigned v) = formatInteger (uint v) b"
| "put_item ftoa b (LPointer v) = put_pointer v b"
| "put_item ftoa b (LDouble v) = put_double ftoa v b"
| "put_item ftoa b (LChar c) = fb_append [c] 1 b"
| "put_item ftoa b (LCStr t) = bindE (strlen (c_str t)) (\<lambda>n. fb_append (c_str t) n b)"
| "put_item ftoa b (LText t) = fb_append (c_str t) (int (length t)) b"

section \<open>Log lines\<close>

datatype log_level = TRACE | DEBUG | INFO | WARN | ERROR | FATAL

fun log_levelName :: "log_level \<Rightarrow> string" where
  "log_levelName TRACE = CHR 0x1B # ''[;37mTRACE ''"
| "log_levelName DEBUG = CHR 0x1B # ''[;34mDEBUG ''"
| "log_levelName INFO = CHR 0x1B # ''[;32mINFO  ''"
| "log_levelName WARN = CHR 0x1B # ''[;33mWARN  ''"
| "log_levelName ERROR = CHR 0x1B # ''[;35mERROR ''"
| "log_levelName FATAL = CHR 0x1B # ''[;31mFATAL ''"

text \<open>The name of a source file behind its last slash.\<close>

definition SourceFile :: "string \<Rightarrow> string" where
  "SourceFile filename = rev (takeWhile (\<lambda>c. c \<noteq> CHR ''/'') (rev filename))"

text \<open>A logger from its construction to \<open>finish\<close>: the level, the function if it is named, the items and the place.\<close>

definition log_begin :: "log_level \<Rightarrow> string option \<Rightarrow> 'd log_item list" where
  "log_begin level func = LText (log_levelName level) # (case func of None \<Rightarrow> [] | Some f \<Rightarrow> [LCStr f, LChar CHR '' ''])"

definition log_finish :: "string \<Rightarrow> 32 word \<Rightarrow> 'd log_item list" where
  "log_finish file line =
     [LCStr '' - '', LText (SourceFile file), LChar CHR '':'', LSigned (scast line), LCStr (CHR 0x1B # ''[0m''), LChar (CHR 0x0A)]"

definition log_buffer ::
  "('d \<Rightarrow> string) \<Rightarrow> string \<Rightarrow> log_level \<Rightarrow> string option \<Rightarrow> string \<Rightarrow> 32 word \<Rightarrow> 'd log_item list \<Rightarrow> fault + fixed_buffer" where
  "log_buffer ftoa junk level func file line items =
     foldE (put_item ftoa) (new_FixedBuffer junk) (log_begin level func @ items @ log_finish file line)"

text \<open>The end of a logger: on a desktop the line goes to the standard output, and a fatal one aborts.\<close>

definition log_line ::
  "('d \<Rightarrow> string) \<Rightarrow> string \<Rightarrow> log_level \<Rightarrow> string option \<Rightarrow> string \<Rightarrow> 32 word \<Rightarrow> 'd log_item list \<Rightarrow> fault + string \<times> bool" where
  "log_line ftoa junk level func file line items =
     bindE (log_buffer ftoa junk level func file line items) (\<lambda>b. Inr (fb_toString b, level = FATAL))"

text \<open>On Android and Firefox OS the buffer itself is handed over as a C string, if logging is enabled.\<close>

definition log_line_android ::
  "bool \<Rightarrow> ('d \<Rightarrow> string) \<Rightarrow> string \<Rightarrow> log_level \<Rightarrow> string option \<Rightarrow> string \<Rightarrow> 32 word \<Rightarrow> 'd log_item list
    \<Rightarrow> fault + string option" where
  "log_line_android DEBUG_FLAG ftoa junk level func file line items =
     bindE (log_buffer ftoa junk level func file line items) (\<lambda>b.
     if DEBUG_FLAG then bindE (strlen (fb_data b)) (\<lambda>n. Inr (Some (take (nat n) (fb_data b)))) else Inr None)"

section \<open>Numbers are written as they read\<close>

lemma log_digits_get:
  assumes "\<bar>l\<bar> < 10"
  shows "mem_get log_digits (9 + l) = Inr (digit_char (nat \<bar>l\<bar>))"
proof -
  have "\<forall>l \<in> set [- 9..9]. mem_get log_digits (9 + l) = Inr (digit_char (nat \<bar>l\<bar>))" by code_simp
  moreover have "l \<in> set [- 9..9]" using assms by (simp only: set_upto atLeastAtMost_iff) arith
  ultimately show ?thesis by (rule bspec)
qed

lemma smod_abs: "nat \<bar>i smod 10\<bar> = nat \<bar>i\<bar> mod 10" "nat \<bar>i sdiv 10\<bar> = nat \<bar>i\<bar> div 10" for i :: int
  by (simp_all add: signed_modulo_int_def signed_divide_int_def abs_mult nat_mod_distrib nat_div_distrib sgn_if)

lemma convert_loop_spec:
  assumes "p + length (digits_of 10 (nat \<bar>i\<bar>)) \<le> length m"
  shows "convert_loop i (int p) m =
    Inr (int (p + length (digits_of 10 (nat \<bar>i\<bar>))),
      take p m @ rev (digits_of 10 (nat \<bar>i\<bar>)) @ drop (p + length (digits_of 10 (nat \<bar>i\<bar>))) m)"
  using assms
proof (induction "nat \<bar>i\<bar>" arbitrary: i p m rule: less_induct)
  case less
  let ?n = "nat \<bar>i\<bar>"
  have "\<bar>i smod 10\<bar> < 10" by (simp add: signed_modulo_int_def abs_mult sgn_if)
  from log_digits_get [OF this] have d: "mem_get log_digits (9 + i smod 10) = Inr (digit_char (?n mod 10))"
    unfolding smod_abs .
  have int_Suc: "int (Suc p) = int p + 1" by simp
  have z: "i sdiv 10 = 0 \<longleftrightarrow> ?n div 10 = 0" unfolding smod_abs(2) [symmetric] by simp
  have step: "convert_loop i (int p) m = bindE (mem_set m (int p) (digit_char (?n mod 10))) (\<lambda>m.
      if ?n div 10 \<noteq> 0 then convert_loop (i sdiv 10) (int (Suc p)) m else Inr (int (Suc p), m))"
    unfolding convert_loop.simps [of i "int p" m] d bindE_simps z int_Suc [symmetric] ..
  have p: "p < length m" using less.prems by (cases "digits_of 10 ?n") auto
  then have s: "mem_set m (int p) c = Inr (take p m @ c # drop (Suc p) m)" for c by (simp add: upd_conv_take_nth_drop)
  show ?case
  proof (cases "?n < 10")
    case True
    then show ?thesis unfolding step s by (simp add: digits_of.simps [of 10 ?n])
  next
    case False
    have ds: "digits_of 10 ?n = digits_of 10 (?n div 10) @ [digit_char (?n mod 10)]"
      using False by (simp add: digits_of.simps [of 10 ?n])
    have lt: "nat \<bar>i sdiv 10\<bar> < ?n" unfolding smod_abs using False by simp
    have "convert_loop (i sdiv 10) (int (Suc p)) (take p m @ digit_char (?n mod 10) # drop (Suc p) m) =
      Inr (int (Suc p + length (digits_of 10 (?n div 10))),
        take (Suc p) (take p m @ digit_char (?n mod 10) # drop (Suc p) m) @ rev (digits_of 10 (?n div 10))
          @ drop (Suc p + length (digits_of 10 (?n div 10))) (take p m @ digit_char (?n mod 10) # drop (Suc p) m))"
      using less.hyps [OF lt, of "Suc p" "take p m @ digit_char (?n mod 10) # drop (Suc p) m"] less.prems p
      unfolding smod_abs ds by simp
    moreover have "?n div 10 \<noteq> 0" using False by simp
    ultimately show ?thesis unfolding step s ds using p by (simp add: ac_simps)
  qed
qed

lemma digitsHex_DIGITS: "digitsHex = DIGITS"
  by (simp add: digitsHex_def DIGITS_def)

lemma hex_loop_spec:
  assumes "p + length (digits_of 16 n) \<le> length m"
  shows "hex_loop n (int p) m =
    Inr (int (p + length (digits_of 16 n)), take p m @ rev (digits_of 16 n) @ drop (p + length (digits_of 16 n)) m)"
  using assms
proof (induction n arbitrary: p m rule: less_induct)
  case (less n)
  have d: "mem_get digitsHex (int (n mod 16)) = Inr (digit_char (n mod 16))"
    unfolding digitsHex_DIGITS by (rule DIGITS_digit) simp
  have p: "p < length m" using less.prems by (cases "digits_of 16 n") auto
  then have s: "mem_set m (int p) c = Inr (take p m @ c # drop (Suc p) m)" for c by (simp add: upd_conv_take_nth_drop)
  have step: "hex_loop n (int p) m = (let m = take p m @ digit_char (n mod 16) # drop (Suc p) m
      in if n div 16 \<noteq> 0 then hex_loop (n div 16) (int (Suc p)) m else Inr (int (Suc p), m))"
    unfolding hex_loop.simps [of n] d s bindE_simps Let_def by (simp add: algebra_simps)
  show ?case
  proof (cases "n < 16")
    case True
    then show ?thesis unfolding step by (simp add: digits_of.simps [of 16 n])
  next
    case False
    have ds: "digits_of 16 n = digits_of 16 (n div 16) @ [digit_char (n mod 16)]"
      using False by (simp add: digits_of.simps [of 16 n])
    have "n div 16 < n" "n div 16 \<noteq> 0" using False by simp_all
    then show ?thesis
      unfolding step ds using less.IH [of "n div 16" "Suc p" "take p m @ digit_char (n mod 16) # drop (Suc p) m"] less.prems p
      by (simp add: ds ac_simps)
  qed
qed

lemma reverse_between:
  "mem_reverse (xs @ rev ys @ zs) (int (length xs)) (int (length xs + length ys)) = Inr (xs @ ys @ zs)"
proof -
  have "mem_slice (xs @ rev ys @ zs) (int (length xs)) (int (length ys)) = Inr (rev ys)" by simp
  moreover have "mem_blit (xs @ rev ys @ zs) (int (length xs)) ys = Inr (xs @ ys @ zs)" by simp
  ultimately show ?thesis by (simp add: mem_reverse_def)
qed

lemma mem_set_middle: "k = length xs \<Longrightarrow> mem_set (xs @ c # ys) (int k) d = Inr (xs @ d # ys)"
  by simp

lemma convert_spec:
  assumes "p + length (show_int v) < length m"
  shows "convert m (int p) v = Inr (int (length (show_int v)), take p m @ show_int v @ NUL # drop (p + length (show_int v) + 1) m)"
proof -
  let ?ds = "digits_of 10 (nat \<bar>v\<bar>)"
  have l: "length (show_int v) = length ?ds + (if v < 0 then 1 else 0)" by (simp add: show_int_def show_nat_def)
  have loop: "convert_loop v (int p) m = Inr (int (p + length ?ds), take p m @ rev ?ds @ drop (p + length ?ds) m)"
    using assms l by (intro convert_loop_spec) simp
  let ?m = "take p m @ rev (show_int v) @ drop (p + length (show_int v)) m"
  have sign: "bindE (Inr (int (p + length ?ds), take p m @ rev ?ds @ drop (p + length ?ds) m))
      (\<lambda>(p, m). if v < 0 then bindE (mem_set m p CHR ''-'') (\<lambda>m. Inr (p + 1, m)) else Inr (p, m))
    = Inr (int (p + length (show_int v)), ?m)"
  proof (cases "v < 0")
    case True
    let ?q = "p + length ?ds"
    have "drop ?q m = m ! ?q # drop (Suc ?q) m" using assms l True by (intro Cons_nth_drop_Suc [symmetric]) simp
    moreover have "?q = length (take p m @ rev ?ds)" using assms l by simp
    ultimately have "mem_set (take p m @ rev ?ds @ drop ?q m) (int ?q) CHR ''-'' = Inr (take p m @ rev ?ds @ CHR ''-'' # drop (Suc ?q) m)"
      using mem_set_middle [of ?q "take p m @ rev ?ds"] by simp
    with True show ?thesis unfolding bindE_simps split_conv by (simp add: show_int_def show_nat_def)
  qed (simp add: show_int_def show_nat_def)
  have "mem_set ?m (int (p + length (show_int v))) NUL
      = Inr (take p m @ rev (show_int v) @ NUL # drop (p + length (show_int v) + 1) m)"
  proof -
    let ?q = "p + length (show_int v)"
    have "drop ?q m = m ! ?q # drop (Suc ?q) m" using assms by (intro Cons_nth_drop_Suc [symmetric]) simp
    then show ?thesis using mem_set_middle [of ?q "take p m @ rev (show_int v)"] assms by simp
  qed
  moreover have "mem_reverse (take p m @ rev (show_int v) @ NUL # drop (p + length (show_int v) + 1) m) (int p) (int (p + length (show_int v)))
      = Inr (take p m @ show_int v @ NUL # drop (p + length (show_int v) + 1) m)"
    using reverse_between [of "take p m" "show_int v"] assms by simp
  ultimately show ?thesis using loop sign by (simp add: convert_def)
qed

lemma convertHex_spec:
  assumes "p + length (digits_of 16 (unat v)) < length m"
  shows "convertHex m (int p) v = Inr (int (length (digits_of 16 (unat v))),
    take p m @ digits_of 16 (unat v) @ NUL # drop (p + length (digits_of 16 (unat v)) + 1) m)"
proof -
  let ?ds = "digits_of 16 (unat v)"
  let ?q = "p + length ?ds"
  have "hex_loop (unat v) (int p) m = Inr (int ?q, take p m @ rev ?ds @ drop ?q m)"
    using assms by (intro hex_loop_spec) simp
  moreover have "drop ?q m = m ! ?q # drop (Suc ?q) m" using assms by (intro Cons_nth_drop_Suc [symmetric]) simp
  then have "mem_set (take p m @ rev ?ds @ drop ?q m) (int ?q) NUL = Inr (take p m @ rev ?ds @ NUL # drop (?q + 1) m)"
    using mem_set_middle [of ?q "take p m @ rev ?ds"] assms by simp
  moreover have "mem_reverse (take p m @ rev ?ds @ NUL # drop (?q + 1) m) (int p) (int ?q) = Inr (take p m @ ?ds @ NUL # drop (?q + 1) m)"
    using reverse_between [of "take p m" ?ds] assms by simp
  ultimately show ?thesis by (simp add: convertHex_def)
qed

section \<open>The buffer holds what fits\<close>

text \<open>A number is written if there are 32 characters left, a text if there is more room than it needs.\<close>

fun shown :: "('d \<Rightarrow> string) \<Rightarrow> 'd log_item \<Rightarrow> string" where
  "shown ftoa (LBool v) = (if v then ''1'' else ''0'')"
| "shown ftoa (LSigned v) = show_int (sint v)"
| "shown ftoa (LUnsigned v) = show_nat (unat v)"
| "shown ftoa (LPointer v) = ''0x'' @ digits_of 16 (unat v)"
| "shown ftoa (LDouble d) = ftoa d"
| "shown ftoa (LChar c) = [c]"
| "shown ftoa (LCStr t) = cstr t"
| "shown ftoa (LText t) = t"

fun is_number :: "'d log_item \<Rightarrow> bool" where
  "is_number (LSigned v) = True" | "is_number (LUnsigned v) = True" | "is_number (LPointer v) = True"
| "is_number (LDouble d) = True" | "is_number _ = False"

definition log_put :: "('d \<Rightarrow> string) \<Rightarrow> string \<Rightarrow> 'd log_item \<Rightarrow> string" where
  "log_put ftoa c x =
     (if length c + (if is_number x then 31 else length (shown ftoa x)) < 4000 then c @ shown ftoa x else c)"

definition holds :: "fixed_buffer \<Rightarrow> string \<Rightarrow> bool" where
  "holds b c \<longleftrightarrow> length (fb_data b) = 4000 \<and> fb_cur b = int (length c) \<and> length c < 4000 \<and> take (length c) (fb_data b) = c"

lemma holds_new: "length junk = 4000 \<Longrightarrow> holds (new_FixedBuffer junk) []"
  by (simp add: holds_def new_FixedBuffer_def)

lemma holds_toString: "holds b c \<Longrightarrow> fb_toString b = c"
  by (simp add: holds_def fb_toString_def)

lemma avail_holds: "holds b c \<Longrightarrow> avail b = int (4000 - length c)"
  by (simp add: holds_def avail_def kSmallBuffer_def)

lemma append_holds:
  assumes h: "holds b c" and "length t \<le> length buf" and "take (length t) buf = t"
  shows "\<exists>b'. fb_append buf (int (length t)) b = Inr b' \<and> holds b' (if length c + length t < 4000 then c @ t else c)"
proof -
  have a: "avail b mod 2 ^ 64 = int (4000 - length c)" unfolding avail_holds [OF h] by simp
  have fit: "int (4000 - length c) > int (length t) \<longleftrightarrow> length c + length t < 4000" using h by (auto simp: holds_def)
  show ?thesis
  proof (cases "length c + length t < 4000")
    case True
    have "mem_slice buf 0 (int (length t)) = Inr t" using assms(2,3) by (simp add: mem_slice_def)
    moreover have "mem_blit (fb_data b) (fb_cur b) t = Inr (c @ t @ drop (length c + length t) (fb_data b))"
      using h True by (simp add: holds_def)
    ultimately show ?thesis using True h unfolding fb_append_def a fit by (simp add: holds_def)
  next
    case False
    then show ?thesis unfolding fb_append_def a fit using h by simp
  qed
qed

lemma number_holds:
  assumes h: "holds b c" and l: "length t \<le> 31" and n: "length c + 31 < 4000"
  shows "holds (fb_add (int (length t)) (b\<lparr>fb_data := take (length c) (fb_data b) @ t @ NUL # drop (length c + length t + 1) (fb_data b)\<rparr>)) (c @ t)"
  using assms by (simp add: holds_def fb_add_def)

lemma length_show_int: "- (2 ^ 63) \<le> v \<Longrightarrow> v < 2 ^ 64 \<Longrightarrow> length (show_int v) \<le> 31"
proof -
  assume v: "- (2 ^ 63) \<le> v" "v < 2 ^ 64"
  then have "nat \<bar>v\<bar> < 10 ^ Suc 19" by simp
  then have "length (digits_of 10 (nat \<bar>v\<bar>)) \<le> Suc 19" by (subst length_digits) simp_all
  then show ?thesis by (cases "v < 0") (simp_all add: show_int_def show_nat_def)
qed

lemma integer_holds:
  assumes h: "holds b c" and v: "- (2 ^ 63) \<le> v" "v < 2 ^ 64"
  shows "\<exists>b'. formatInteger v b = Inr b' \<and> holds b' (if length c + 31 < 4000 then c @ show_int v else c)"
proof (cases "length c + 31 < 4000")
  case True
  have l: "length (show_int v) \<le> 31" using length_show_int [OF v] .
  have "convert (fb_data b) (fb_cur b) v = Inr (int (length (show_int v)),
      take (length c) (fb_data b) @ show_int v @ NUL # drop (length c + length (show_int v) + 1) (fb_data b))"
    using convert_spec [of "length c" v "fb_data b"] h l True by (simp add: holds_def)
  moreover have "avail b \<ge> kMaxNumericSize" using True unfolding avail_holds [OF h] kMaxNumericSize_def by simp
  ultimately show ?thesis using number_holds [OF h l True] True by (simp add: formatInteger_def)
qed (use h avail_holds [OF h] in \<open>simp add: formatInteger_def kMaxNumericSize_def holds_def\<close>)

lemma pointer_holds:
  assumes h: "holds b c"
  shows "\<exists>b'. put_pointer v b = Inr b' \<and> holds b' (if length c + 31 < 4000 then c @ ''0x'' @ digits_of 16 (unat v) else c)"
proof (cases "length c + 31 < 4000")
  case True
  let ?ds = "digits_of 16 (unat v)" and ?p = "length c"
  have "unat v < 16 ^ Suc 15" using unsigned_less [of v, where ?'a = nat] by simp
  then have "length ?ds \<le> Suc 15" by (subst length_digits) simp_all
  then have l: "length (''0x'' @ ?ds) \<le> 31" by simp
  have d: "length (fb_data b) = 4000" "fb_cur b = int ?p" using h by (simp_all add: holds_def)
  let ?m = "(fb_data b)[?p := CHR ''0'', Suc ?p := CHR ''x'']"
  have m: "bindE (mem_set (fb_data b) (fb_cur b) CHR ''0'') (\<lambda>m. mem_set m (fb_cur b + 1) CHR ''x'') = Inr ?m"
    using d True by (simp add: mem_set_def nat_add_distrib)
  have t: "take (?p + 2) ?m = take ?p (fb_data b) @ ''0x''"
    using d True by (simp add: take_Suc_conv_app_nth)
  have "convertHex ?m (int (?p + 2)) v = Inr (int (length ?ds), take (?p + 2) ?m @ ?ds @ NUL # drop (?p + 2 + length ?ds + 1) ?m)"
    using d l True by (intro convertHex_spec) simp
  then have x: "convertHex ?m (fb_cur b + 2) v = Inr (int (length ?ds),
      take ?p (fb_data b) @ (''0x'' @ ?ds) @ NUL # drop (?p + length (''0x'' @ ?ds) + 1) (fb_data b))"
    unfolding t using d by (simp add: ac_simps)
  have "avail b \<ge> kMaxNumericSize" using True unfolding avail_holds [OF h] kMaxNumericSize_def by simp
  with m x number_holds [OF h l True] True show ?thesis
    by (simp add: put_pointer_def bindE_assoc [symmetric] add.commute [of _ "2 :: int"])
qed (use h avail_holds [OF h] in \<open>simp add: put_pointer_def kMaxNumericSize_def holds_def\<close>)

lemma double_holds:
  assumes h: "holds b c" and l: "length (ftoa v) \<le> 31"
  shows "\<exists>b'. put_double ftoa v b = Inr b' \<and> holds b' (if length c + 31 < 4000 then c @ ftoa v else c)"
proof (cases "length c + 31 < 4000")
  case True
  have "mem_blit (fb_data b) (fb_cur b) (ftoa v @ [NUL]) =
      Inr (take (length c) (fb_data b) @ (ftoa v @ [NUL]) @ drop (length c + length (ftoa v @ [NUL])) (fb_data b))"
    using h l True by (simp add: holds_def)
  moreover have "avail b \<ge> kMaxNumericSize" using True unfolding avail_holds [OF h] kMaxNumericSize_def by simp
  ultimately show ?thesis using number_holds [OF h l True] True l by (simp add: put_double_def kMaxNumericSize_def)
qed (use h avail_holds [OF h] in \<open>simp add: put_double_def kMaxNumericSize_def holds_def\<close>)

lemma item_holds:
  assumes h: "holds b c" and ftoa: "\<forall>d. length (ftoa d) \<le> 31"
  shows "\<exists>b'. put_item ftoa b x = Inr b' \<and> holds b' (log_put ftoa c x)"
proof (cases x)
  case (LBool v)
  then show ?thesis using append_holds [OF h, of "if v then ''1'' else ''0''"] by (auto simp: log_put_def)
next
  case (LSigned v)
  have "sint v < 2 ^ 63" "- (2 ^ 63) \<le> sint v" using sint_lt [of v] sint_ge [of v] by simp_all
  then show ?thesis using integer_holds [OF h, of "sint v"] LSigned by (auto simp: log_put_def)
next
  case (LUnsigned v)
  have "uint v < 2 ^ 64" using unsigned_less [of v, where ?'a = int] by simp
  moreover have "- (2 ^ 63) \<le> uint v" by (rule order_trans [OF _ uint_ge_0]) simp
  ultimately show ?thesis using integer_holds [OF h, of "uint v"] LUnsigned by (auto simp: log_put_def show_int_def)
next
  case (LPointer v)
  then show ?thesis using pointer_holds [OF h, of v] by (auto simp: log_put_def)
next
  case (LDouble d)
  then show ?thesis using double_holds [OF h, of ftoa d] ftoa by (auto simp: log_put_def)
next
  case (LChar k)
  then show ?thesis using append_holds [OF h, of "[k]" "[k]"] by (auto simp: log_put_def)
next
  case (LCStr t)
  then show ?thesis using append_holds [OF h, of "cstr t" "c_str t"] by (auto simp: log_put_def)
next
  case (LText t)
  then show ?thesis using append_holds [OF h, of t "c_str t"] by (auto simp: log_put_def c_str_def)
qed

lemma items_hold:
  assumes ftoa: "\<forall>d. length (ftoa d) \<le> 31"
  shows "holds b c \<Longrightarrow> \<exists>b'. foldE (put_item ftoa) b xs = Inr b' \<and> holds b' (foldl (log_put ftoa) c xs)"
proof (induction xs arbitrary: b c)
  case (Cons x xs)
  obtain b1 where "put_item ftoa b x = Inr b1" "holds b1 (log_put ftoa c x)" using item_holds [OF Cons.prems ftoa] by blast
  with Cons.IH show ?case by simp
qed simp

lemma all_fit:
  "length c + length (concat (map (shown ftoa) xs)) + 31 < 4000 \<Longrightarrow> foldl (log_put ftoa) c xs = c @ concat (map (shown ftoa) xs)"
  by (induction xs arbitrary: c) (auto simp: log_put_def)

text \<open>
  C19. A log stream takes any items in any order without ever writing outside its buffer; it holds, one
  after another, the texts of the items that fit: a number if 32 characters are left, a text if it is
  shorter than the space. \<open>snprintf\<close> with \<open>%.12g\<close> is taken to need fewer than 32 characters.
\<close>

theorem log_stream_bounded:
  assumes "\<forall>d. length (ftoa d) \<le> 31" and "length junk = 4000"
  shows "\<exists>b. foldE (put_item ftoa) (new_FixedBuffer junk) xs = Inr b
    \<and> fb_toString b = foldl (log_put ftoa) [] xs \<and> length (fb_data b) = 4000"
  using items_hold [OF assms(1) holds_new [OF assms(2)], of xs] holds_toString by (auto simp: holds_def)

theorem log_stream_bounded_witness:
  "\<exists>b. foldE (put_item (\<lambda>d :: nat. ''1.5'')) (new_FixedBuffer (replicate 4000 NUL))
      [LCStr ''x='', LSigned (- 42), LText (replicate 3996 CHR ''a''), LChar CHR '','', LDouble 3] = Inr b
    \<and> fb_toString b = ''x=-42,1.5''"
proof -
  have s: "sint (- 42 :: 64 word) = - 42" "show_int (- 42) = ''-42''" "cstr ''x='' = ''x=''" by code_simp+
  then have "foldl (log_put (\<lambda>d :: nat. ''1.5'')) []
      [LCStr ''x='', LSigned (- 42), LText (replicate 3996 CHR ''a''), LChar CHR '','', LDouble 3] = ''x=-42,1.5''"
    by (simp add: log_put_def)
  with log_stream_bounded [of "\<lambda>d :: nat. ''1.5''" "replicate 4000 NUL"
      "[LCStr ''x='', LSigned (- 42), LText (replicate 3996 CHR ''a''), LChar CHR '','', LDouble 3]"]
  show ?thesis by auto
qed

section \<open>Whole lines\<close>

definition log_text :: "('d \<Rightarrow> string) \<Rightarrow> log_level \<Rightarrow> string option \<Rightarrow> string \<Rightarrow> 32 word \<Rightarrow> 'd log_item list \<Rightarrow> string" where
  "log_text ftoa level func file line items =
     log_levelName level @ (case func of None \<Rightarrow> [] | Some f \<Rightarrow> cstr f @ '' '') @ concat (map (shown ftoa) items)
       @ '' - '' @ SourceFile file @ '':'' @ show_int (sint line) @ [CHR 0x1B, CHR ''['', CHR ''0'', CHR ''m'', CHR 0x0A]"

lemma line_holds:
  assumes "\<forall>d. length (ftoa d) \<le> 31" and "length junk = 4000" and "length (log_text ftoa level func file line items) + 31 < 4000"
  shows "\<exists>b. log_buffer ftoa junk level func file line items = Inr b \<and> holds b (log_text ftoa level func file line items)"
proof -
  let ?xs = "log_begin level func @ items @ log_finish file line"
  have c: "cstr '' - '' = '' - ''" "cstr (CHR 0x1B # ''[0m'') = CHR 0x1B # ''[0m''" by code_simp+
  have s: "sint (scast line :: 64 word) = sint line"
    using sint_lt [of line] sint_ge [of line] by (simp add: signed_scast_eq signed_take_bit_int_eq_self)
  have t: "concat (map (shown ftoa) ?xs) = log_text ftoa level func file line items"
    by (simp add: log_text_def log_begin_def log_finish_def c s split: option.splits)
  have "foldl (log_put ftoa) [] ?xs = log_text ftoa level func file line items"
    using all_fit [of "[]" ftoa ?xs] assms(3) unfolding t by simp
  with items_hold [OF assms(1) holds_new [OF assms(2)], of ?xs] show ?thesis by (simp add: log_buffer_def)
qed

text \<open>
  A log line that fits is printed as a whole: the level, the function if it is named, the items, the
  last part of the file name and the line; only a fatal one aborts.
\<close>

theorem log_line_printed:
  assumes "\<forall>d. length (ftoa d) \<le> 31" and "length junk = 4000" and "length (log_text ftoa level func file line items) + 31 < 4000"
  shows "log_line ftoa junk level func file line items = Inr (log_text ftoa level func file line items, level = FATAL)"
  using line_holds [OF assms] holds_toString by (auto simp: log_line_def)

theorem log_line_printed_witness:
  "log_line (\<lambda>d :: nat. []) (replicate 4000 NUL) WARN None ''utils/a.cpp'' 12 [LCStr ''id '', LUnsigned 7]
    = Inr (CHR 0x1B # ''[;33mWARN  id 7 - a.cpp:12'' @ [CHR 0x1B, CHR ''['', CHR ''0'', CHR ''m'', CHR 0x0A], False)"
proof -
  have t: "log_text (\<lambda>d :: nat. []) WARN None ''utils/a.cpp'' 12 [LCStr ''id '', LUnsigned 7]
      = CHR 0x1B # ''[;33mWARN  id 7 - a.cpp:12'' @ [CHR 0x1B, CHR ''['', CHR ''0'', CHR ''m'', CHR 0x0A]" by code_simp
  show ?thesis
    using log_line_printed [of "\<lambda>d :: nat. []" "replicate 4000 NUL" WARN None "''utils/a.cpp''" 12 "[LCStr ''id '', LUnsigned 7]"]
    unfolding t by simp
qed

text \<open>
  Nothing ends the text in the buffer, so on Android the line goes on with what the stack held behind it,
  and past the end of the buffer if there is no zero in it.
\<close>

lemma android_line_unterminated:
  assumes "\<forall>d. length (ftoa d) \<le> 31" and "length junk = 4000" and "length (log_text ftoa level func file line items) + 31 < 4000"
    and "NUL \<notin> set (log_text ftoa level func file line items)"
  shows "\<exists>rest. length rest = 4000 - length (log_text ftoa level func file line items) \<and>
    log_line_android True ftoa junk level func file line items =
      (if NUL \<in> set rest then Inr (Some (log_text ftoa level func file line items @ cstr rest)) else Inl OutOfBounds)"
proof -
  let ?t = "log_text ftoa level func file line items"
  obtain b where b: "log_buffer ftoa junk level func file line items = Inr b" "holds b ?t"
    using line_holds [OF assms(1-3)] by blast
  let ?r = "drop (length ?t) (fb_data b)"
  have d: "fb_data b = ?t @ ?r" using b(2) append_take_drop_id [of "length ?t" "fb_data b"] by (simp add: holds_def)
  have c: "cstr (?t @ ?r) = ?t @ cstr ?r" using assms(4) by (auto simp: cstr_def takeWhile_append)
  have "log_line_android True ftoa junk level func file line items =
      (if NUL \<in> set ?r then Inr (Some (?t @ cstr ?r)) else Inl OutOfBounds)"
    unfolding log_line_android_def b bindE_simps
    by (subst d, subst (2) d) (use assms(4) in \<open>simp add: strlen_def c take_length_cstr nat_add_distrib del: append_take_drop_id\<close>)
  moreover have "length ?r = 4000 - length ?t" using b(2) by (simp add: holds_def)
  ultimately show ?thesis by blast
qed

end
