(* ===== verification/Sdk.thy ===== *)
theory Sdk
  imports Channels
begin

text \<open>
  The receiver library (src/sdk/receiver): an application on the device opens a
  \<open>FlintReceiverManager\<close>, which registers it with the daemon over one WebSocket and exchanges
  messages with the senders over a second one, shared by the message buses of the application.

  Both sockets belong to one \<open>io_service\<close>: \<open>close\<close> and \<open>send\<close> only post a task, which runs later.
  The two channel objects, the bus manager and the buses are entries of the state that go away when
  they are deleted; a task and a signal hold a plain pointer to their object. \<open>url_ok\<close> tells which
  addresses the WebSocket library accepts, \<open>parse\<close> and \<open>text\<close> are the JSON library. What is sent, and
  what the listeners of the buses hear, is recorded in order.
\<close>

section \<open>State\<close>

datatype chan = Ipc | Bus

record msg_channel =
  mc_url :: string
  mc_asio :: bool
  mc_opened :: bool
  mc_pending :: "string list"

datatype task = SendImpl chan string | CloseImpl chan

record message_bus =
  mb_namespace :: string
  mb_listener :: bool

datatype heard = HeardMessage string string | HeardConnect string | HeardDisconnect string

datatype sdk_action = SdkConnect chan string | SdkSend chan string | SdkClose chan | SdkHeard nat heard

record bus_manager =
  bm_opened :: bool
  bm_appId :: string
  bm_url :: string
  bm_channel :: bool
  bm_buses :: "(string, nat) std_map"

record sdk =
  sd_ipc :: "msg_channel option"
  sd_bus :: "msg_channel option"
  sd_manager :: "bus_manager option"
  sd_heap :: "(nat, message_bus) std_map"
  sd_next :: nat
  sd_queue :: "task list"
  sd_out :: "sdk_action list"
  fm_opened :: bool
  fm_appId :: string
  fm_manager :: bool
  fm_ipc :: bool
  fm_url :: string
  fm_custom :: string

definition new_channel :: msg_channel where
  "new_channel = \<lparr>mc_url = [], mc_asio = False, mc_opened = False, mc_pending = []\<rparr>"

definition new_MessageBusManager :: "string \<Rightarrow> string \<Rightarrow> bus_manager" where
  "new_MessageBusManager appId url =
     \<lparr>bm_opened = False, bm_appId = appId, bm_url = url, bm_channel = True, bm_buses = []\<rparr>"

definition new_FlintReceiverManager :: "string \<Rightarrow> sdk" where
  "new_FlintReceiverManager appId =
     \<lparr>sd_ipc = Some new_channel, sd_bus = Some new_channel,
      sd_manager = Some (new_MessageBusManager appId ''ws://127.0.0.1:9439/channels/channelBaseUrl''),
      sd_heap = [], sd_next = 0, sd_queue = [], sd_out = [],
      fm_opened = False, fm_appId = appId, fm_manager = True, fm_ipc = True, fm_url = ''127.0.0.1'', fm_custom = []\<rparr>"

section \<open>MessageChannel\<close>

definition channel_of :: "chan \<Rightarrow> sdk \<Rightarrow> msg_channel option" where
  "channel_of c s = (case c of Ipc \<Rightarrow> sd_ipc s | Bus \<Rightarrow> sd_bus s)"

definition put_channel :: "chan \<Rightarrow> msg_channel option \<Rightarrow> sdk \<Rightarrow> sdk" where
  "put_channel c x s = (case c of Ipc \<Rightarrow> s\<lparr>sd_ipc := x\<rparr> | Bus \<Rightarrow> s\<lparr>sd_bus := x\<rparr>)"

definition get_channel :: "chan \<Rightarrow> sdk \<Rightarrow> fault + msg_channel" where
  "get_channel c s = (case channel_of c s of None \<Rightarrow> Inl UseAfterFree | Some x \<Rightarrow> Inr x)"

definition sdk_emit :: "sdk_action \<Rightarrow> sdk \<Rightarrow> sdk" where
  "sdk_emit a s = s\<lparr>sd_out := sd_out s @ [a]\<rparr>"

text \<open>\<open>get_connection\<close> gives a null pointer for an address it does not accept, which is used all the same.\<close>

definition mc_open :: "(string \<Rightarrow> bool) \<Rightarrow> chan \<Rightarrow> string \<Rightarrow> sdk \<Rightarrow> fault + sdk" where
  "mc_open url_ok c url s =
     bindE (get_channel c s) (\<lambda>x.
     let x1 = (if url \<noteq> [] then x\<lparr>mc_url := url\<rparr> else x)
     in if mc_url x1 = [] then Inr (put_channel c (Some x1) s)
        else if \<not> url_ok (mc_url x1) then Inl NullDeref
        else Inr (sdk_emit (SdkConnect c (mc_url x1)) (put_channel c (Some (x1\<lparr>mc_asio := True\<rparr>)) s)))"

text \<open>\<open>get_io_service\<close> of a client that was never given one dereferences a null pointer.\<close>

definition mc_post :: "chan \<Rightarrow> task \<Rightarrow> sdk \<Rightarrow> fault + sdk" where
  "mc_post c t s =
     bindE (get_channel c s) (\<lambda>x.
     if mc_asio x then Inr (s\<lparr>sd_queue := sd_queue s @ [t]\<rparr>) else Inl NullDeref)"

definition mc_close :: "chan \<Rightarrow> sdk \<Rightarrow> fault + sdk" where
  "mc_close c s = mc_post c (CloseImpl c) s"

definition mc_closeImpl :: "chan \<Rightarrow> sdk \<Rightarrow> fault + sdk" where
  "mc_closeImpl c s = bindE (get_channel c s) (\<lambda>_. Inr (sdk_emit (SdkClose c) s))"

definition mc_send :: "chan \<Rightarrow> string \<Rightarrow> sdk \<Rightarrow> fault + sdk" where
  "mc_send c message s = (if message = [] then Inr s else mc_post c (SendImpl c message) s)"

definition to_sender_json :: "string \<Rightarrow> string \<Rightarrow> json" where
  "to_sender_json message senderId = JObj [(''senderId'', jstr senderId), (''data'', jstr message)]"

definition mc_send_to :: "(json \<Rightarrow> string) \<Rightarrow> chan \<Rightarrow> string \<Rightarrow> string \<Rightarrow> sdk \<Rightarrow> fault + sdk" where
  "mc_send_to text c message senderId s =
     (if message = [] then Inr s else mc_send c (text (to_sender_json message senderId)) s)"

definition mc_sendImpl :: "chan \<Rightarrow> string \<Rightarrow> sdk \<Rightarrow> fault + sdk" where
  "mc_sendImpl c message s =
     bindE (get_channel c s) (\<lambda>x.
     if mc_opened x then Inr (sdk_emit (SdkSend c message) s)
     else Inr (put_channel c (Some (x\<lparr>mc_pending := mc_pending x @ [message]\<rparr>)) s))"

section \<open>FlintReceiverManager: what it sends\<close>

definition ipcSend :: "string \<Rightarrow> sdk \<Rightarrow> fault + sdk" where
  "ipcSend message s = (if fm_ipc s then mc_send Ipc message s else Inr s)"

definition registration_json :: "string \<Rightarrow> string \<Rightarrow> json" where
  "registration_json type appId = JObj [(''type'', JStr type), (''appid'', jstr appId)]"

definition registerSelf :: "(json \<Rightarrow> string) \<Rightarrow> sdk \<Rightarrow> fault + sdk" where
  "registerSelf text s = ipcSend (text (registration_json ''register'' (fm_appId s))) s"

definition unRegisterSelf :: "(json \<Rightarrow> string) \<Rightarrow> sdk \<Rightarrow> fault + sdk" where
  "unRegisterSelf text s = ipcSend (text (registration_json ''unregister'' (fm_appId s))) s"

definition joinAdditionalData :: "(json \<Rightarrow> string) \<Rightarrow> sdk \<Rightarrow> string" where
  "joinAdditionalData text s =
     (if \<not> fm_manager s \<and> fm_custom s = [] then []
      else text (JObj
        [(''type'', JStr ''additionaldata''), (''appid'', jstr (fm_appId s)),
         (''additionaldata'', JObj
           ((if fm_manager s then [(''channelBaseUrl'', jstr (''ws://'' @ fm_url s @ '':9439/channels/'' @ ''channelBaseUrl''))] else []) @
            (if fm_custom s \<noteq> [] then [(''customData'', jstr (fm_custom s))] else [])))]))"

definition sendAdditionalData :: "(json \<Rightarrow> string) \<Rightarrow> sdk \<Rightarrow> fault + sdk" where
  "sendAdditionalData text s =
     (let additionalData = joinAdditionalData text s
      in if additionalData \<noteq> [] then ipcSend additionalData s else Inr s)"

definition setAdditionalData :: "(json \<Rightarrow> string) \<Rightarrow> string \<Rightarrow> sdk \<Rightarrow> fault + sdk" where
  "setAdditionalData text dat s = sendAdditionalData text (s\<lparr>fm_custom := dat\<rparr>)"

definition fm_sendHeartbeat :: "(json \<Rightarrow> string) \<Rightarrow> string \<Rightarrow> sdk \<Rightarrow> fault + sdk" where
  "fm_sendHeartbeat text heartbeat s =
     ipcSend (text (JObj [(''type'', JStr ''heartbeat''), (''appid'', jstr (fm_appId s)), (''heartbeat'', jstr heartbeat)])) s"

section \<open>ReceiverMessageBus\<close>

definition get_bus :: "nat \<Rightarrow> sdk \<Rightarrow> fault + message_bus" where
  "get_bus b s = (case map_find (sd_heap s) b of None \<Rightarrow> Inl UseAfterFree | Some x \<Rightarrow> Inr x)"

definition setListener :: "nat \<Rightarrow> sdk \<Rightarrow> fault + sdk" where
  "setListener b s = bindE (get_bus b s) (\<lambda>x. Inr (s\<lparr>sd_heap := map_set b (x\<lparr>mb_listener := True\<rparr>) (sd_heap s)\<rparr>))"

definition bus_hear :: "heard \<Rightarrow> nat \<Rightarrow> sdk \<Rightarrow> fault + sdk" where
  "bus_hear h b s = bindE (get_bus b s) (\<lambda>x. if mb_listener x then Inr (sdk_emit (SdkHeard b h) s) else Inr s)"

definition payload_json :: "string \<Rightarrow> string \<Rightarrow> json" where
  "payload_json ns message = JObj [(''namespace'', jstr ns), (''payload'', jstr message)]"

text \<open>A bus keeps the pointer to the channel it was made with.\<close>

definition bus_send :: "(json \<Rightarrow> string) \<Rightarrow> nat \<Rightarrow> string \<Rightarrow> string \<Rightarrow> sdk \<Rightarrow> fault + sdk" where
  "bus_send text b message senderId s =
     bindE (get_bus b s) (\<lambda>x. mc_send_to text Bus (text (payload_json (mb_namespace x) message)) senderId s)"

section \<open>MessageBusManager\<close>

definition get_manager :: "sdk \<Rightarrow> fault + bus_manager" where
  "get_manager s = (case sd_manager s of None \<Rightarrow> Inl UseAfterFree | Some m \<Rightarrow> Inr m)"

definition bm_open :: "(string \<Rightarrow> bool) \<Rightarrow> sdk \<Rightarrow> fault + sdk" where
  "bm_open url_ok s =
     bindE (get_manager s) (\<lambda>m.
     if bm_appId m = [] then Inr s
     else if bm_channel m then mc_open url_ok Bus (bm_url m) s else Inr s)"

definition bm_clear :: "sdk \<Rightarrow> fault + sdk" where
  "bm_clear s =
     bindE (get_manager s) (\<lambda>m.
     let s1 = (if bm_channel m then put_channel Bus None s else s)
     in Inr (s1\<lparr>sd_manager := Some (m\<lparr>bm_opened := False, bm_channel := False, bm_buses := []\<rparr>),
               sd_heap := foldl (\<lambda>h e. map_erase (snd e) h) (sd_heap s1) (bm_buses m)\<rparr>))"

definition bm_close :: "sdk \<Rightarrow> fault + sdk" where
  "bm_close s =
     bindE (get_manager s) (\<lambda>m.
     bindE (if bm_channel m then mc_close Bus s else Inr s) bm_clear)"

definition bm_onOpen :: "sdk \<Rightarrow> fault + sdk" where
  "bm_onOpen s = bindE (get_manager s) (\<lambda>m. Inr (s\<lparr>sd_manager := Some (m\<lparr>bm_opened := True\<rparr>)\<rparr>))"

definition bm_onMessage :: "(string \<Rightarrow> json) \<Rightarrow> string \<Rightarrow> string \<Rightarrow> string \<Rightarrow> sdk \<Rightarrow> fault + sdk" where
  "bm_onMessage parse type senderId message s =
     bindE (get_manager s) (\<lambda>m.
     if type = ''senderConnected'' then foldE (\<lambda>t e. bus_hear (HeardConnect senderId) (snd e) t) s (bm_buses m)
     else if type = ''senderDisconnected'' then foldE (\<lambda>t e. bus_hear (HeardDisconnect senderId) (snd e) t) s (bm_buses m)
     else if type = ''message'' then
       let d = parse (cstr message)
       in if d = JNull then Inr s
          else
            bindE (js_member d ''namespace'') (\<lambda>ns.
            if ns = JNull then Inr s
            else
              bindE (js_member d ''payload'') (\<lambda>payload.
              if payload = JNull then Inr s
              else
                bindE (js_string ns) (\<lambda>nsStr.
                bindE (js_string payload) (\<lambda>payloadStr.
                foldE (\<lambda>t e.
                  bindE (get_bus (snd e) t) (\<lambda>x.
                  if mb_namespace x = nsStr then bus_hear (HeardMessage payloadStr senderId) (snd e) t else Inr t))
                  s (bm_buses m)))))
     else Inr s)"

definition bm_createMessageBus :: "string \<Rightarrow> sdk \<Rightarrow> fault + nat option \<times> sdk" where
  "bm_createMessageBus ns s =
     bindE (get_manager s) (\<lambda>m.
     if ns = [] then Inr (None, s)
     else
       (case map_find (bm_buses m) ns of
          None \<Rightarrow>
            let b = sd_next s
            in Inr (Some b, s\<lparr>sd_heap := map_insert b \<lparr>mb_namespace = ns, mb_listener = False\<rparr> (sd_heap s), sd_next := b + 1,
                 sd_manager := Some (m\<lparr>bm_buses := map_insert ns b (bm_buses m)\<rparr>)\<rparr>)
        | Some b \<Rightarrow> Inr (Some b, s)))"

section \<open>ReceiverMessageChannel\<close>

definition rmc_onMessage :: "(string \<Rightarrow> json) \<Rightarrow> string \<Rightarrow> sdk \<Rightarrow> fault + sdk" where
  "rmc_onMessage parse message s =
     (let d = parse (cstr message)
      in if d = JNull then Inr s
         else
           bindE (js_member d ''type'') (\<lambda>type.
           if type = JNull then Inr s
           else
             bindE (js_member d ''senderId'') (\<lambda>senderId.
             if senderId = JNull then Inr s
             else
               bindE (js_string senderId) (\<lambda>senderIdStr.
               bindE (js_string type) (\<lambda>typeStr.
               if typeStr = ''senderConnected'' then bm_onMessage parse ''senderConnected'' senderIdStr [] s
               else if typeStr = ''senderDisconnected'' then bm_onMessage parse ''senderDisconnected'' senderIdStr [] s
               else if typeStr = ''message'' then
                 bindE (js_member d ''data'') (\<lambda>data.
                 if data = JNull then Inr s
                 else bindE (js_string data) (\<lambda>m. bm_onMessage parse ''message'' senderIdStr m s))
               else Inr s)))))"

section \<open>FlintReceiverManager: what it does\<close>

definition fm_isOpened :: "sdk \<Rightarrow> fault + bool" where
  "fm_isOpened s =
     (if fm_opened s \<and> fm_ipc s then bindE (get_channel Ipc s) (\<lambda>x. Inr (mc_opened x)) else Inr False)"

text \<open>The destructor of \<open>MessageBusManager\<close> releases nothing.\<close>

definition fm_clear :: "sdk \<Rightarrow> sdk" where
  "fm_clear s =
     (let s1 = (if fm_ipc s then (put_channel Ipc None s)\<lparr>fm_ipc := False\<rparr> else s);
          s2 = (if fm_manager s1 then s1\<lparr>sd_manager := None, fm_manager := False\<rparr> else s1)
      in s2\<lparr>fm_opened := False\<rparr>)"

text \<open>\<open>open\<close> up to the call of \<open>run\<close>, which then serves the events.\<close>

definition fm_open :: "(string \<Rightarrow> bool) \<Rightarrow> sdk \<Rightarrow> fault + sdk" where
  "fm_open url_ok s =
     (if fm_opened s then Inr s
      else
        bindE (if fm_manager s then bm_open url_ok s else Inr s) (\<lambda>s.
        bindE (if fm_ipc s then mc_open url_ok Ipc (''ws://127.0.0.1:9431/receiver/'' @ fm_appId s) s else Inr s) (\<lambda>s.
        Inr (s\<lparr>fm_opened := True\<rparr>))))"

definition fm_close :: "(json \<Rightarrow> string) \<Rightarrow> sdk \<Rightarrow> fault + sdk" where
  "fm_close text s =
     (if \<not> fm_opened s then Inr s
      else
        bindE (unRegisterSelf text s) (\<lambda>s.
        bindE (if fm_manager s then bm_close s else Inr s) (\<lambda>s.
        bindE (if fm_ipc s then mc_close Ipc s else Inr s) (\<lambda>s.
        Inr (fm_clear s)))))"

definition fm_createMessageBus :: "string \<Rightarrow> sdk \<Rightarrow> fault + nat option \<times> sdk" where
  "fm_createMessageBus ns s =
     bindE (fm_isOpened s) (\<lambda>o'.
     if o' then Inr (None, s)
     else if fm_manager s then bm_createMessageBus ns s else Inr (None, s))"

definition onIpcMessage :: "(string \<Rightarrow> json) \<Rightarrow> (json \<Rightarrow> string) \<Rightarrow> string \<Rightarrow> sdk \<Rightarrow> fault + sdk" where
  "onIpcMessage parse text message s =
     (let d = parse (cstr message)
      in if message = [] \<or> d = JNull then Inr s
         else
           bindE (js_member d ''appid'') (\<lambda>appId.
           if appId = JNull then Inr s
           else
             bindE (js_string appId) (\<lambda>a.
             if fm_appId s \<noteq> a then Inr s
             else
               bindE (js_member d ''type'') (\<lambda>type.
               if type = JNull then Inr s
               else
                 bindE (js_string type) (\<lambda>typeStr.
                 if typeStr = ''registerok'' then
                   bindE (js_member d ''service_info'') (\<lambda>service_info.
                   if service_info = JNull then Inr s
                   else
                     bindE (js_member service_info ''ip'') (\<lambda>ipArr.
                     case ipArr of
                       JArr (i # _) \<Rightarrow> bindE (js_string i) (\<lambda>ip. sendAdditionalData text (s\<lparr>fm_url := ip\<rparr>))
                     | _ \<Rightarrow> Inr s))
                 else if typeStr = ''startHeartbeat'' then Inr s
                 else if typeStr = ''heartbeat'' then
                   bindE (js_member d ''heartbeat'') (\<lambda>heartbeat.
                   if heartbeat = JNull then Inr s
                   else
                     bindE (js_string heartbeat) (\<lambda>h.
                     if h = ''ping'' then fm_sendHeartbeat text ''pong'' s
                     else if h = ''pong'' then fm_sendHeartbeat text ''ping'' s
                     else Inr s))
                 else if typeStr = ''senderconnected'' \<or> typeStr = ''senderdisconnected'' then
                   bindE (js_member d ''token'') (\<lambda>token. bindE (js_string token) (\<lambda>_. Inr s))
                 else Inr s)))))"

section \<open>Events\<close>

text \<open>\<open>onOpen\<close>: the pending messages are posted again, then the channel is open and its signal is raised.\<close>

definition mc_onOpen :: "(json \<Rightarrow> string) \<Rightarrow> chan \<Rightarrow> sdk \<Rightarrow> fault + sdk" where
  "mc_onOpen text c s =
     bindE (get_channel c s) (\<lambda>x.
     bindE (foldE (\<lambda>t m. mc_send c m t) s (mc_pending x)) (\<lambda>s1.
     let s2 = put_channel c (Some (x\<lparr>mc_pending := [], mc_opened := True\<rparr>)) s1
     in case c of Ipc \<Rightarrow> registerSelf text s2 | Bus \<Rightarrow> bm_onOpen s2))"

text \<open>\<open>onClose\<close> and \<open>onFail\<close>.\<close>

definition mc_onClose :: "chan \<Rightarrow> sdk \<Rightarrow> fault + sdk" where
  "mc_onClose c s =
     bindE (get_channel c s) (\<lambda>x.
     let s1 = put_channel c (Some (x\<lparr>mc_opened := False\<rparr>)) s
     in case c of Ipc \<Rightarrow> Inr (fm_clear s1) | Bus \<Rightarrow> bm_clear s1)"

definition onWsMessage :: "(string \<Rightarrow> json) \<Rightarrow> (json \<Rightarrow> string) \<Rightarrow> chan \<Rightarrow> string \<Rightarrow> sdk \<Rightarrow> fault + sdk" where
  "onWsMessage parse text c message s =
     bindE (get_channel c s) (\<lambda>_.
     case c of Ipc \<Rightarrow> onIpcMessage parse text message s | Bus \<Rightarrow> rmc_onMessage parse message s)"

definition run_task :: "task \<Rightarrow> sdk \<Rightarrow> fault + sdk" where
  "run_task t s = (case t of SendImpl c m \<Rightarrow> mc_sendImpl c m s | CloseImpl c \<Rightarrow> mc_closeImpl c s)"

text \<open>
  The calls of the application, the tasks of the \<open>io_service\<close> in the order they were posted, and
  the events of the sockets, which come only while the channel object is there.
\<close>

datatype sdk_event =
  SdkOpen | SdkCloseCall | SdkSetData string | SdkCreateBus string | SdkSetListener nat | SdkBusSend nat string string
| SdkRun | SdkOpened chan | SdkClosed chan | SdkReceived chan string

definition connected :: "chan \<Rightarrow> sdk \<Rightarrow> bool" where
  "connected c s \<longleftrightarrow> (case channel_of c s of None \<Rightarrow> False | Some x \<Rightarrow> mc_asio x)"

fun sdk_step :: "(string \<Rightarrow> bool) \<Rightarrow> (string \<Rightarrow> json) \<Rightarrow> (json \<Rightarrow> string) \<Rightarrow> sdk \<Rightarrow> sdk_event \<Rightarrow> fault + sdk" where
  "sdk_step url_ok parse text s SdkOpen = fm_open url_ok s"
| "sdk_step url_ok parse text s SdkCloseCall = fm_close text s"
| "sdk_step url_ok parse text s (SdkSetData dat) = setAdditionalData text dat s"
| "sdk_step url_ok parse text s (SdkCreateBus ns) = bindE (fm_createMessageBus ns s) (\<lambda>(_, s). Inr s)"
| "sdk_step url_ok parse text s (SdkSetListener b) = setListener b s"
| "sdk_step url_ok parse text s (SdkBusSend b message senderId) = bus_send text b message senderId s"
| "sdk_step url_ok parse text s SdkRun =
     (case sd_queue s of [] \<Rightarrow> Inr s | t # ts \<Rightarrow> run_task t (s\<lparr>sd_queue := ts\<rparr>))"
| "sdk_step url_ok parse text s (SdkOpened c) = (if connected c s then mc_onOpen text c s else Inr s)"
| "sdk_step url_ok parse text s (SdkClosed c) = (if connected c s then mc_onClose c s else Inr s)"
| "sdk_step url_ok parse text s (SdkReceived c message) =
     (if connected c s then onWsMessage parse text c message s else Inr s)"

end
