(* ===== verification/SdkBus.thy ===== *)
theory SdkBus
  imports Sdk Relay "HOL-Library.Multiset"
begin

text \<open>
  What the message buses of the receiver library come to: every message handed to a bus is sent
  exactly once however the sends, the opening of the socket and the tasks of the \<open>io_service\<close>
  interleave, and messages get through between the bus of an application and its senders, across
  the relay of the daemon, in both directions.
\<close>

section \<open>What is on its way\<close>

definition sent_over :: "chan \<Rightarrow> sdk \<Rightarrow> string list" where
  "sent_over c s = concat (map (\<lambda>a. case a of SdkSend d m \<Rightarrow> if d = c then [m] else [] | _ \<Rightarrow> []) (sd_out s))"

definition queued_on :: "chan \<Rightarrow> sdk \<Rightarrow> string list" where
  "queued_on c s = concat (map (\<lambda>t. case t of SendImpl d m \<Rightarrow> if d = c then [m] else [] | _ \<Rightarrow> []) (sd_queue s))"

definition pending_on :: "sdk \<Rightarrow> string list" where
  "pending_on s = (case sd_bus s of None \<Rightarrow> [] | Some x \<Rightarrow> mc_pending x)"

text \<open>A bus message is sent, waiting for the socket, or waiting for its task.\<close>

definition bus_total :: "sdk \<Rightarrow> string multiset" where
  "bus_total s = mset (sent_over Bus s) + mset (pending_on s) + mset (queued_on Bus s)"

definition bus_text :: "(json \<Rightarrow> string) \<Rightarrow> string \<Rightarrow> string \<Rightarrow> string \<Rightarrow> string" where
  "bus_text text ns message senderId = text (to_sender_json (text (payload_json ns message)) senderId)"

fun bus_texts :: "(json \<Rightarrow> string) \<Rightarrow> sdk \<Rightarrow> sdk_event \<Rightarrow> string list" where
  "bus_texts text s (SdkBusSend b message senderId) =
     (case map_find (sd_heap s) b of None \<Rightarrow> [] | Some x \<Rightarrow> [bus_text text (mb_namespace x) message senderId])"
| "bus_texts text s e = []"

text \<open>The messages handed to the buses in a run, each with the namespace of its bus at the time.\<close>

fun handed_over :: "(string \<Rightarrow> bool) \<Rightarrow> (string \<Rightarrow> json) \<Rightarrow> (json \<Rightarrow> string) \<Rightarrow> sdk \<Rightarrow> sdk_event list \<Rightarrow> string list" where
  "handed_over url_ok parse text s [] = []"
| "handed_over url_ok parse text s (e # es) =
     bus_texts text s e @ (case sdk_step url_ok parse text s e of Inl _ \<Rightarrow> [] | Inr s' \<Rightarrow> handed_over url_ok parse text s' es)"

lemma sent_emit [simp]:
  "sent_over c (sdk_emit a s) = sent_over c s @ (case a of SdkSend d m \<Rightarrow> if d = c then [m] else [] | _ \<Rightarrow> [])"
  "queued_on c (sdk_emit a s) = queued_on c s" "pending_on (sdk_emit a s) = pending_on s"
  by (simp_all add: sent_over_def queued_on_def pending_on_def sdk_emit_def)

lemma emit_fields [simp]:
  "sd_bus (sdk_emit a s) = sd_bus s" "sd_manager (sdk_emit a s) = sd_manager s" "sd_heap (sdk_emit a s) = sd_heap s"
  "sd_next (sdk_emit a s) = sd_next s" "sd_queue (sdk_emit a s) = sd_queue s"
  by (simp_all add: sdk_emit_def)

lemma channel_fields [simp]:
  "sd_manager (put_channel c x s) = sd_manager s" "sd_heap (put_channel c x s) = sd_heap s" "sd_next (put_channel c x s) = sd_next s"
  "sd_queue (put_channel c x s) = sd_queue s" "sd_out (put_channel c x s) = sd_out s"
  "sd_bus (put_channel Ipc x s) = sd_bus s" "sd_bus (put_channel Bus x s) = x"
  by (simp_all add: put_channel_def split: chan.splits)

lemma sent_put [simp]: "sent_over c (put_channel d x s) = sent_over c s" "queued_on c (put_channel d x s) = queued_on c s"
  by (simp_all add: sent_over_def queued_on_def)

lemma line_fields [simp]:
  "pending_on (s\<lparr>sd_heap := h\<rparr>) = pending_on s" "queued_on c (s\<lparr>sd_heap := h\<rparr>) = queued_on c s" "sent_over c (s\<lparr>sd_heap := h\<rparr>) = sent_over c s"
  "pending_on (s\<lparr>sd_next := n\<rparr>) = pending_on s" "queued_on c (s\<lparr>sd_next := n\<rparr>) = queued_on c s" "sent_over c (s\<lparr>sd_next := n\<rparr>) = sent_over c s"
  "pending_on (s\<lparr>sd_manager := m\<rparr>) = pending_on s" "queued_on c (s\<lparr>sd_manager := m\<rparr>) = queued_on c s" "sent_over c (s\<lparr>sd_manager := m\<rparr>) = sent_over c s"
  "pending_on (s\<lparr>fm_opened := o'\<rparr>) = pending_on s" "queued_on c (s\<lparr>fm_opened := o'\<rparr>) = queued_on c s" "sent_over c (s\<lparr>fm_opened := o'\<rparr>) = sent_over c s"
  "pending_on (put_channel Ipc x s) = pending_on s" "pending_on (put_channel Bus x s) = (case x of None \<Rightarrow> [] | Some y \<Rightarrow> mc_pending y)"
  by (simp_all add: pending_on_def queued_on_def sent_over_def put_channel_def)

lemma get_channel_Inr: "get_channel c s = Inr x \<longleftrightarrow> channel_of c s = Some x"
  by (simp add: get_channel_def split: option.splits)

section \<open>Steps that leave the buses alone\<close>

definition quiet :: "sdk \<Rightarrow> sdk \<Rightarrow> bool" where
  "quiet s s' \<longleftrightarrow>
     map_option bm_buses (sd_manager s') = map_option bm_buses (sd_manager s) \<and> sd_heap s' = sd_heap s
   \<and> sd_next s' = sd_next s \<and> sd_bus s' = sd_bus s \<and> sent_over Bus s' = sent_over Bus s \<and> queued_on Bus s' = queued_on Bus s"

lemma quiet_refl [simp]: "quiet s s"
  by (simp add: quiet_def)

lemma quiet_trans: "quiet s t \<Longrightarrow> quiet t u \<Longrightarrow> quiet s u"
  by (simp add: quiet_def)

lemma quiet_put: "quiet s (put_channel Ipc x s)"
  by (simp add: quiet_def)

lemma quiet_post: "mc_post Ipc (t Ipc) s = Inr s' \<Longrightarrow> t = (\<lambda>c. SendImpl c m) \<or> t = CloseImpl \<Longrightarrow> quiet s s'"
  by (auto simp: mc_post_def quiet_def queued_on_def sent_over_def split: if_splits)

lemma quiet_close: "mc_post c (CloseImpl c) s = Inr s' \<Longrightarrow> quiet s s'"
  by (auto simp: mc_post_def quiet_def queued_on_def sent_over_def split: if_splits)

lemma quiet_send: "mc_send Ipc m s = Inr s' \<Longrightarrow> quiet s s'"
  by (auto simp: mc_send_def mc_post_def quiet_def queued_on_def sent_over_def split: if_splits)

lemma quiet_ipcSend: "ipcSend m s = Inr s' \<Longrightarrow> quiet s s'"
  by (auto simp: ipcSend_def quiet_send split: if_splits)

lemma quiet_additional: "sendAdditionalData text s = Inr s' \<Longrightarrow> quiet s s'"
  by (auto simp: sendAdditionalData_def Let_def quiet_ipcSend split: if_splits)

lemma quiet_fields [simp]:
  "quiet (s\<lparr>fm_custom := c\<rparr>) s' \<longleftrightarrow> quiet s s'" "quiet (s\<lparr>fm_url := u\<rparr>) s' \<longleftrightarrow> quiet s s'"
  "quiet s (s'\<lparr>fm_opened := o'\<rparr>) \<longleftrightarrow> quiet s s'"
  by (simp_all add: quiet_def sent_over_def queued_on_def)

lemma quiet_hear: "bus_hear h b s = Inr s' \<Longrightarrow> quiet s s'"
  by (auto simp: bus_hear_def quiet_def split: if_splits)

lemma quiet_foldE:
  assumes "\<And>t x t'. f t x = Inr t' \<Longrightarrow> quiet t t'"
  shows "foldE f s xs = Inr s' \<Longrightarrow> quiet s s'"
proof (induction xs arbitrary: s)
  case (Cons x xs)
  then obtain t where "f s x = Inr t" "foldE f t xs = Inr s'" by auto
  then show ?case using assms Cons.IH by (blast intro: quiet_trans)
qed simp

lemma quiet_hears:
  "foldE (\<lambda>t e. bus_hear (h e) (snd e) t) s m = Inr s' \<Longrightarrow> quiet s s'"
  "foldE (\<lambda>t e. bindE (get_bus (snd e) t) (\<lambda>x. if mb_namespace x = n then bus_hear (h e) (snd e) t else Inr t)) s m = Inr s' \<Longrightarrow> quiet s s'"
  by (rule quiet_foldE; auto intro: quiet_hear split: if_splits)+

lemma if_InrE: "(if P then a else b) = Inr y \<Longrightarrow> (a = Inr y \<Longrightarrow> Q) \<Longrightarrow> (b = Inr y \<Longrightarrow> Q) \<Longrightarrow> Q"
  by (cases P) simp_all

lemma quiet_Inr: "Inr s = Inr s' \<Longrightarrow> quiet s s'"
  by simp

lemma quiet_bm_message: "bm_onMessage parse type sender m s = Inr s' \<Longrightarrow> quiet s s'"
  unfolding bm_onMessage_def Let_def
  by (elim bindE_eq_InrE if_InrE; erule quiet_hears quiet_Inr)

lemma quiet_rmc_message: "rmc_onMessage parse m s = Inr s' \<Longrightarrow> quiet s s'"
  unfolding rmc_onMessage_def Let_def
  by (elim bindE_eq_InrE if_InrE; erule quiet_bm_message quiet_Inr)

lemma quiet_registered:
  "(case ipArr of JArr (i # _) \<Rightarrow> bindE (js_string i) (\<lambda>ip. sendAdditionalData text (s\<lparr>fm_url := ip\<rparr>)) | _ \<Rightarrow> Inr s) = Inr s'
     \<Longrightarrow> quiet s s'"
  by (cases ipArr) (auto split: list.splits dest: quiet_additional)

lemma quiet_ipc_message: "onIpcMessage parse text m s = Inr s' \<Longrightarrow> quiet s s'"
  unfolding onIpcMessage_def Let_def fm_sendHeartbeat_def
  by (elim bindE_eq_InrE if_InrE; erule quiet_registered quiet_ipcSend quiet_Inr)

section \<open>Every step\<close>

text \<open>The buses of the manager are in the heap under their names, and an open socket keeps nothing waiting.\<close>

definition buses_ok :: "sdk \<Rightarrow> bool" where
  "buses_ok s \<longleftrightarrow>
     (\<forall>m. sd_manager s = Some m \<longrightarrow> map_wf (bm_buses m) \<and>
        (\<forall>ns b. map_find (bm_buses m) ns = Some b \<longrightarrow> (\<exists>x. map_find (sd_heap s) b = Some x \<and> mb_namespace x = ns)))
   \<and> map_wf (sd_heap s) \<and> (\<forall>b x. map_find (sd_heap s) b = Some x \<longrightarrow> b < sd_next s)
   \<and> (\<forall>x. sd_bus s = Some x \<longrightarrow> mc_opened x \<longrightarrow> mc_pending x = [])
   \<and> [] \<notin> set (pending_on s) \<and> [] \<notin> set (queued_on Bus s)"

lemma buses_ok_quiet: "quiet s s' \<Longrightarrow> buses_ok s \<Longrightarrow> buses_ok s'"
  by (cases "sd_manager s"; cases "sd_manager s'") (auto simp: quiet_def buses_ok_def pending_on_def)

text \<open>What a step hands over: a step is fine if it keeps the invariant and hands over exactly \<open>ms\<close>.\<close>

definition hands :: "string list \<Rightarrow> sdk \<Rightarrow> sdk \<Rightarrow> bool" where
  "hands ms s s' \<longleftrightarrow> (buses_ok s \<longrightarrow> buses_ok s') \<and> (sd_bus s = None \<longrightarrow> sd_bus s' = None)
     \<and> (sd_bus s' \<noteq> None \<longrightarrow> bus_total s' = bus_total s + mset ms)"

lemma hands_quiet: "quiet s s' \<Longrightarrow> hands [] s s'"
  using buses_ok_quiet by (auto simp: hands_def quiet_def bus_total_def pending_on_def)

lemma hands_trans: "hands ms s t \<Longrightarrow> hands ns t u \<Longrightarrow> hands (ms @ ns) s u"
  by (auto simp: hands_def)

lemma hands_gone: "(buses_ok s \<longrightarrow> buses_ok s') \<Longrightarrow> sd_bus s' = None \<Longrightarrow> hands ms s s'"
  by (simp add: hands_def)

lemma hands_send: "mc_send Bus m s = Inr s' \<Longrightarrow> hands (if m = [] then [] else [m]) s s'"
  by (auto simp: mc_send_def mc_post_def hands_def buses_ok_def bus_total_def sent_over_def queued_on_def pending_on_def split: if_splits)

lemma hands_bus_send:
  assumes ne: "\<And>j. text j \<noteq> []" and s: "bus_send text b m sender s = Inr s'"
  shows "hands (bus_texts text s (SdkBusSend b m sender)) s s'"
proof -
  obtain x where x: "map_find (sd_heap s) b = Some x" "mc_send Bus (bus_text text (mb_namespace x) m sender) s = Inr s'"
    using s ne by (auto simp: bus_send_def get_bus_def mc_send_to_def bus_text_def split: option.splits)
  then show ?thesis using hands_send [OF x(2)] ne by (simp add: bus_text_def)
qed

lemma erase_heap_wf: "map_wf h \<Longrightarrow> map_wf (foldl (\<lambda>h e. map_erase (snd e) h) h m)"
  by (induction m arbitrary: h) simp_all

lemma erase_heap_find: "map_wf h \<Longrightarrow> map_find (foldl (\<lambda>h e. map_erase (snd e) h) h m) b = Some x \<Longrightarrow> map_find h b = Some x"
proof (induction m arbitrary: h)
  case (Cons a m)
  then have "map_find (map_erase (snd a) h) b = Some x" using Cons.IH [of "map_erase (snd a) h"] by simp
  with Cons.prems(1) show ?case by (simp add: map_find_erase split: if_splits)
qed simp

lemma hands_bm_clear:
  assumes s: "bm_clear s = Inr s'"
  shows "hands [] s s'"
proof -
  obtain m where m: "sd_manager s = Some m" using s by (auto simp: bm_clear_def get_manager_def split: option.splits)
  then have s': "s' = (if bm_channel m then put_channel Bus None s else s)\<lparr>sd_manager := Some (m\<lparr>bm_opened := False, bm_channel := False, bm_buses := []\<rparr>),
      sd_heap := foldl (\<lambda>h e. map_erase (snd e) h) (sd_heap s) (bm_buses m)\<rparr>"
    using s by (auto simp: bm_clear_def get_manager_def)
  have "buses_ok s \<Longrightarrow> buses_ok s'"
    unfolding s' by (auto simp: buses_ok_def erase_heap_wf dest: erase_heap_find)
  moreover have "bus_total s' = bus_total s" if "sd_bus s' \<noteq> None"
    using that unfolding s' by (auto simp: bus_total_def sent_over_def queued_on_def pending_on_def)
  ultimately show ?thesis unfolding hands_def s' by auto
qed

lemma hands_fm_clear: "hands [] s (fm_clear s)"
  by (auto simp: fm_clear_def Let_def hands_def buses_ok_def bus_total_def sent_over_def queued_on_def pending_on_def put_channel_def)

lemma hands_open: "mc_open url_ok c url s = Inr s' \<Longrightarrow> hands [] s s'"
  by (cases c) (auto simp: mc_open_def Let_def get_channel_Inr channel_of_def hands_def buses_ok_def bus_total_def pending_on_def split: if_splits)

lemma hands_Nil_trans: "hands [] s t \<Longrightarrow> hands [] t u \<Longrightarrow> hands [] s u"
  using hands_trans [of "[]" s t "[]" u] by simp

lemma hands_refl: "hands [] s s"
  by (simp add: hands_quiet)

lemma hands_bm_open: "bm_open url_ok s = Inr s' \<Longrightarrow> hands [] s s'"
  by (auto simp: bm_open_def hands_refl intro: hands_open split: if_splits)

lemma hands_fm_open:
  assumes "fm_open url_ok s = Inr s'" shows "hands [] s s'"
proof (cases "fm_opened s")
  case False
  with assms obtain s1 s2 where s: "(if fm_manager s then bm_open url_ok s else Inr s) = Inr s1"
      "(if fm_ipc s1 then mc_open url_ok Ipc (''ws://127.0.0.1:9431/receiver/'' @ fm_appId s1) s1 else Inr s1) = Inr s2"
      "s' = s2\<lparr>fm_opened := True\<rparr>"
    unfolding fm_open_def by (auto simp del: append_Cons append_Nil)
  have "hands [] s s1" using s(1) by (auto split: if_splits intro: hands_bm_open hands_refl)
  moreover have "hands [] s1 s2" using s(2) by (auto split: if_splits intro: hands_open hands_refl)
  moreover have "hands [] s2 s'"
    unfolding s(3) by (simp add: hands_def buses_ok_def bus_total_def sent_over_def queued_on_def pending_on_def)
  ultimately show ?thesis using hands_Nil_trans by blast
qed (use assms in \<open>simp add: fm_open_def hands_refl\<close>)

lemma hands_bm_close: "bm_close s = Inr s' \<Longrightarrow> hands [] s s'"
  unfolding bm_close_def mc_close_def
  by (elim bindE_eq_InrE if_InrE; blast intro: hands_Nil_trans hands_bm_clear hands_quiet quiet_close quiet_Inr)

lemma hands_fm_close:
  assumes "fm_close text s = Inr s'" shows "hands [] s s'"
proof (cases "fm_opened s")
  case True
  with assms obtain s1 s2 s3 where s: "unRegisterSelf text s = Inr s1" "(if fm_manager s1 then bm_close s1 else Inr s1) = Inr s2"
      "(if fm_ipc s2 then mc_close Ipc s2 else Inr s2) = Inr s3" "s' = fm_clear s3"
    unfolding fm_close_def by auto
  have "hands [] s s1" using s(1) unfolding unRegisterSelf_def by (intro hands_quiet quiet_ipcSend)
  moreover have "hands [] s1 s2" using s(2) by (auto split: if_splits intro: hands_bm_close hands_refl)
  moreover have "hands [] s2 s3" using s(3) unfolding mc_close_def by (auto split: if_splits intro: hands_quiet quiet_close hands_refl)
  ultimately show ?thesis unfolding s(4) using hands_fm_clear hands_Nil_trans by blast
qed (use assms in \<open>simp add: fm_close_def hands_refl\<close>)

lemma hands_create: "fm_createMessageBus ns s = Inr (r, s') \<Longrightarrow> hands [] s s'"
proof -
  assume a: "fm_createMessageBus ns s = Inr (r, s')"
  show ?thesis
  proof (cases "s' = s")
    case False
    with a obtain m where m: "sd_manager s = Some m" "map_find (bm_buses m) ns = None"
        "s' = s\<lparr>sd_heap := map_insert (sd_next s) \<lparr>mb_namespace = ns, mb_listener = False\<rparr> (sd_heap s), sd_next := sd_next s + 1,
           sd_manager := Some (m\<lparr>bm_buses := map_insert ns (sd_next s) (bm_buses m)\<rparr>)\<rparr>"
      by (auto simp: fm_createMessageBus_def bm_createMessageBus_def get_manager_def Let_def split: if_splits option.splits)
    have "buses_ok s \<Longrightarrow> map_find (sd_heap s) (sd_next s) = None"
      by (cases "map_find (sd_heap s) (sd_next s)") (auto simp: buses_ok_def)
    then have "buses_ok s \<Longrightarrow> buses_ok s'"
      unfolding m(3) using m(1,2)
      by (auto simp: buses_ok_def map_find_insert less_Suc_eq split: option.splits if_splits)
    then show ?thesis unfolding hands_def m(3) by (simp add: bus_total_def sent_over_def queued_on_def pending_on_def)
  qed (simp add: hands_refl)
qed

lemma buses_ok_heap:
  assumes "buses_ok s" and "map_wf h" and h: "\<And>b. map_option mb_namespace (map_find h b) = map_option mb_namespace (map_find (sd_heap s) b)"
  shows "buses_ok (s\<lparr>sd_heap := h\<rparr>)"
proof -
  have f: "map_find h b = Some x \<Longrightarrow> \<exists>y. map_find (sd_heap s) b = Some y \<and> mb_namespace y = mb_namespace x" for b x
    using h [of b] by (cases "map_find (sd_heap s) b") auto
  have g: "map_find (sd_heap s) b = Some y \<Longrightarrow> \<exists>x. map_find h b = Some x \<and> mb_namespace x = mb_namespace y" for b y
    using h [of b] by (cases "map_find h b") auto
  show ?thesis using assms(1,2) f g unfolding buses_ok_def by simp metis
qed

lemma hands_listener: "setListener b s = Inr s' \<Longrightarrow> hands [] s s'"
proof -
  assume "setListener b s = Inr s'"
  then obtain x where x: "map_find (sd_heap s) b = Some x" "s' = s\<lparr>sd_heap := map_set b (x\<lparr>mb_listener := True\<rparr>) (sd_heap s)\<rparr>"
    by (auto simp: setListener_def get_bus_def split: option.splits)
  have "buses_ok s \<Longrightarrow> buses_ok s'"
    unfolding x(2) by (rule buses_ok_heap) (simp_all add: map_find_set x(1) buses_ok_def)
  then show ?thesis
    unfolding x(2) by (simp add: hands_def bus_total_def sent_over_def queued_on_def pending_on_def)
qed

lemma hands_run:
  assumes q: "sd_queue s = t # ts" and s: "run_task t (s\<lparr>sd_queue := ts\<rparr>) = Inr s'"
  shows "hands [] s s'"
proof (cases t)
  case (CloseImpl c)
  with q s show ?thesis
    by (auto simp: run_task_def mc_closeImpl_def hands_def buses_ok_def bus_total_def sent_over_def queued_on_def pending_on_def sdk_emit_def)
next
  case (SendImpl c m)
  with q s show ?thesis
    by (cases c) (auto simp: run_task_def mc_sendImpl_def get_channel_Inr channel_of_def hands_def buses_ok_def bus_total_def
        sent_over_def queued_on_def pending_on_def sdk_emit_def put_channel_def split: if_splits)
qed

lemma posted_again:
  "foldE (\<lambda>t m. mc_send Bus m t) s ms = Inr s' \<Longrightarrow> [] \<notin> set ms \<Longrightarrow> s' = s\<lparr>sd_queue := sd_queue s @ map (SendImpl Bus) ms\<rparr>"
proof (induction ms arbitrary: s)
  case (Cons m ms)
  then obtain t where t: "mc_send Bus m s = Inr t" "foldE (\<lambda>t m. mc_send Bus m t) t ms = Inr s'" by auto
  moreover have "t = s\<lparr>sd_queue := sd_queue s @ [SendImpl Bus m]\<rparr>"
    using t(1) Cons.prems(2) by (auto simp: mc_send_def mc_post_def split: if_splits)
  ultimately show ?case using Cons.IH [OF t(2)] Cons.prems(2) by simp
qed simp

lemma queued_posted [simp]: "concat (map ((\<lambda>t. case t of SendImpl d m \<Rightarrow> if d = Bus then [m] else [] | CloseImpl e \<Rightarrow> []) \<circ> SendImpl Bus) ms) = ms"
  by (induction ms) simp_all

lemma hands_bus_opened:
  assumes "mc_onOpen text Bus s = Inr s'" and ok: "buses_ok s"
  shows "hands [] s s'"
proof -
  obtain x s1 where x: "sd_bus s = Some x" "foldE (\<lambda>t m. mc_send Bus m t) s (mc_pending x) = Inr s1"
    and s': "bm_onOpen (put_channel Bus (Some (x\<lparr>mc_pending := [], mc_opened := True\<rparr>)) s1) = Inr s'"
    using assms(1) by (auto simp: mc_onOpen_def get_channel_Inr channel_of_def Let_def)
  have ne: "[] \<notin> set (mc_pending x)" using ok x(1) by (simp add: buses_ok_def pending_on_def)
  have s1: "s1 = s\<lparr>sd_queue := sd_queue s @ map (SendImpl Bus) (mc_pending x)\<rparr>" by (rule posted_again [OF x(2) ne])
  obtain m where m: "sd_manager s = Some m"
      "s' = (put_channel Bus (Some (x\<lparr>mc_pending := [], mc_opened := True\<rparr>)) s1)\<lparr>sd_manager := Some (m\<lparr>bm_opened := True\<rparr>)\<rparr>"
    using s' unfolding s1 by (auto simp: bm_onOpen_def get_manager_def split: option.splits)
  have q: "queued_on Bus s' = queued_on Bus s @ mc_pending x" "sent_over Bus s' = sent_over Bus s" "pending_on s' = []"
    unfolding m(2) s1 by (simp_all add: queued_on_def sent_over_def pending_on_def put_channel_def)
  have "buses_ok s'"
    using ok m(1) ne q(1) unfolding buses_ok_def q(3) by (simp add: m(2) s1)
  moreover have "bus_total s' = bus_total s" unfolding bus_total_def q using x(1) by (simp add: pending_on_def)
  ultimately show ?thesis unfolding hands_def using x(1) by simp
qed

lemma hands_ipc_opened: "mc_onOpen text Ipc s = Inr s' \<Longrightarrow> hands [] s s'"
proof -
  assume "mc_onOpen text Ipc s = Inr s'"
  then obtain x s1 where s: "foldE (\<lambda>t m. mc_send Ipc m t) s (mc_pending x) = Inr s1"
      "registerSelf text (put_channel Ipc (Some (x\<lparr>mc_pending := [], mc_opened := True\<rparr>)) s1) = Inr s'"
    by (auto simp: mc_onOpen_def Let_def)
  have "quiet s s1" using s(1) by (rule quiet_foldE [rotated]) (rule quiet_send)
  moreover have "quiet (put_channel Ipc (Some (x\<lparr>mc_pending := [], mc_opened := True\<rparr>)) s1) s'"
    using s(2) unfolding registerSelf_def by (rule quiet_ipcSend)
  ultimately have "quiet s s'" using quiet_put quiet_trans by blast
  then show ?thesis by (rule hands_quiet)
qed

lemma hands_closed: "mc_onClose c s = Inr s' \<Longrightarrow> hands [] s s'"
proof -
  assume a: "mc_onClose c s = Inr s'"
  then obtain x where x: "channel_of c s = Some x" by (auto simp: mc_onClose_def get_channel_Inr)
  show ?thesis
  proof (cases c)
    case Ipc
    then have "s' = fm_clear (put_channel Ipc (Some (x\<lparr>mc_opened := False\<rparr>)) s)"
      using a x by (simp add: mc_onClose_def get_channel_def)
    then show ?thesis using hands_Nil_trans [OF hands_quiet [OF quiet_put] hands_fm_clear] by simp
  next
    case Bus
    let ?t = "put_channel Bus (Some (x\<lparr>mc_opened := False\<rparr>)) s"
    have "hands [] s ?t" using x Bus
      by (auto simp: hands_def channel_of_def buses_ok_def bus_total_def pending_on_def)
    moreover have "bm_clear ?t = Inr s'" using a x Bus by (simp add: mc_onClose_def get_channel_def)
    ultimately show ?thesis using hands_Nil_trans hands_bm_clear by blast
  qed
qed

lemma hands_received: "onWsMessage parse text c m s = Inr s' \<Longrightarrow> hands [] s s'"
  by (cases c) (auto simp: onWsMessage_def intro: hands_quiet quiet_ipc_message quiet_rmc_message)

lemma step_hands:
  assumes ne: "\<And>j. text j \<noteq> []" and ok: "buses_ok s" and s: "sdk_step url_ok parse text s e = Inr s'"
  shows "hands (bus_texts text s e) s s'"
proof (cases e)
  case (SdkBusSend b m sender)
  with s show ?thesis using hands_bus_send [OF ne] by (simp del: bus_texts.simps(1))
next
  case (SdkOpened c)
  with s ok show ?thesis by (cases c) (auto split: if_splits intro: hands_bus_opened hands_ipc_opened hands_refl)
next
  case (SdkSetData dat)
  with s have "quiet s s'" by (auto simp: setAdditionalData_def dest: quiet_additional)
  with SdkSetData show ?thesis by (simp add: hands_quiet)
next
  case SdkRun
  with s show ?thesis by (auto split: list.splits intro: hands_run hands_refl)
qed (use s in \<open>auto split: if_splits intro: hands_fm_open hands_fm_close hands_create hands_listener hands_closed hands_received hands_refl\<close>)

lemma buses_ok_new: "buses_ok (new_FlintReceiverManager appId)"
  by (simp add: buses_ok_def new_FlintReceiverManager_def new_MessageBusManager_def new_channel_def pending_on_def queued_on_def)

lemma step_buses_ok:
  assumes "\<And>j. text j \<noteq> []" and "buses_ok s" and "sdk_step url_ok parse text s e = Inr s'"
  shows "buses_ok s'"
  using step_hands [OF assms] assms(2) by (simp add: hands_def)

text \<open>So the lemmas on runs of a machine that may fault apply to the library.\<close>

interpretation library: fallible_machine "sdk_step url_ok parse text" "\<lambda>s. buses_ok s \<and> (\<forall>j. text j \<noteq> [])" for url_ok parse "text"
  by unfold_locales (blast intro: step_buses_ok)

lemma bus_total_run:
  assumes ne: "\<And>j. text j \<noteq> []"
  shows "buses_ok s \<Longrightarrow> foldE (sdk_step url_ok parse text) s es = Inr s' \<Longrightarrow>
    buses_ok s' \<and> (sd_bus s = None \<longrightarrow> sd_bus s' = None) \<and>
    (sd_bus s' \<noteq> None \<longrightarrow> bus_total s' = bus_total s + mset (handed_over url_ok parse text s es))"
proof (induction es arbitrary: s)
  case (Cons e es)
  then obtain t where t: "sdk_step url_ok parse text s e = Inr t" "foldE (sdk_step url_ok parse text) t es = Inr s'" by auto
  have h: "hands (bus_texts text s e) s t" by (rule step_hands [OF ne Cons.prems(1) t(1)])
  then have ok: "buses_ok t" using Cons.prems(1) by (simp add: hands_def)
  show ?case using h Cons.IH [OF ok t(2)] t(1) Cons.prems(1) by (auto simp: hands_def ac_simps)
qed simp

text \<open>
  C22. Once the bus socket is open and the posted tasks have run, every message the application handed to
  a bus has been sent, exactly once, with the namespace of its bus, whatever was handed over before
  the socket opened and however calls, tasks and socket events interleaved.
\<close>

theorem bus_messages_sent_once:
  assumes "\<And>j. text j \<noteq> []"
    and "foldE (sdk_step url_ok parse text) (new_FlintReceiverManager appId) es = Inr s"
    and "sd_bus s = Some x" and "mc_opened x" and "sd_queue s = []"
  shows "mset (sent_over Bus s) = mset (handed_over url_ok parse text (new_FlintReceiverManager appId) es)"
proof -
  let ?n = "new_FlintReceiverManager appId"
  have r: "buses_ok s" "bus_total s = bus_total ?n + mset (handed_over url_ok parse text ?n es)"
    using bus_total_run [OF assms(1) buses_ok_new assms(2)] assms(3) by simp_all
  have "bus_total ?n = {#}"
    by (simp add: bus_total_def sent_over_def queued_on_def pending_on_def new_FlintReceiverManager_def new_channel_def)
  moreover have "bus_total s = mset (sent_over Bus s)"
    using r(1) assms(3-5) by (simp add: bus_total_def queued_on_def pending_on_def buses_ok_def)
  ultimately show ?thesis using r(2) by simp
qed

theorem bus_messages_sent_once_witness:
  "\<exists>s x. foldE (sdk_step (\<lambda>_. True) (\<lambda>_. JNull) (\<lambda>_. ''t'')) (new_FlintReceiverManager ''a'')
       [SdkCreateBus ''n'', SdkOpen, SdkBusSend 0 ''m'' ''x'', SdkRun, SdkOpened Bus, SdkRun] = Inr s
     \<and> sd_bus s = Some x \<and> mset (sent_over Bus s) = {#''t''#}"
proof -
  let ?es = "[SdkCreateBus ''n'', SdkOpen, SdkBusSend 0 ''m'' ''x'', SdkRun, SdkOpened Bus, SdkRun]"
  let ?step = "sdk_step (\<lambda>_. True) (\<lambda>_. JNull) (\<lambda>_. ''t'')"
  have "case foldE ?step (new_FlintReceiverManager ''a'') ?es of Inl _ \<Rightarrow> False
      | Inr s \<Rightarrow> (case sd_bus s of None \<Rightarrow> False | Some x \<Rightarrow> mc_opened x) \<and> sd_queue s = []" by code_simp
  then obtain s x where s: "foldE ?step (new_FlintReceiverManager ''a'') ?es = Inr s" "sd_bus s = Some x" "mc_opened x" "sd_queue s = []"
    by (auto split: sum.splits option.splits)
  have "handed_over (\<lambda>_. True) (\<lambda>_. JNull) (\<lambda>_. ''t'') (new_FlintReceiverManager ''a'') ?es = [''t'']" by code_simp
  then have "mset (sent_over Bus s) = {#''t''#}" using bus_messages_sent_once [OF _ s] by simp
  with s(1,2) show ?thesis by blast
qed

section \<open>From a sender to the application\<close>

lemma cstr_cstr [simp]: "cstr (cstr s) = cstr s"
  by (rule cstr_id) simp

lemma hears_one:
  assumes "distinct (map fst l)" and "\<forall>(k, b) \<in> set l. \<exists>x. map_find (sd_heap s) b = Some x \<and> mb_namespace x = k"
  shows "foldE (\<lambda>t e. bindE (get_bus (snd e) t) (\<lambda>x. if mb_namespace x = n then bus_hear h (snd e) t else Inr t)) s l
    = (case map_of l n of None \<Rightarrow> Inr s | Some b \<Rightarrow> bus_hear h b s)"
  using assms
proof (induction l arbitrary: s)
  case (Cons e l)
  obtain k b where e: "e = (k, b)" by (cases e)
  then obtain x where x: "map_find (sd_heap s) b = Some x" "mb_namespace x = k" using Cons.prems(2) by auto
  show ?case
  proof (cases "k = n")
    case True
    then have n: "map_of l n = None" using Cons.prems(1) e by (simp add: map_of_eq_None_iff)
    obtain t where t: "bus_hear h b s = Inr t" "sd_heap t = sd_heap s"
      using x(1) by (cases "mb_listener x") (auto simp: bus_hear_def get_bus_def)
    have "foldE (\<lambda>t e. bindE (get_bus (snd e) t) (\<lambda>x. if mb_namespace x = n then bus_hear h (snd e) t else Inr t)) t l = Inr t"
      using Cons.IH [of t] Cons.prems t(2) n by simp
    with True x t show ?thesis by (simp add: e get_bus_def)
  next
    case False
    with Cons.IH [of s] Cons.prems x show ?thesis by (simp add: e get_bus_def)
  qed
qed simp

text \<open>The bus of a namespace is the one the manager made for it, and it has a listener.\<close>

definition listening :: "sdk \<Rightarrow> string \<Rightarrow> nat \<Rightarrow> bool" where
  "listening s ns b \<longleftrightarrow>
     (\<exists>m x. sd_manager s = Some m \<and> map_find (bm_buses m) ns = Some b \<and> map_find (sd_heap s) b = Some x \<and> mb_listener x)"

lemma bus_message_heard:
  assumes ok: "buses_ok s" and l: "listening s ns b" and ns: "cstr ns = ns" and d: "parse (cstr raw) = payload_json ns message"
  shows "bm_onMessage parse ''message'' sender raw s = Inr (sdk_emit (SdkHeard b (HeardMessage (cstr message) sender)) s)"
proof -
  obtain m x where m: "sd_manager s = Some m" "map_find (bm_buses m) ns = Some b" and x: "map_find (sd_heap s) b = Some x" "mb_listener x"
    using l unfolding listening_def by blast
  have wf: "map_wf (bm_buses m)" using ok m(1) by (simp add: buses_ok_def)
  have "distinct (map fst (bm_buses m))" using wf unfolding map_wf_def by (simp add: strict_sorted_iff)
  moreover have "\<forall>(k, b) \<in> set (bm_buses m). \<exists>x. map_find (sd_heap s) b = Some x \<and> mb_namespace x = k"
    using ok m(1) map_find_iff [OF wf] by (auto simp: buses_ok_def)
  moreover have "map_of (bm_buses m) ns = Some b"
    using m(2) calculation(1) by (simp add: map_find_iff [OF wf])
  ultimately have "foldE (\<lambda>t e. bindE (get_bus (snd e) t) (\<lambda>x. if mb_namespace x = ns then bus_hear (HeardMessage (cstr message) sender) (snd e) t else Inr t))
      s (bm_buses m) = Inr (sdk_emit (SdkHeard b (HeardMessage (cstr message) sender)) s)"
    using hears_one x by (simp add: bus_hear_def get_bus_def)
  then show ?thesis
    using m(1) d ns by (simp add: bm_onMessage_def get_manager_def payload_json_def jstr_def js_string_def)
qed

text \<open>
  C23. A text that a sender wrote for a namespace, wrapped by the relay of the daemon and received by the
  library, is heard by the listener of exactly the bus of that namespace, with the payload and the
  sender it came from, and nothing else happens.
\<close>

theorem sender_message_heard:
  assumes "\<And>j. text j \<noteq> []"
    and "foldE (sdk_step url_ok parse text) (new_FlintReceiverManager appId) es = Inr s"
    and "connected Bus s" and "listening s ns b" and "cstr ns = ns"
    and "parse (cstr raw) = payload_json ns message"
    and "parse (cstr (message_text text sender raw)) = JObj [(''type'', JStr ''message''), (''senderId'', jstr sender), (''data'', jstr raw)]"
  shows "sdk_step url_ok parse text s (SdkReceived Bus (message_text text sender raw)) =
    Inr (sdk_emit (SdkHeard b (HeardMessage (cstr message) (cstr sender))) s)"
proof -
  have ok: "buses_ok s" using library.run_inv [OF _ assms(2)] assms(1) buses_ok_new by blast
  obtain x where x: "channel_of Bus s = Some x" using assms(3) by (auto simp: connected_def split: option.splits)
  have "rmc_onMessage parse (message_text text sender raw) s = bm_onMessage parse ''message'' (cstr sender) (cstr raw) s"
    using assms(7) by (simp add: rmc_onMessage_def Let_def jstr_def js_string_def cstr_def)
  also have "\<dots> = Inr (sdk_emit (SdkHeard b (HeardMessage (cstr message) (cstr sender))) s)"
    using assms(6) by (intro bus_message_heard [OF ok assms(4,5)]) simp
  finally show ?thesis using assms(3) x by (simp add: onWsMessage_def get_channel_def)
qed

text \<open>A library with one bus, open, and a JSON library that knows the texts it meets.\<close>

definition sample_json :: "string \<Rightarrow> json" where
  "sample_json t = (if t = ''raw'' then payload_json ''n'' ''hi'' else
     JObj [(''type'', JStr ''message''), (''senderId'', jstr ''u''), (''data'', jstr ''raw'')])"

definition sample_events :: "sdk_event list" where
  "sample_events = [SdkCreateBus ''n'', SdkSetListener 0, SdkOpen, SdkOpened Bus]"

theorem sender_message_heard_witness:
  "\<exists>s. foldE (sdk_step (\<lambda>_. True) sample_json (\<lambda>_. ''t'')) (new_FlintReceiverManager ''a'') sample_events = Inr s
     \<and> sdk_step (\<lambda>_. True) sample_json (\<lambda>_. ''t'') s (SdkReceived Bus (message_text (\<lambda>_. ''t'') ''u'' ''raw''))
       = Inr (sdk_emit (SdkHeard 0 (HeardMessage (cstr ''hi'') (cstr ''u''))) s)"
proof -
  let ?step = "sdk_step (\<lambda>_. True) sample_json (\<lambda>_. ''t'')"
  have "case foldE ?step (new_FlintReceiverManager ''a'') sample_events of Inl _ \<Rightarrow> False
      | Inr s \<Rightarrow> connected Bus s \<and> (case sd_manager s of None \<Rightarrow> False | Some m \<Rightarrow> map_find (bm_buses m) ''n'' = Some 0)
          \<and> (case map_find (sd_heap s) 0 of None \<Rightarrow> False | Some x \<Rightarrow> mb_listener x)" by code_simp
  then obtain s where s: "foldE ?step (new_FlintReceiverManager ''a'') sample_events = Inr s" "connected Bus s" "listening s ''n'' 0"
    by (auto simp: listening_def split: sum.splits option.splits)
  have c: "cstr ''n'' = ''n''" "sample_json (cstr ''raw'') = payload_json ''n'' ''hi''"
    "sample_json (cstr (message_text (\<lambda>_. ''t'') ''u'' ''raw'')) = JObj [(''type'', JStr ''message''), (''senderId'', jstr ''u''), (''data'', jstr ''raw'')]"
    by (simp_all add: cstr_def sample_json_def message_text_def)
  from sender_message_heard [OF _ s c] s(1) show ?thesis by blast
qed

section \<open>From the application to the senders\<close>

lemma idle_queue: "sd_queue s = [] \<Longrightarrow> s\<lparr>sd_queue := []\<rparr> = s" for s :: sdk
  by (cases s) simp

text \<open>
  C24. A message an application sends to a sender, or to all, over an open bus leaves the library as one
  text; received by the daemon on the channel of the application, that text makes the relay send the
  payload, with the namespace of the bus, to exactly the senders it is meant for.
\<close>

theorem application_message_delivered:
  assumes "\<And>j. text j \<noteq> []"
    and lib: "sd_bus s = Some x" "mc_asio x" "mc_opened x" "sd_queue s = []" "map_find (sd_heap s) b = Some y"
    and daemon: "foldE (channel_step parse text) init_ws_server es = Inr d" "map_find (wn_sessions (wv_net d)) i = Some w" "\<not> wss_closing w"
      "wss_handlers w = [ReceiverHandler p]" "map_find (wv_rcs d) p = Some c"
    and json: "parse (cstr (bus_text text (mb_namespace y) message to)) = to_sender_json (text (payload_json (mb_namespace y) message)) to"
  shows "foldE (sdk_step url_ok parse text) s [SdkBusSend b message to, SdkRun]
      = Inr (sdk_emit (SdkSend Bus (bus_text text (mb_namespace y) message to)) s)
    \<and> channel_step parse text d (WsMessage i (bus_text text (mb_namespace y) message to)) = Inr (emit
        (map (\<lambda>e. WsSend (sdc_session (the (map_find (wv_scs d) (snd e)))) (cstr (text (payload_json (mb_namespace y) message))))
          (filter (\<lambda>e. cstr to = ''*:*'' \<or> fst e = cstr to) (rcc_senders c))) d)"
proof
  let ?t = "bus_text text (mb_namespace y) message to"
  have "sdk_step url_ok parse text s (SdkBusSend b message to) = Inr (s\<lparr>sd_queue := [SendImpl Bus ?t]\<rparr>)"
    using assms(1) lib by (simp add: bus_send_def get_bus_def mc_send_to_def mc_send_def mc_post_def get_channel_def channel_of_def bus_text_def)
  moreover have "sdk_step url_ok parse text (s\<lparr>sd_queue := [SendImpl Bus ?t]\<rparr>) SdkRun = Inr (sdk_emit (SdkSend Bus ?t) s)"
    using lib by (simp add: run_task_def mc_sendImpl_def get_channel_def channel_of_def idle_queue)
  ultimately show "foldE (sdk_step url_ok parse text) s [SdkBusSend b message to, SdkRun] = Inr (sdk_emit (SdkSend Bus ?t) s)"
    by (simp del: sdk_step.simps)
  show "channel_step parse text d (WsMessage i ?t) = Inr (emit
        (map (\<lambda>e. WsSend (sdc_session (the (map_find (wv_scs d) (snd e)))) (cstr (text (payload_json (mb_namespace y) message))))
          (filter (\<lambda>e. cstr to = ''*:*'' \<or> fst e = cstr to) (rcc_senders c))) d)"
    using receiver_message_sends [OF daemon json [unfolded to_sender_json_def], of "cstr to" "cstr (text (payload_json (mb_namespace y) message))"]
    by (simp add: jstr_def)
qed

theorem application_message_delivered_witness:
  "\<exists>s. foldE (sdk_step (\<lambda>_. True) sample_parse (\<lambda>_. ''text'')) s [SdkBusSend 0 ''hi'' ''*:*'', SdkRun]
       = Inr (sdk_emit (SdkSend Bus ''text'') s)
     \<and> channel_step sample_parse (\<lambda>_. ''text'') sample_server (WsMessage 1 ''text'')
       = Inr (emit [WsSend 2 ''text'', WsSend 3 ''text''] sample_server)"
proof -
  let ?step = "sdk_step (\<lambda>_. True) sample_parse (\<lambda>_. ''text'')"
  have "case foldE ?step (new_FlintReceiverManager ''a'') sample_events of Inl _ \<Rightarrow> False
      | Inr s \<Rightarrow> (case sd_bus s of None \<Rightarrow> False | Some x \<Rightarrow> mc_asio x \<and> mc_opened x) \<and> sd_queue s = []
          \<and> map_find (sd_heap s) 0 = Some \<lparr>mb_namespace = ''n'', mb_listener = True\<rparr>" by code_simp
  then obtain s x where "foldE ?step (new_FlintReceiverManager ''a'') sample_events = Inr s"
      and s: "sd_bus s = Some x" "mc_asio x" "mc_opened x" "sd_queue s = []"
      "map_find (sd_heap s) 0 = Some \<lparr>mb_namespace = ''n'', mb_listener = True\<rparr>"
    by (auto split: sum.splits option.splits)
  have w: "map_find (wn_sessions (wv_net sample_server)) 1 = Some \<lparr>wss_closing = False, wss_handlers = [ReceiverHandler 0]\<rparr>"
    "\<not> wss_closing \<lparr>wss_closing = False, wss_handlers = [ReceiverHandler 0]\<rparr>"
    "wss_handlers \<lparr>wss_closing = False, wss_handlers = [ReceiverHandler 0]\<rparr> = [ReceiverHandler 0]"
    "map_find (wv_rcs sample_server) 0 = Some \<lparr>rcc_session = 1, rcc_channelId = ''tv'', rcc_senders = [(''a'', 1), (''b'', 2)]\<rparr>"
    by (simp_all add: sample_server_eq)
  have j: "sample_parse (cstr (bus_text (\<lambda>_. ''text'') (mb_namespace \<lparr>mb_namespace = ''n'', mb_listener = True\<rparr>) ''hi'' ''*:*''))
      = to_sender_json ''text'' ''*:*''"
    by (simp add: bus_text_def sample_parse_def to_sender_json_def jstr_def cstr_def)
  from application_message_delivered [OF _ s sample_server_run w j, of "\<lambda>_. True"]
  show ?thesis by (intro exI [of _ s]) (simp add: bus_text_def sample_server_eq cstr_def)
qed

text \<open>
  C25. Closing a manager whose sockets have been opened posts tasks for the two channels and then deletes
  both: the first task runs on a channel that is gone.
\<close>

theorem closing_faults:
  assumes "\<And>j. text j \<noteq> []"
    and "fm_opened s" and "fm_ipc s" and "fm_manager s" and "sd_manager s = Some m" and "bm_channel m"
    and "connected Ipc s" and "connected Bus s" and "sd_queue s = []"
  shows "foldE (sdk_step url_ok parse text) s [SdkCloseCall, SdkRun] = Inl UseAfterFree"
  using assms
  by (auto simp: fm_close_def unRegisterSelf_def ipcSend_def mc_send_def mc_close_def mc_post_def get_channel_def channel_of_def connected_def
      bm_close_def get_manager_def bm_clear_def fm_clear_def put_channel_def run_task_def mc_sendImpl_def Let_def split: option.splits)

theorem closing_faults_witness:
  "\<exists>s. foldE (sdk_step (\<lambda>_. True) (\<lambda>_. JNull) (\<lambda>_. ''t'')) (new_FlintReceiverManager ''a'') [SdkOpen] = Inr s
     \<and> foldE (sdk_step (\<lambda>_. True) (\<lambda>_. JNull) (\<lambda>_. ''t'')) s [SdkCloseCall, SdkRun] = Inl UseAfterFree"
proof -
  let ?step = "sdk_step (\<lambda>_. True) (\<lambda>_. JNull) (\<lambda>_. ''t'')"
  have "case foldE ?step (new_FlintReceiverManager ''a'') [SdkOpen] of Inl _ \<Rightarrow> False
      | Inr s \<Rightarrow> fm_opened s \<and> fm_ipc s \<and> fm_manager s \<and> (case sd_manager s of None \<Rightarrow> False | Some m \<Rightarrow> bm_channel m)
          \<and> connected Ipc s \<and> connected Bus s \<and> sd_queue s = []" by code_simp
  then obtain s m where s: "foldE ?step (new_FlintReceiverManager ''a'') [SdkOpen] = Inr s" "fm_opened s" "fm_ipc s" "fm_manager s"
      "sd_manager s = Some m" "bm_channel m" "connected Ipc s" "connected Bus s" "sd_queue s = []"
    by (auto split: sum.splits option.splits)
  from closing_faults [OF _ s(2-)] have "foldE ?step s [SdkCloseCall, SdkRun] = Inl UseAfterFree" by simp
  with s(1) show ?thesis by blast
qed

text \<open>
  When the registration socket goes away the manager of the buses is deleted, but its socket is not: the
  next message of a sender is delivered to the deleted manager.
\<close>

lemma lost_registration_faults:
  assumes "fm_manager s" and "connected Ipc s" and "connected Bus s"
    and "parse (cstr t) = JObj [(''type'', JStr ''senderConnected''), (''senderId'', JStr sender)]"
  shows "foldE (sdk_step url_ok parse text) s [SdkClosed Ipc, SdkReceived Bus t] = Inl UseAfterFree"
  using assms
  by (auto simp: mc_onClose_def get_channel_def channel_of_def connected_def fm_clear_def put_channel_def Let_def onWsMessage_def
      rmc_onMessage_def bm_onMessage_def get_manager_def cstr_def split: option.splits)

text \<open>
  A message posted before the socket opens but not yet run overtakes those that were waiting for it.
\<close>

lemma waiting_message_overtaken:
  "case foldE (sdk_step (\<lambda>_. True) (\<lambda>_. JNull) (\<lambda>j. case j of JObj ((_, JStr m) # _) \<Rightarrow> m | _ \<Rightarrow> ''x'')) (new_FlintReceiverManager ''a'')
       [SdkCreateBus ''n'', SdkOpen, SdkBusSend 0 [] ''first'', SdkRun, SdkBusSend 0 [] ''second'', SdkOpened Bus, SdkRun, SdkRun] of
     Inl _ \<Rightarrow> False | Inr s \<Rightarrow> sent_over Bus s = [''second'', ''first'']"
  by code_simp

end
