(* ===== verification/Media.thy ===== *)
theory Media
  imports Messaging
begin

text \<open>
  The media controller of the receiver library (src/sdk/receiver/src/media): \<open>MediaManager\<close> takes the
  requests of the senders from its message bus, hands them to the media player of the application
  and reports the status of the player, with the id of the request the report answers.

  The player is the application's: its readings at the time of a report are a \<open>player_view\<close>, and the
  calls it gets are recorded in order, as are the texts handed to the bus. The ids of the requests
  have no initial value; a report before the first request of its kind uses one that was never
  written. The fields \<open>duration_\<close>, \<open>volume_\<close> and \<open>muted_\<close> are written and read by a report only, so they
  are the readings themselves, and the other three numbers never change. \<open>parse\<close> and \<open>text\<close> are the JSON library; a floating point number is \<open>(m, e)\<close> for \<open>m * 2 ^ e\<close>.
\<close>

section \<open>MediaInfo\<close>

record media_image =
  im_height :: int
  im_width :: int
  im_url :: string

record metadata =
  md_studio :: string
  md_title :: string
  md_subtitle :: string
  md_type :: int
  md_images :: "media_image option list"

record media_info =
  mi_streamType :: string
  mi_duration :: int
  mi_contentType :: string
  mi_contentId :: string
  mi_metadata :: "metadata option"

text \<open>The tests of the \<open>create\<close> functions: the first null member ends them.\<close>

fun any_null :: "json \<Rightarrow> string list \<Rightarrow> fault + bool" where
  "any_null value [] = Inr False"
| "any_null value (k # ks) = bindE (js_member value k) (\<lambda>j. if j = JNull then Inr True else any_null value ks)"

definition js_field :: "json \<Rightarrow> string \<Rightarrow> (json \<Rightarrow> fault + 'a) \<Rightarrow> fault + 'a" where
  "js_field value k get = bindE (js_member value k) get"

definition image_create :: "json \<Rightarrow> fault + media_image option" where
  "image_create value =
     (if value = JNull then Inr None
      else
        bindE (any_null value [''url'', ''height'', ''width'']) (\<lambda>null.
        if null then Inr None
        else
          bindE (js_field value ''height'' js_int) (\<lambda>h.
          bindE (js_field value ''width'' js_int) (\<lambda>w.
          bindE (js_field value ''url'' js_string) (\<lambda>u.
          Inr (Some \<lparr>im_height = h, im_width = w, im_url = u\<rparr>))))))"

fun images_create :: "json list \<Rightarrow> fault + media_image option list" where
  "images_create [] = Inr []"
| "images_create (j # js) = bindE (image_create j) (\<lambda>i. bindE (images_create js) (\<lambda>is'. Inr (i # is')))"

definition metadata_create :: "json \<Rightarrow> fault + metadata option" where
  "metadata_create value =
     (if value = JNull then Inr None
      else
        bindE (any_null value [''studio'', ''title'', ''subtitle'', ''metadataType'', ''images'']) (\<lambda>null.
        if null then Inr None
        else
          bindE (js_field value ''studio'' js_string) (\<lambda>studio.
          bindE (js_field value ''title'' js_string) (\<lambda>title.
          bindE (js_field value ''subtitle'' js_string) (\<lambda>subtitle.
          bindE (js_field value ''metadataType'' js_int) (\<lambda>type.
          bindE (js_field value ''images'' (\<lambda>j. case j of JArr js \<Rightarrow> images_create js | _ \<Rightarrow> Inr [])) (\<lambda>images.
          Inr (Some \<lparr>md_studio = studio, md_title = title, md_subtitle = subtitle, md_type = type, md_images = images\<rparr>))))))))"

definition media_info_create :: "json \<Rightarrow> fault + media_info option" where
  "media_info_create value =
     (if value = JNull then Inr None
      else
        bindE (any_null value [''streamType'', ''duration'', ''contentType'', ''contentId'', ''metadata'']) (\<lambda>null.
        if null then Inr None
        else
          bindE (js_field value ''streamType'' js_string) (\<lambda>streamType.
          bindE (js_field value ''duration'' js_int) (\<lambda>duration.
          bindE (js_field value ''contentType'' js_string) (\<lambda>contentType.
          bindE (js_field value ''contentId'' js_string) (\<lambda>contentId.
          bindE (js_field value ''metadata'' metadata_create) (\<lambda>md.
          Inr (Some \<lparr>mi_streamType = streamType, mi_duration = duration, mi_contentType = contentType,
            mi_contentId = contentId, mi_metadata = md\<rparr>))))))))"

section \<open>State\<close>

type_synonym dbl = "int \<times> int"

datatype player_call = PlayerLoad string | PlayerPlay | PlayerPause | PlayerSeek dbl | PlayerSetVolume dbl

record player_view =
  pv_duration :: dbl
  pv_currentTime :: dbl
  pv_volume :: dbl
  pv_mute :: bool
  pv_status :: string

datatype request_kind = Load | Play | Pause | Seek | SetVolume

record media_manager =
  mm_player :: bool
  mm_info :: "media_info option"
  mm_playerState :: string
  mm_currentTime :: "dbl option"
  mm_requestId :: "request_kind \<Rightarrow> int option"
  mm_calls :: "player_call list"
  mm_sent :: "string list"

definition new_MediaManager :: media_manager where
  "new_MediaManager =
     \<lparr>mm_player = False, mm_info = None, mm_playerState = ''IDLE'', mm_currentTime = None,
      mm_requestId = (\<lambda>_. None), mm_calls = [], mm_sent = []\<rparr>"

section \<open>Requests\<close>

text \<open>What every request does: it is remembered under its kind and the player is called.\<close>

definition player_request :: "request_kind \<Rightarrow> int \<Rightarrow> player_call \<Rightarrow> media_manager \<Rightarrow> media_manager" where
  "player_request k requestId call s =
     (if mm_player s then
        s\<lparr>mm_requestId := (mm_requestId s)(k := Some requestId), mm_calls := mm_calls s @ [call]\<rparr>
      else s)"

text \<open>A description that is not complete is logged as a string, which it is not.\<close>

definition doLoad :: "json \<Rightarrow> int \<Rightarrow> media_manager \<Rightarrow> fault + media_manager" where
  "doLoad value requestId s =
     bindE (media_info_create value) (\<lambda>info.
     case info of
       Some i \<Rightarrow> Inr (player_request Load requestId (PlayerLoad (mi_contentId i)) (s\<lparr>mm_info := Some i\<rparr>))
     | None \<Rightarrow> bindE (js_string value) (\<lambda>_. Inr s))"

definition doPlay :: "int \<Rightarrow> media_manager \<Rightarrow> media_manager" where
  "doPlay requestId s = player_request Play requestId PlayerPlay s"

definition doPause :: "int \<Rightarrow> media_manager \<Rightarrow> media_manager" where
  "doPause requestId s = player_request Pause requestId PlayerPause s"

definition doSeek :: "dbl \<Rightarrow> int \<Rightarrow> media_manager \<Rightarrow> media_manager" where
  "doSeek position requestId s = player_request Seek requestId (PlayerSeek position) s"

definition doSetVolume :: "dbl \<Rightarrow> int \<Rightarrow> media_manager \<Rightarrow> media_manager" where
  "doSetVolume volume requestId s = player_request SetVolume requestId (PlayerSetVolume volume) s"

section \<open>Reports\<close>

definition image_json :: "media_image option \<Rightarrow> json list" where
  "image_json i =
     (case i of None \<Rightarrow> []
      | Some i \<Rightarrow> if im_url i \<noteq> [] then [JObj [(''height'', JInt (im_height i)), (''width'', JInt (im_width i)), (''url'', jstr (im_url i))]] else [])"

definition text_field :: "string \<Rightarrow> string \<Rightarrow> (string \<times> json) list" where
  "text_field k v = (if v \<noteq> [] then [(k, jstr v)] else [])"

definition metadata_fields :: "metadata \<Rightarrow> (string \<times> json) list" where
  "metadata_fields m =
     text_field ''title'' (md_title m) @ text_field ''subtitle'' (md_subtitle m) @
     (if md_images m \<noteq> [] then [(''images'', JArr (concat (map image_json (md_images m))))] else []) @
     [(''metadataType'', JInt (md_type m))]"

definition media_json :: "dbl \<Rightarrow> media_info \<Rightarrow> json" where
  "media_json duration i = JObj
     (text_field ''streamType'' (mi_streamType i) @
      [(''duration'', JDouble (fst duration) (snd duration))] @
      text_field ''contentType'' (mi_contentType i) @ text_field ''contentId'' (mi_contentId i) @
      (case mi_metadata i of None \<Rightarrow> [] | Some m \<Rightarrow> metadata_fields m) @
      [(''metadata'', JObj [])])"

definition status_json :: "player_view \<Rightarrow> string \<Rightarrow> media_info option \<Rightarrow> int \<Rightarrow> json" where
  "status_json v playerState info requestId = JObj
     [(''type'', JStr ''MEDIA_STATUS''),
      (''status'', JArr [JObj
        ([(''mediaSessionId'', JInt 1), (''playbackRate'', JInt 1), (''supportedMediaCommands'', JInt 15),
          (''currentTime'', JDouble (fst (pv_currentTime v)) (snd (pv_currentTime v))),
          (''duration'', JDouble (fst (pv_duration v)) (snd (pv_duration v))),
          (''volume'', JObj [(''level'', JDouble (fst (pv_volume v)) (snd (pv_volume v))), (''muted'', JBool (pv_mute v))]),
          (''playerState'', jstr playerState)] @
         (case info of None \<Rightarrow> [] | Some i \<Rightarrow> [(''media'', media_json (pv_duration v) i)]))]),
      (''requestId'', JInt requestId)]"

definition postPlayerStatus :: "(json \<Rightarrow> string) \<Rightarrow> player_view \<Rightarrow> int \<Rightarrow> string \<Rightarrow> media_manager \<Rightarrow> media_manager" where
  "postPlayerStatus text v requestId status s =
     (if mm_player s then
        let st = (if status = [] then pv_status v else status)
        in s\<lparr>mm_playerState := st, mm_currentTime := Some (pv_currentTime v),
             mm_sent := mm_sent s @ [text (status_json v st (mm_info s) requestId)]\<rparr>
      else s)"

definition doGetStatus :: "(json \<Rightarrow> string) \<Rightarrow> player_view \<Rightarrow> int \<Rightarrow> media_manager \<Rightarrow> media_manager" where
  "doGetStatus text v requestId s = postPlayerStatus text v requestId [] s"

text \<open>The callbacks that answer a request, and those that only report.\<close>

definition answer :: "(json \<Rightarrow> string) \<Rightarrow> request_kind \<Rightarrow> string \<Rightarrow> player_view \<Rightarrow> media_manager \<Rightarrow> fault + media_manager" where
  "answer text k status v s =
     (case mm_requestId s k of
        None \<Rightarrow> Inl Uninitialised
      | Some r \<Rightarrow>
          let s1 = postPlayerStatus text v r status s
          in Inr (s1\<lparr>mm_requestId := (mm_requestId s1)(k := Some 0)\<rparr>))"

datatype callback = OnLoaded | OnPlaying | OnBuffering | OnPaused | OnIdle | OnEnded | OnError | OnSeeked | OnVolumeChanged

fun player_callback :: "(json \<Rightarrow> string) \<Rightarrow> callback \<Rightarrow> player_view \<Rightarrow> media_manager \<Rightarrow> fault + media_manager" where
  "player_callback text OnLoaded v s = answer text Load ''PLAYING'' v s"
| "player_callback text OnPlaying v s = answer text Play ''PLAYING'' v s"
| "player_callback text OnBuffering v s = Inr (postPlayerStatus text v 0 ''BUFFERING'' s)"
| "player_callback text OnPaused v s = answer text Pause ''PAUSED'' v s"
| "player_callback text OnIdle v s = Inr (postPlayerStatus text v 0 ''IDLE'' s)"
| "player_callback text OnEnded v s = Inr (postPlayerStatus text v 0 ''IDLE'' s)"
| "player_callback text OnError v s = Inr (postPlayerStatus text v 0 ''IDLE'' s)"
| "player_callback text OnSeeked v s = answer text Seek ''PLAYING'' v s"
| "player_callback text OnVolumeChanged v s = answer text SetVolume ''PAUSED'' v s"

section \<open>Messages\<close>

definition unit_level :: "dbl \<Rightarrow> bool" where
  "unit_level d \<longleftrightarrow> 0 \<le> fst d \<and> (if 0 \<le> snd d then fst d * 2 ^ nat (snd d) \<le> 1 else fst d \<le> 2 ^ nat (- snd d))"

text \<open>The guards on \<open>requestId\<close> and \<open>type\<close> ask for a value that is null and not null, so they never hold.\<close>

definition media_onMessage ::
  "(string \<Rightarrow> json) \<Rightarrow> (json \<Rightarrow> string) \<Rightarrow> player_view \<Rightarrow> string \<Rightarrow> media_manager \<Rightarrow> fault + media_manager" where
  "media_onMessage parse text v message s =
     (let d = parse (cstr message)
      in if d = JNull then Inr s
         else
           bindE (js_member d ''requestId'') (\<lambda>requestId.
           bindE (js_int requestId) (\<lambda>r.
           bindE (js_member d ''type'') (\<lambda>type.
           bindE (js_string type) (\<lambda>typeStr.
           if typeStr = ''LOAD'' then
             bindE (js_member d ''currentTime'') (\<lambda>currentTime.
             bindE (js_member d ''media'') (\<lambda>media.
             doLoad media r (case currentTime of JDouble m e \<Rightarrow> s\<lparr>mm_currentTime := Some (m, e)\<rparr> | _ \<Rightarrow> s)))
           else if typeStr = ''PAUSE'' then Inr (doPause r s)
           else if typeStr = ''PLAY'' then Inr (doPlay r s)
           else if typeStr = ''SET_VOLUME'' then
             bindE (js_member d ''volume'') (\<lambda>volume.
             case volume of
               JObj ms \<Rightarrow>
                 (case lookup_member ms ''level'' of
                    JDouble m e \<Rightarrow> if unit_level (m, e) then Inr (doSetVolume (m, e) r s) else Inr s
                  | _ \<Rightarrow> Inr s)
             | _ \<Rightarrow> Inr s)
           else if typeStr = ''SEEK'' then
             bindE (js_member d ''currentTime'') (\<lambda>currentTime.
             case currentTime of JDouble m e \<Rightarrow> Inr (doSeek (m, e) r s) | _ \<Rightarrow> Inr s)
           else if typeStr = ''GET_STATUS'' then Inr (doGetStatus text v r s)
           else Inr s)))))"

datatype media_event = SetPlayer bool | MediaMessage player_view string | PlayerCallback callback player_view

fun media_step :: "(string \<Rightarrow> json) \<Rightarrow> (json \<Rightarrow> string) \<Rightarrow> media_manager \<Rightarrow> media_event \<Rightarrow> fault + media_manager" where
  "media_step parse text s (SetPlayer p) = Inr (s\<lparr>mm_player := p\<rparr>)"
| "media_step parse text s (MediaMessage v m) = media_onMessage parse text v m s"
| "media_step parse text s (PlayerCallback c v) = player_callback text c v s"

section \<open>Every report answers the request it belongs to\<close>

definition answered_kind :: "callback \<Rightarrow> request_kind option" where
  "answered_kind c = (case c of OnLoaded \<Rightarrow> Some Load | OnPlaying \<Rightarrow> Some Play | OnPaused \<Rightarrow> Some Pause
     | OnSeeked \<Rightarrow> Some Seek | OnVolumeChanged \<Rightarrow> Some SetVolume | _ \<Rightarrow> None)"

text \<open>
  The request a message makes of the player, read off the document: a complete description for a
  load, a floating point position for a seek, and a floating point level from 0 to 1 for the volume.
\<close>

definition request_of :: "json \<Rightarrow> (request_kind \<times> int \<times> player_call) option" where
  "request_of d =
     (case d of
        JObj ms \<Rightarrow>
          (case (lookup_member ms ''requestId'', lookup_member ms ''type'') of
             (JInt r, JStr t) \<Rightarrow>
               if cstr t = ''PLAY'' then Some (Play, r, PlayerPlay)
               else if cstr t = ''PAUSE'' then Some (Pause, r, PlayerPause)
               else if cstr t = ''SEEK'' then
                 (case lookup_member ms ''currentTime'' of JDouble m e \<Rightarrow> Some (Seek, r, PlayerSeek (m, e)) | _ \<Rightarrow> None)
               else if cstr t = ''SET_VOLUME'' then
                 (case lookup_member ms ''volume'' of
                    JObj vs \<Rightarrow> (case lookup_member vs ''level'' of
                        JDouble m e \<Rightarrow> if unit_level (m, e) then Some (SetVolume, r, PlayerSetVolume (m, e)) else None
                      | _ \<Rightarrow> None)
                  | _ \<Rightarrow> None)
               else if cstr t = ''LOAD'' then
                 (case media_info_create (lookup_member ms ''media'') of
                    Inr (Some i) \<Rightarrow> Some (Load, r, PlayerLoad (mi_contentId i))
                  | _ \<Rightarrow> None)
               else None
           | _ \<Rightarrow> None)
      | _ \<Rightarrow> None)"

text \<open>The id a kind of request is waiting with, from the latest event back.\<close>

fun waiting_id :: "(string \<Rightarrow> json) \<Rightarrow> request_kind \<Rightarrow> media_event list \<Rightarrow> int option" where
  "waiting_id parse k [] = None"
| "waiting_id parse k (PlayerCallback c v # es) = (if answered_kind c = Some k then Some 0 else waiting_id parse k es)"
| "waiting_id parse k (MediaMessage v m # es) =
     (case request_of (parse (cstr m)) of
        Some (k', r, _) \<Rightarrow> if k' = k then Some r else waiting_id parse k es
      | None \<Rightarrow> waiting_id parse k es)"
| "waiting_id parse k (SetPlayer p # es) = waiting_id parse k es"

definition requested :: "(string \<Rightarrow> json) \<Rightarrow> media_event list \<Rightarrow> player_call list" where
  "requested parse es = concat (map (\<lambda>e. case e of
     MediaMessage v m \<Rightarrow> (case request_of (parse (cstr m)) of Some (k, r, call) \<Rightarrow> [call] | None \<Rightarrow> []) | _ \<Rightarrow> []) es)"

definition takes :: "(request_kind \<times> int \<times> player_call) option \<Rightarrow> media_manager \<Rightarrow> media_manager \<Rightarrow> bool" where
  "takes q s s' \<longleftrightarrow> mm_player s' = mm_player s \<and>
     (case q of
        None \<Rightarrow> mm_requestId s' = mm_requestId s \<and> mm_calls s' = mm_calls s
      | Some (k, r, call) \<Rightarrow> mm_requestId s' = (mm_requestId s)(k := Some r) \<and> mm_calls s' = mm_calls s @ [call])"

lemma takes_None [simp]: "takes None s s"
  by (simp add: takes_def)

lemma takes_request: "mm_player s \<Longrightarrow> takes (Some (k, r, call)) s (player_request k r call s)"
  by (simp add: takes_def player_request_def)

lemma takes_status: "takes None s (postPlayerStatus text v r st s)"
  by (simp add: takes_def postPlayerStatus_def Let_def)

lemma takes_time: "takes q (s\<lparr>mm_currentTime := c\<rparr>) s' \<longleftrightarrow> takes q s s'" "takes q (s\<lparr>mm_info := i\<rparr>) s' \<longleftrightarrow> takes q s s'"
  by (simp_all add: takes_def split: option.split)

lemma takes_load:
  assumes "doLoad media r s = Inr s'" and "mm_player s"
  shows "takes (case media_info_create media of Inr (Some i) \<Rightarrow> Some (Load, r, PlayerLoad (mi_contentId i)) | _ \<Rightarrow> None) s s'"
proof (cases "media_info_create media")
  case (Inr info)
  show ?thesis
  proof (cases info)
    case None
    with Inr assms show ?thesis by (auto simp: doLoad_def)
  next
    case (Some i)
    have "s' = player_request Load r (PlayerLoad (mi_contentId i)) (s\<lparr>mm_info := info\<rparr>)" using Inr Some assms(1) by (simp add: doLoad_def)
    with takes_request [of "s\<lparr>mm_info := info\<rparr>" Load r "PlayerLoad (mi_contentId i)"] Inr Some assms(2)
    show ?thesis by (simp add: takes_time)
  qed
qed (use assms in \<open>simp add: doLoad_def\<close>)

lemma js_member_Inr: "js_member d k = Inr j \<longleftrightarrow> (\<exists>ms. d = JObj ms \<and> j = lookup_member ms k)"
  by (cases d) (auto simp: js_member_def)

lemma js_int_Inr: "js_int j = Inr r \<longleftrightarrow> j = JInt r"
  by (cases j) (auto simp: js_int_def)

lemma js_string_Inr: "js_string j = Inr t \<longleftrightarrow> (\<exists>u. j = JStr u \<and> t = cstr u)"
  by (cases j) (auto simp: js_string_def)

lemma message_takes:
  assumes m: "media_onMessage parse text v m s = Inr s'" and p: "mm_player s"
  shows "takes (request_of (parse (cstr m))) s s'"
proof (cases "parse (cstr m) = JNull")
  case True
  with m show ?thesis by (simp add: media_onMessage_def request_of_def)
next
  case False
  with m obtain rj r tj t where j: "js_member (parse (cstr m)) ''requestId'' = Inr rj" "js_int rj = Inr r"
      "js_member (parse (cstr m)) ''type'' = Inr tj" "js_string tj = Inr t"
    by (auto simp: media_onMessage_def Let_def)
  then obtain ms u where d: "parse (cstr m) = JObj ms" and r: "lookup_member ms ''requestId'' = JInt r" and u: "lookup_member ms ''type'' = JStr u"
    unfolding js_member_Inr js_int_Inr js_string_Inr by auto
  note e = m [unfolded media_onMessage_def d Let_def js_access bindE_simps r u, simplified]
  consider "cstr u = ''LOAD''" | "cstr u = ''PAUSE''" | "cstr u = ''PLAY''" | "cstr u = ''SET_VOLUME''" | "cstr u = ''SEEK''" | "cstr u = ''GET_STATUS''"
    | "cstr u \<notin> {''LOAD'', ''PAUSE'', ''PLAY'', ''SET_VOLUME'', ''SEEK'', ''GET_STATUS''}" by blast
  then show ?thesis
  proof cases
    case 1
    then have "\<exists>c. doLoad (lookup_member ms ''media'') r (s\<lparr>mm_currentTime := c\<rparr>) = Inr s'"
      using e by (cases "lookup_member ms ''currentTime''") (auto intro: exI [of _ "mm_currentTime s"])
    then obtain c where "doLoad (lookup_member ms ''media'') r (s\<lparr>mm_currentTime := c\<rparr>) = Inr s'" by blast
    from takes_load [OF this] p 1 show ?thesis by (simp add: request_of_def d r u takes_time)
  next
    case 2
    with e p show ?thesis by (auto simp: request_of_def d r u doPause_def intro: takes_request)
  next
    case 3
    with e p show ?thesis by (auto simp: request_of_def d r u doPlay_def intro: takes_request)
  next
    case 4
    with e p show ?thesis
      by (auto simp: request_of_def d r u doSetVolume_def intro: takes_request split: json.splits if_splits)
  next
    case 5
    with e p show ?thesis by (auto simp: request_of_def d r u doSeek_def intro: takes_request split: json.splits)
  next
    case 6
    with e p show ?thesis by (auto simp: request_of_def d r u doGetStatus_def intro: takes_status)
  next
    case 7
    with e p show ?thesis by (auto simp: request_of_def d r u)
  qed
qed

lemma status_fields [simp]:
  "mm_player (postPlayerStatus text v r st s) = mm_player s" "mm_requestId (postPlayerStatus text v r st s) = mm_requestId s"
  "mm_calls (postPlayerStatus text v r st s) = mm_calls s"
  by (simp_all add: postPlayerStatus_def Let_def)

lemma answer_takes:
  "answer text k st v s = Inr s' \<Longrightarrow> mm_player s' = mm_player s \<and> mm_requestId s' = (mm_requestId s)(k := Some 0) \<and> mm_calls s' = mm_calls s"
  by (auto simp: answer_def Let_def split: option.splits)

lemma callback_takes:
  "player_callback text c v s = Inr s' \<Longrightarrow> mm_player s' = mm_player s \<and> mm_calls s' = mm_calls s \<and>
     mm_requestId s' = (case answered_kind c of None \<Rightarrow> mm_requestId s | Some k \<Rightarrow> (mm_requestId s)(k := Some 0))"
  by (cases c) (auto simp: answered_kind_def dest!: answer_takes)

text \<open>The ids and the calls after a run with a player, read off its events.\<close>

lemma media_run:
  assumes "foldE (media_step parse text) s es = Inr s'" and "mm_player s" and "SetPlayer False \<notin> set es"
    and "mm_requestId s = (\<lambda>_. None)"
  shows "mm_player s' \<and> mm_requestId s' = (\<lambda>k. waiting_id parse k (rev es)) \<and> mm_calls s' = mm_calls s @ requested parse es"
  using assms(1,3)
proof (induction es arbitrary: s' rule: rev_induct)
  case Nil
  with assms(2,4) show ?case by (simp add: requested_def)
next
  case (snoc e es)
  then obtain t where t: "foldE (media_step parse text) s es = Inr t" and e: "media_step parse text t e = Inr s'"
    by (auto simp: foldE_append)
  have IH: "mm_player t" "mm_requestId t = (\<lambda>k. waiting_id parse k (rev es))" "mm_calls t = mm_calls s @ requested parse es"
    using snoc.IH [OF t] snoc.prems(2) by simp_all
  show ?case
  proof (cases e)
    case (SetPlayer p)
    with e snoc.prems(2) IH show ?thesis by (cases p) (auto simp: requested_def)
  next
    case (PlayerCallback c v)
    with e have "player_callback text c v t = Inr s'" by simp
    from callback_takes [OF this] PlayerCallback IH show ?thesis
      by (auto simp: requested_def fun_eq_iff split: option.splits)
  next
    case (MediaMessage v m)
    with e have "takes (request_of (parse (cstr m))) t s'" using message_takes IH(1) by simp
    with MediaMessage IH show ?thesis
      by (auto simp: requested_def takes_def fun_eq_iff split: option.splits prod.splits)
  qed
qed

definition reported_state :: "callback \<Rightarrow> string" where
  "reported_state c = (if c = OnPaused \<or> c = OnVolumeChanged then ''PAUSED'' else ''PLAYING'')"

text \<open>
  C26. While the application has a player, whatever messages and callbacks have come: the player has got
  exactly the calls of the requests, in order; and when it calls back that a kind of request is
  done, exactly one report is sent, with the id of the latest request of that kind, or zero if it
  has been answered; if there was none yet, the id was never written.
\<close>

theorem media_reports_answer:
  assumes run: "foldE (media_step parse text) new_MediaManager (SetPlayer True # es) = Inr s" and "SetPlayer False \<notin> set es"
    and k: "answered_kind c = Some k"
  shows "mm_calls s = requested parse es \<and>
    (case waiting_id parse k (rev es) of
       None \<Rightarrow> media_step parse text s (PlayerCallback c v) = Inl Uninitialised
     | Some r \<Rightarrow> \<exists>s'. media_step parse text s (PlayerCallback c v) = Inr s'
         \<and> mm_sent s' = mm_sent s @ [text (status_json v (reported_state c) (mm_info s) r)]
         \<and> mm_requestId s' = (mm_requestId s)(k := Some 0))"
proof -
  have "foldE (media_step parse text) (new_MediaManager\<lparr>mm_player := True\<rparr>) es = Inr s" using run by simp
  from media_run [OF this _ assms(2)]
  have s: "mm_player s" "mm_requestId s k = waiting_id parse k (rev es)" "mm_calls s = requested parse es"
    by (simp_all add: new_MediaManager_def)
  have a: "media_step parse text s (PlayerCallback c v) = answer text k (reported_state c) v s"
    using k by (cases c) (auto simp: answered_kind_def reported_state_def)
  have "reported_state c \<noteq> []" by (simp add: reported_state_def)
  with s show ?thesis unfolding a
    by (auto simp: answer_def postPlayerStatus_def Let_def split: option.splits)
qed

definition sample_view :: player_view where
  "sample_view = \<lparr>pv_duration = (60, 0), pv_currentTime = (1, -1), pv_volume = (1, 0), pv_mute = False, pv_status = ''PLAYING''\<rparr>"

theorem media_reports_answer_witness:
  "\<exists>s s'. foldE (media_step (\<lambda>_. JObj [(''requestId'', JInt 7), (''type'', JStr ''PLAY'')]) (\<lambda>_. ''t'')) new_MediaManager
       (SetPlayer True # [MediaMessage sample_view ''m'']) = Inr s \<and> mm_calls s = [PlayerPlay]
     \<and> media_step (\<lambda>_. JObj [(''requestId'', JInt 7), (''type'', JStr ''PLAY'')]) (\<lambda>_. ''t'') s (PlayerCallback OnPlaying sample_view) = Inr s'
     \<and> mm_sent s' = mm_sent s @ [''t'']"
proof -
  let ?d = "JObj [(''requestId'', JInt 7), (''type'', JStr ''PLAY'')]"
  let ?step = "media_step (\<lambda>_. ?d) (\<lambda>_. ''t'')"
  have c: "cstr ''PLAY'' = ''PLAY''" by (simp add: cstr_def)
  have q: "request_of ?d = Some (Play, 7, PlayerPlay)" by (simp add: request_of_def c)
  obtain s where s: "foldE ?step new_MediaManager (SetPlayer True # [MediaMessage sample_view ''m'']) = Inr s"
    by (simp add: media_onMessage_def c doPlay_def)
  have "SetPlayer False \<notin> set [MediaMessage sample_view ''m'']" "answered_kind OnPlaying = Some Play" by (simp_all add: answered_kind_def)
  from media_reports_answer [OF s this, of sample_view] obtain s' where "mm_calls s = [PlayerPlay]" "?step s (PlayerCallback OnPlaying sample_view) = Inr s'"
      "mm_sent s' = mm_sent s @ [''t'']"
    by (auto simp: q requested_def simp del: media_step.simps)
  with s show ?thesis by blast
qed

text \<open>A level or a position that the sender writes as an integer is no floating point number for the library, and is ignored.\<close>

lemma integral_level_ignored:
  "parse (cstr m) = JObj [(''requestId'', JInt r), (''type'', JStr ''SET_VOLUME''), (''volume'', JObj [(''level'', JInt 1)])] \<Longrightarrow>
     media_onMessage parse text v m s = Inr s"
  by (simp add: media_onMessage_def cstr_def)

lemma integral_seek_ignored:
  "parse (cstr m) = JObj [(''requestId'', JInt r), (''type'', JStr ''SEEK''), (''currentTime'', JInt n)] \<Longrightarrow>
     media_onMessage parse text v m s = Inr s"
  by (simp add: media_onMessage_def cstr_def)

text \<open>A load without a complete description ends in an assertion of the JSON library.\<close>

lemma incomplete_load_fails:
  "parse (cstr m) = JObj [(''requestId'', JInt r), (''type'', JStr ''LOAD''), (''media'', JObj [])] \<Longrightarrow>
     media_onMessage parse text v m s = Inl BadJson"
  by (simp add: media_onMessage_def cstr_def doLoad_def media_info_create_def js_string_def)

end
