(* ===== verification/Spec2Isabelle.thy ===== *)
theory Spec2Isabelle
  imports Network Relay RestApi PeerSafety Registration SSDP Daemon Printf UnixPlatform Logging SdkBus Media
begin

text \<open>
  Verification of the Flint daemon and of its receiver library (flingd-cc, C++).

  \<^bold>\<open>The program.\<close> The daemon runs on a TV device. It announces itself by mDNS and SSDP, serves the
  DIAL style REST interface through which a sender (a phone) launches, queries and stops one
  application at a time, keeps a session per sender, talks to the device over a framed TCP
  connection (to start and stop applications, to set the volume) and to the running application over
  a WebSocket, relays messages between the application and its senders on a second WebSocket port,
  and runs a PeerJS server. The application side uses the receiver library (src/sdk/receiver).
  Everything of one process runs on one \<open>io_service\<close>, so a component is a sequential machine: a state
  and handlers that run to their end, one event after the other.

  \<^bold>\<open>How it is modelled.\<close> A class is a \<open>record\<close> of its fields, an object that is deleted by hand an entry
  of a heap, so that using it after its deletion is the fault \<open>UseAfterFree\<close>; the faults are
  undefined behaviours and failed assertions of the JSON library, and a handler returns
  \<open>fault + state\<close>. Blocks of bytes are lists with checked access. Machine words have their width where
  it matters. Loops that may not end are \<open>partial_function (option)\<close>. What is sent is recorded in
  the state, in order. Boost.Asio, websocketpp, RapidJSON (\<open>parse\<close> and \<open>text\<close>), the allocator, UUIDs,
  the regular expressions of the URLs and the device are parameters.

  \<^bold>\<open>The theories.\<close>
  \<^item> \<^bold>\<open>Prelude\<close>: faults, the error monad, loops, blocks of memory, C strings, numerals, and the locales
    \<open>fallible_machine\<close> and \<open>safe_machine\<close> of machines with an invariant, interpreted in BufferOps,
    Application, Session, Relay, Device, ReceiverSafety and SdkBus on the handlers of the code.
    \<^bold>\<open>StdMap\<close>: \<open>std::map\<close> as a sorted list, and the locale \<open>registry\<close> of the tables of Session and
    PeerSafety. \<^bold>\<open>Messaging\<close>: JSON values and WebSocket sessions. The locale \<open>appender\<close> in Writer is the
    contract of the writing functions, the locale \<open>app_platform\<close> in Application what the application
    manager needs of a platform; Device and UnixPlatform interpret it on the TCP device and the desktop.
  \<^item> \<^bold>\<open>Buffer, BufferOps, Numbers, Printf\<close> (discovery/mdns/Buffer): the byte buffer; every call keeps the
    invariant and refines the operation on plain strings; numbers are written within the array of
    the code exactly when the bounds of \<open>appendi_bounds\<close> hold, and the printf family agrees with C on the
    formats of \<open>printf_standard\<close>.
  \<^item> \<^bold>\<open>Reader, Writer, NameCodec, Composer, MDNS, MDNSServer\<close> (discovery/mdns): decompression of names
    against a relational reading of RFC 1035, its divergence on pointer cycles, the round trip of
    names under compression, the round trip of a whole response, and which queries are answered.
    \<^bold>\<open>Network\<close> (net/NetworkManager, udp/UDPServer): the address of the device, whose octets reach the
    wire as they are, and the receive loop; from start to answers the mDNS service is one machine there.
  \<^item> \<^bold>\<open>SSDP\<close> (discovery/ssdp): which searches are answered. \<^bold>\<open>Daemon\<close> (FlintDaemon, IServer,
    FlintDiscovery): the life of the servers through every failure to start.
  \<^item> \<^bold>\<open>Application\<close> (flint/application): the manager of the one running application refines a launch
    queue for calm sequences of events, those in which the uses after free of
    \<open>switch_from_non_ipc_faults\<close> and \<open>stop_starting_with_pending_faults\<close> do not occur. \<^bold>\<open>Session\<close>
    (flint/session): the tables refine tokens with a countdown, for every sequence of events.
  \<^item> \<^bold>\<open>Urls, Http, AppControl, RestApi\<close> (http/UrlParser, handler/HttpHandler, the two REST handlers):
    query strings, paths, and what a launch or a wrong token leads to.
  \<^item> \<^bold>\<open>Channels, Relay\<close> (ws/WebsocketServer): memory safety and routing of the relay. \<^bold>\<open>Peers,
    PeerSafety\<close> (peer/PeerServer): relaying and keeping of messages.
  \<^item> \<^bold>\<open>Framing\<close> (the receive buffer of PlatformPal): independence of the cutting of the stream.
    \<^bold>\<open>Platform, Device\<close> (platform, tcp): the connections of the device, and the commands that arrive.
    \<^bold>\<open>DeviceHttp\<close>: the handlers for volume and description. \<^bold>\<open>UnixPlatform\<close> (platform/PlatformUnix,
    PlatformLinux, PlatformDarwin): the process of the application. Composed with the application
    manager, no process is left behind, and a device was last told what the manager believes.
  \<^item> \<^bold>\<open>Logging\<close> (utils/LogStream, Logging): the stream keeps within its buffer, and the lines that fit
    are printed as a whole.
  \<^item> \<^bold>\<open>ReceiverHandler, ReceiverSafety, Registration\<close> (flint/handler/ReceiverApplicationHandler,
    FlintServer): the WebSocket of the running application, its links to handlers and sessions, and
    the registration from message to answer across applications, sessions and handlers.
  \<^item> \<^bold>\<open>Sdk, SdkBus\<close> (sdk/receiver): channels, buses and registration of the library; no message
    is lost or doubled, and messages pass between application and senders across the relay of the
    daemon. \<^bold>\<open>Media\<close> (sdk/receiver/src/media): the media controller; every report answers the latest
    request of its kind.

  \<^bold>\<open>Bounds.\<close> No fuel is used. The sizes of the code are kept: 16 and 32 bit fields of the packets, 64 bit
  numbers, the array of 23 digits, the buffers of 4096 octets for datagrams and of 4000 characters
  for log lines. Seconds are steps of the session timer; the timeout is 10 of them.
  The theorems about buffers state where they need an allocator that grants every request.

  \<^bold>\<open>Not modelled.\<close> The dump functions and \<open>to_lint\<close> of the buffer, which only print or read, the
  logging of the receiver library (a copy of the one of the daemon), \<open>ifaddrs.c\<close>, \<open>random_device.cpp\<close> and
  StringPiece (vendored), UUID generation (a parameter), the sockets below the UDP, TCP and HTTP
  servers, the thread class \<open>Looper\<close>, which nothing uses, and the JNI and \<open>main\<close> entry points.
  A text handed to an asynchronous send is
  recorded when it is handed over; that the code lets some of these texts die before they are sent
  is a finding of the manifest. Handlers run one at a time: that the daemon may be stopped from
  another thread is not modelled.
\<close>

end
